(* ===== verification/Prelude.thy ===== *)
theory Prelude
  imports Main "HOL-Library.Word"
begin

text \<open>
  The vocabulary every component shares: bytes and sizes, the ways an operation of the
  library can fail, sequencing of stateful operations that may fail, and the algebra of
  byte regions (reading a chunk of a region, overlaying one, resizing one).
  Nothing here translates a particular function of the repository, except the record of
  class \<open>Error\<close> (include/pmemcpy/util/error.h), which a failure carries.
\<close>

section \<open>Types\<close>

type_synonym byte = "8 word"
type_synonym bytes = "8 word list"
type_synonym size_t = "64 word"

text \<open>Class \<open>Error\<close>: a code, the format it was declared with and the formatted message.\<close>

record Error =
  err_code :: int
  err_fmt :: string
  err_msg :: string

text \<open>
  What C++ leaves undefined or what ends the process by a signal is a value of its own,
  so that a theorem which excludes it says something. \<open>Foreign_exn\<close> is an exception
  thrown by a library the code calls.
\<close>

datatype fault =
    Out_of_bounds
  | Null_deref
  | Double_free
  | Use_after_free
  | Bus_error
  | Logic_error
  | Division_by_zero

datatype failure = Throw Error | Crash fault | Foreign_exn string

type_synonym ('s, 'a) outcome = "'s \<times> (failure + 'a)"

named_theorems outcome_simps \<open>unfolding of sequenced operations\<close>
named_theorems region_simps \<open>rewriting of byte regions\<close>

section \<open>Sequencing\<close>

definition bind_out :: "('s, 'a) outcome \<Rightarrow> ('s \<Rightarrow> 'a \<Rightarrow> ('s, 'b) outcome) \<Rightarrow> ('s, 'b) outcome" where
  "bind_out r k = (case r of (s, Inl e) \<Rightarrow> (s, Inl e) | (s, Inr x) \<Rightarrow> k s x)"

lemma bind_out_simps [simp, outcome_simps]:
  "bind_out (s, Inl e) k = (s, Inl e)"
  "bind_out (s, Inr x) k = k s x"
  by (simp_all add: bind_out_def)

lemma bind_out_Inr_iff:
  "bind_out r k = (s', Inr y) \<longleftrightarrow> (\<exists>s x. r = (s, Inr x) \<and> k s x = (s', Inr y))"
  by (cases r; cases "snd r") auto

lemma bind_out_InrE:
  assumes "bind_out r k = (s', Inr y)"
  obtains s x where "r = (s, Inr x)" and "k s x = (s', Inr y)"
  using assms by (auto simp: bind_out_Inr_iff)

lemma bind_out_Inl_iff:
  "bind_out r k = (s', Inl e) \<longleftrightarrow>
     r = (s', Inl e) \<or> (\<exists>s x. r = (s, Inr x) \<and> k s x = (s', Inl e))"
  by (cases r; cases "snd r") auto

definition bind_sum :: "'e + 'a \<Rightarrow> ('a \<Rightarrow> 'e + 'b) \<Rightarrow> 'e + 'b" where
  "bind_sum r k = (case r of Inl e \<Rightarrow> Inl e | Inr x \<Rightarrow> k x)"

lemma bind_sum_simps [simp, outcome_simps]:
  "bind_sum (Inl e) k = Inl e"
  "bind_sum (Inr x) k = k x"
  by (simp_all add: bind_sum_def)

lemma bind_sum_Inr_iff: "bind_sum r k = Inr y \<longleftrightarrow> (\<exists>x. r = Inr x \<and> k x = Inr y)"
  by (cases r) auto

section \<open>Byte regions\<close>

definition chunk :: "nat \<Rightarrow> nat \<Rightarrow> 'a list \<Rightarrow> 'a list" where
  "chunk pos n bs = take n (drop pos bs)"

definition overlay :: "'a list \<Rightarrow> nat \<Rightarrow> 'a list \<Rightarrow> 'a list" where
  "overlay buf pos bs = take pos buf @ bs @ drop (pos + length bs) buf"

text \<open>\<open>resized n bs\<close>: what \<open>ftruncate\<close> makes of a file: cut, or extended with zero bytes.\<close>

definition resized :: "nat \<Rightarrow> bytes \<Rightarrow> bytes" where
  "resized n bs = take n bs @ replicate (n - length bs) 0"

text \<open>A \<open>memcpy\<close> into a region: undefined when it would leave the region.\<close>

definition mem_write :: "bytes \<Rightarrow> nat \<Rightarrow> bytes \<Rightarrow> failure + bytes" where
  "mem_write buf pos bs =
     (if pos + length bs \<le> length buf then Inr (overlay buf pos bs) else Inl (Crash Out_of_bounds))"

definition mem_read :: "bytes \<Rightarrow> nat \<Rightarrow> nat \<Rightarrow> failure + bytes" where
  "mem_read buf pos n =
     (if pos + n \<le> length buf then Inr (chunk pos n buf) else Inl (Crash Out_of_bounds))"

lemma length_chunk [simp, region_simps]: "length (chunk pos n bs) = min n (length bs - pos)"
  by (simp add: chunk_def)

lemma length_overlay [simp, region_simps]:
  "pos + length bs \<le> length buf \<Longrightarrow> length (overlay buf pos bs) = length buf"
  by (simp add: overlay_def)

lemma length_resized [simp, region_simps]: "length (resized n bs) = n"
  by (simp add: resized_def)

lemma resized_same [simp, region_simps]: "resized (length bs) bs = bs"
  by (simp add: resized_def)

lemma resized_Nil [simp, region_simps]: "resized n [] = replicate n 0"
  by (simp add: resized_def)

lemma take_resized: "m \<le> n \<Longrightarrow> m \<le> length bs \<Longrightarrow> take m (resized n bs) = take m bs"
  by (simp add: resized_def)

lemma chunk_overlay_same [simp, region_simps]:
  "pos + length bs \<le> length buf \<Longrightarrow> chunk pos (length bs) (overlay buf pos bs) = bs"
  by (simp add: chunk_def overlay_def)

lemma chunk_overlay_before:
  assumes "p + n \<le> pos" and "pos + length bs \<le> length buf"
  shows "chunk p n (overlay buf pos bs) = chunk p n buf"
proof -
  have "take n (drop p (take pos buf @ bs @ drop (pos + length bs) buf)) = take n (drop p (take pos buf))"
    using assms by simp
  also have "\<dots> = take n (drop p buf)"
    using assms by (simp add: drop_take min_def)
  finally show ?thesis by (simp add: chunk_def overlay_def)
qed

lemma chunk_overlay_after:
  assumes "pos + length bs \<le> p" and "pos + length bs \<le> length buf"
  shows "chunk p n (overlay buf pos bs) = chunk p n buf"
proof -
  have "drop p (take pos buf @ bs @ drop (pos + length bs) buf) = drop p buf"
    using assms by simp
  then show ?thesis by (simp add: chunk_def overlay_def)
qed

lemma overlay_0 [simp, region_simps]: "overlay buf 0 bs = bs @ drop (length bs) buf"
  by (simp add: overlay_def)

lemma overlay_0_all [region_simps]: "length bs = length buf \<Longrightarrow> overlay buf 0 bs = bs"
  by simp

lemma chunk_0 [simp, region_simps]: "chunk 0 n bs = take n bs"
  by (simp add: chunk_def)

lemma mem_write_Inr_iff:
  "mem_write buf pos bs = Inr buf' \<longleftrightarrow> pos + length bs \<le> length buf \<and> buf' = overlay buf pos bs"
  by (auto simp: mem_write_def)

lemma mem_write_length: "mem_write buf pos bs = Inr buf' \<Longrightarrow> length buf' = length buf"
  by (auto simp: mem_write_Inr_iff)

lemma mem_read_after_write:
  "mem_write buf pos bs = Inr buf' \<Longrightarrow> mem_read buf' pos (length bs) = Inr bs"
  by (auto simp: mem_write_Inr_iff mem_read_def)

lemma mem_read_0_all [simp]: "n = length bs \<Longrightarrow> mem_read bs 0 n = Inr bs"
  by (simp add: mem_read_def)

section \<open>Word arithmetic of sizes\<close>

lemma unat_add_no_wrap:
  fixes a b :: size_t
  shows "unat a + unat b < 2 ^ 64 \<Longrightarrow> unat (a + b) = unat a + unat b"
  by (simp add: unat_word_ariths)

lemma unat_mult_no_wrap:
  fixes a b :: size_t
  shows "unat a * unat b < 2 ^ 64 \<Longrightarrow> unat (a * b) = unat a * unat b"
  by (simp add: unat_word_ariths)

lemma word_of_length [simp]: "n = unat (w :: size_t) \<Longrightarrow> of_nat n = w"
  by simp

lemma unat_of_length [simp]: "n < 2 ^ 64 \<Longrightarrow> unat (of_nat n :: size_t) = n"
  by (simp add: unat_of_nat take_bit_nat_eq_self)

end
