(* ===== verification/Serialization.thy ===== *)
theory Serialization
  imports Prelude
begin

text \<open>
  serialize/serializer.h and serialize/no_serializer.h: the element types, \<open>Dimensions\<close>,
  the virtual interface \<open>Serializer\<close> as a record of functions, the contract its
  implementations share as a locale, and \<open>NoSerializer\<close>, which copies memory verbatim.

  A value of a C++ type T is its object representation, \<open>sizeof(T)\<close> bytes; an array is the
  concatenation. The two overloads of each virtual function, for one object (\<open>T &\<close>) and for
  an array with its dimensions (\<open>T *, Dimensions\<close>), are the cases of a target.
\<close>

section \<open>Element types and Dimensions\<close>

datatype prim = Int8 | Int16 | Int32 | Int64 | UInt8 | UInt16 | UInt32 | UInt64 | Float32 | Float64

fun size_of :: "prim \<Rightarrow> nat" where
  "size_of Int8 = 1"
| "size_of Int16 = 2"
| "size_of Int32 = 4"
| "size_of Int64 = 8"
| "size_of UInt8 = 1"
| "size_of UInt16 = 2"
| "size_of UInt32 = 4"
| "size_of UInt64 = 8"
| "size_of Float32 = 4"
| "size_of Float64 = 8"

lemma size_of_pos [simp]: "0 < size_of T"
  by (cases T) auto

lemma size_of_le_8: "size_of T \<le> 8"
  by (cases T) auto

record Dimensions =
  dim_list :: "size_t list"
  dim_count :: size_t

text \<open>
  The constructors take arguments of one integer type, widen each to \<open>size_t\<close> (a negative
  one wraps) and multiply them up, modulo 2^64.
\<close>

definition Dimensions_new :: "int \<Rightarrow> int list \<Rightarrow> Dimensions" where
  "Dimensions_new dim1 args =
     (let ds = map word_of_int (dim1 # args)
      in \<lparr>dim_list = ds, dim_count = foldl (*) 1 ds\<rparr>)"

definition Dimensions_count :: "Dimensions \<Rightarrow> size_t" where
  "Dimensions_count d = dim_count d"

definition Dimensions_data :: "Dimensions \<Rightarrow> size_t list" where
  "Dimensions_data d = dim_list d"

definition Dimensions_at :: "Dimensions \<Rightarrow> size_t \<Rightarrow> failure + size_t" where
  "Dimensions_at d i =
     (if unat i < length (dim_list d) then Inr (dim_list d ! unat i) else Inl (Crash Out_of_bounds))"

definition Dimensions_at_int :: "Dimensions \<Rightarrow> 32 word \<Rightarrow> failure + size_t" where
  "Dimensions_at_int d i = Dimensions_at d (scast i)"

lemma unat_foldl_mult:
  "unat (foldl (*) a (map word_of_int ds) :: size_t) =
     nat ((uint a * prod_list (map (\<lambda>d. d mod 2 ^ 64) ds)) mod 2 ^ 64)"
proof (induction ds arbitrary: a)
  case Nil
  have "uint a mod 2 ^ 64 = uint a"
    using uint_bounded [of a] by simp
  then show ?case by simp
next
  case (Cons d ds)
  have "uint (a * word_of_int d) = (uint a * (d mod 2 ^ 64)) mod 2 ^ 64"
    by (simp add: uint_word_ariths uint_word_of_int mod_mult_right_eq)
  then show ?case
    by (simp add: Cons.IH mod_mult_left_eq mult.assoc)
qed

lemma Dimensions_new_count:
  "unat (dim_count (Dimensions_new d ds)) =
     nat (prod_list (map (\<lambda>d. d mod 2 ^ 64) (d # ds)) mod 2 ^ 64)"
  using unat_foldl_mult [of 1 "d # ds"] by (simp add: Dimensions_new_def Let_def)

section \<open>The interface Serializer\<close>

datatype target = Single | Array Dimensions

text \<open>What the callers compute as the size of the source: sizeof(T) or sizeof(T)*count.\<close>

definition payload_size :: "prim \<Rightarrow> target \<Rightarrow> size_t" where
  "payload_size T tgt =
     (case tgt of
        Single \<Rightarrow> of_nat (size_of T)
      | Array d \<Rightarrow> of_nat (size_of T) * Dimensions_count d)"

text \<open>
  The virtual functions. \<open>serialize_into\<close> gets the size field and the memory of the
  buffer and the memory of the source, and returns the new memory and the byte count;
  \<open>serialize_new\<close> returns the contents of a new buffer; \<open>deserialize\<close> gets the memory
  of the destination, and the size and memory of the buffer read.
\<close>

record serializer =
  est_encoded_size :: "size_t \<Rightarrow> size_t"
  serialize_into :: "target \<Rightarrow> size_t \<Rightarrow> bytes \<Rightarrow> bytes \<Rightarrow> failure + bytes \<times> size_t"
  serialize_new :: "target \<Rightarrow> bytes \<Rightarrow> failure + bytes"
  deserialize :: "target \<Rightarrow> bytes \<Rightarrow> size_t \<Rightarrow> bytes \<Rightarrow> failure + bytes"

text \<open>
  The contract a client may rely on. \<open>enc\<close> is what a value is encoded to and \<open>fits\<close> says
  for which sources the contract is given. A buffer that was allocated by the estimate is
  longer than the encoding; deserialization must cope with the rest of it.
\<close>

locale serializer_contract =
  fixes Z :: serializer
    and T :: prim
    and enc :: "target \<Rightarrow> bytes \<Rightarrow> bytes"
    and fits :: "target \<Rightarrow> bytes \<Rightarrow> bool"
  assumes fits_length: "fits tgt v \<Longrightarrow> length v = unat (payload_size T tgt)"
    and fits_est: "fits tgt v \<Longrightarrow> length (enc tgt v) \<le> unat (est_encoded_size Z (payload_size T tgt))"
    and new_enc: "fits tgt v \<Longrightarrow> serialize_new Z tgt v = Inr (enc tgt v)"
    and into_enc: "fits tgt v \<Longrightarrow> length (enc tgt v) \<le> length mem \<Longrightarrow> unat sz = length mem \<Longrightarrow>
      serialize_into Z tgt sz mem v = Inr (overlay mem 0 (enc tgt v), of_nat (length (enc tgt v)))"
    and deserialize_enc: "fits tgt v \<Longrightarrow> length dst = length v \<Longrightarrow> unat sz = length (enc tgt v @ pad) \<Longrightarrow>
      pad = [] \<or> length (enc tgt v @ pad) = unat (est_encoded_size Z (payload_size T tgt)) \<Longrightarrow>
      deserialize Z tgt dst sz (enc tgt v @ pad) = Inr v"
begin

text \<open>Through a buffer allocated by the estimate: encode into it, read it back.\<close>

lemma roundtrip_mapped:
  assumes "fits tgt v" and "length dst = length v"
    and "length mem = unat (est_encoded_size Z (payload_size T tgt))" and "unat sz = length mem"
  obtains mem' n where "serialize_into Z tgt sz mem v = Inr (mem', n)" and "length mem' = length mem"
    and "deserialize Z tgt dst sz mem' = Inr v"
proof
  have le: "length (enc tgt v) \<le> length mem"
    using fits_est [OF assms(1)] assms(3) by simp
  show "serialize_into Z tgt sz mem v = Inr (overlay mem 0 (enc tgt v), of_nat (length (enc tgt v)))"
    using assms(1) le assms(4) by (rule into_enc)
  show "length (overlay mem 0 (enc tgt v)) = length mem" using le by simp
  show "deserialize Z tgt dst sz (overlay mem 0 (enc tgt v)) = Inr v"
    unfolding overlay_0
    by (rule deserialize_enc) (use assms le in auto)
qed

text \<open>Through a buffer of its own.\<close>

lemma roundtrip_copied:
  assumes "fits tgt v" and "length dst = length v" and "length (enc tgt v) < 2 ^ 64"
  shows "bind_sum (serialize_new Z tgt v) (\<lambda>b. deserialize Z tgt dst (of_nat (length b)) b) = Inr v"
proof -
  have "deserialize Z tgt dst (of_nat (length (enc tgt v))) (enc tgt v @ []) = Inr v"
    using assms by (intro deserialize_enc) (simp_all add: unat_of_nat take_bit_nat_eq_self)
  with assms(1) show ?thesis by (simp add: new_enc)
qed

end

section \<open>NoSerializer\<close>

definition NoSerializer_est_encoded_size :: "size_t \<Rightarrow> size_t" where
  "NoSerializer_est_encoded_size sz = sz"

text \<open>
  \<open>_serialize(buf, src)\<close> and \<open>_serialize(buf, src, count)\<close>: a \<open>memcpy\<close> of the source's
  bytes to the start of the buffer, whose size is not looked at.
\<close>

definition NoSerializer_serialize_into ::
    "prim \<Rightarrow> target \<Rightarrow> size_t \<Rightarrow> bytes \<Rightarrow> bytes \<Rightarrow> failure + bytes \<times> size_t" where
  "NoSerializer_serialize_into T tgt buf_size buf src =
     (let size = payload_size T tgt
      in bind_sum (mem_read src 0 (unat size)) (\<lambda>d.
         bind_sum (mem_write buf 0 d) (\<lambda>buf'. Inr (buf', size))))"

text \<open>\<open>_serialize(src)\<close> and \<open>_serialize(src, count)\<close>: the same into a new buffer of that size.\<close>

definition NoSerializer_serialize_new :: "prim \<Rightarrow> target \<Rightarrow> bytes \<Rightarrow> failure + bytes" where
  "NoSerializer_serialize_new T tgt src = mem_read src 0 (unat (payload_size T tgt))"

text \<open>\<open>_deserialize\<close>: copies as many bytes as the buffer says it has; \<open>dims\<close> is not used.\<close>

definition NoSerializer_deserialize ::
    "prim \<Rightarrow> target \<Rightarrow> bytes \<Rightarrow> size_t \<Rightarrow> bytes \<Rightarrow> failure + bytes" where
  "NoSerializer_deserialize T tgt dst src_size src =
     bind_sum (mem_read src 0 (unat src_size)) (\<lambda>d. mem_write dst 0 d)"

definition NoSerializer :: "prim \<Rightarrow> serializer" where
  "NoSerializer T =
     \<lparr>est_encoded_size = NoSerializer_est_encoded_size,
      serialize_into = NoSerializer_serialize_into T,
      serialize_new = NoSerializer_serialize_new T,
      deserialize = NoSerializer_deserialize T\<rparr>"

lemmas NoSerializer_defs =
  NoSerializer_est_encoded_size_def NoSerializer_serialize_into_def NoSerializer_serialize_new_def
  NoSerializer_deserialize_def

lemma NoSerializer_sel [simp]:
  "est_encoded_size (NoSerializer T) = NoSerializer_est_encoded_size"
  "serialize_into (NoSerializer T) = NoSerializer_serialize_into T"
  "serialize_new (NoSerializer T) = NoSerializer_serialize_new T"
  "deserialize (NoSerializer T) = NoSerializer_deserialize T"
  by (simp_all add: NoSerializer_def)

definition NoSerializer_fits :: "prim \<Rightarrow> target \<Rightarrow> bytes \<Rightarrow> bool" where
  "NoSerializer_fits T tgt v \<longleftrightarrow> length v = unat (payload_size T tgt)"

interpretation noser: serializer_contract "NoSerializer T" T "\<lambda>_ v. v" "NoSerializer_fits T" for T
  by unfold_locales
    (auto simp: NoSerializer_fits_def NoSerializer_defs Let_def mem_read_def mem_write_def chunk_def)

text \<open>
  The destination is written by the size of the stored buffer, so a smaller destination is
  overrun and a larger one keeps its tail.
\<close>

lemma NoSerializer_deserialize_cases:
  "unat sz = length mem \<Longrightarrow>
     NoSerializer_deserialize T tgt dst sz mem =
       (if length mem \<le> length dst then Inr (mem @ drop (length mem) dst) else Inl (Crash Out_of_bounds))"
  by (simp add: NoSerializer_deserialize_def mem_read_def mem_write_def)

end
