(* ===== verification/Capnp.thy ===== *)
theory Capnp
  imports Serialization
begin

text \<open>
  serialize/basic_capnp.capnp, serialize/capnproto.h and serialize/capnproto_nocompress.h.
  The message schema is a datatype. The Cap'n Proto library itself is not part of the
  repository: its stream writers and readers and the accessors generated for the schema are
  the fields of a record, an argument of every definition below. What the two serializers
  rely on is the locale \<open>capnp_library\<close>: a message read from bytes that start with what
  was written for it is that message, whatever follows.
\<close>

section \<open>The schema\<close>

datatype PrimitiveData =
    d8 bytes | d16 bytes | d32 bytes | d64 bytes
  | u8 bytes | u16 bytes | u32 bytes | u64 bytes
  | f32 bytes | f64 bytes
  | d8Arr "bytes list" | d16Arr "bytes list" | d32Arr "bytes list" | d64Arr "bytes list"
  | u8Arr "bytes list" | u16Arr "bytes list" | u32Arr "bytes list" | u64Arr "bytes list"
  | f32Arr "bytes list" | f64Arr "bytes list"

text \<open>The accessors \<open>set##CT\<close> and \<open>set##CT##Arr\<close> that the macro picks for each type T.\<close>

fun set_scalar :: "prim \<Rightarrow> bytes \<Rightarrow> PrimitiveData" where
  "set_scalar Int8 = d8"
| "set_scalar Int16 = d16"
| "set_scalar Int32 = d32"
| "set_scalar Int64 = d64"
| "set_scalar UInt8 = u8"
| "set_scalar UInt16 = u16"
| "set_scalar UInt32 = u32"
| "set_scalar UInt64 = u64"
| "set_scalar Float32 = f32"
| "set_scalar Float64 = f64"

fun set_array :: "prim \<Rightarrow> bytes list \<Rightarrow> PrimitiveData" where
  "set_array Int8 = d8Arr"
| "set_array Int16 = d16Arr"
| "set_array Int32 = d32Arr"
| "set_array Int64 = d64Arr"
| "set_array UInt8 = u8Arr"
| "set_array UInt16 = u16Arr"
| "set_array UInt32 = u32Arr"
| "set_array UInt64 = u64Arr"
| "set_array Float32 = f32Arr"
| "set_array Float64 = f64Arr"

text \<open>The variant a message holds.\<close>

fun scalar_of :: "PrimitiveData \<Rightarrow> (prim \<times> bytes) option" where
  "scalar_of (d8 x) = Some (Int8, x)"
| "scalar_of (d16 x) = Some (Int16, x)"
| "scalar_of (d32 x) = Some (Int32, x)"
| "scalar_of (d64 x) = Some (Int64, x)"
| "scalar_of (u8 x) = Some (UInt8, x)"
| "scalar_of (u16 x) = Some (UInt16, x)"
| "scalar_of (u32 x) = Some (UInt32, x)"
| "scalar_of (u64 x) = Some (UInt64, x)"
| "scalar_of (f32 x) = Some (Float32, x)"
| "scalar_of (f64 x) = Some (Float64, x)"
| "scalar_of _ = None"

fun array_of :: "PrimitiveData \<Rightarrow> (prim \<times> bytes list) option" where
  "array_of (d8Arr xs) = Some (Int8, xs)"
| "array_of (d16Arr xs) = Some (Int16, xs)"
| "array_of (d32Arr xs) = Some (Int32, xs)"
| "array_of (d64Arr xs) = Some (Int64, xs)"
| "array_of (u8Arr xs) = Some (UInt8, xs)"
| "array_of (u16Arr xs) = Some (UInt16, xs)"
| "array_of (u32Arr xs) = Some (UInt32, xs)"
| "array_of (u64Arr xs) = Some (UInt64, xs)"
| "array_of (f32Arr xs) = Some (Float32, xs)"
| "array_of (f64Arr xs) = Some (Float64, xs)"
| "array_of _ = None"

lemma scalar_of_set [simp]: "scalar_of (set_scalar T x) = Some (T, x)"
  by (cases T) auto

lemma array_of_set [simp]: "array_of (set_array T xs) = Some (T, xs)"
  by (cases T) auto

lemma variant_of_set [simp]:
  "array_of (set_scalar T x) = None"
  "scalar_of (set_array T xs) = None"
  by (cases T; simp)+

section \<open>The library\<close>

text \<open>
  \<open>write_packed\<close> and \<open>write_flat\<close>: the bytes that \<open>writePackedMessage\<close> and
  \<open>writeMessage\<close> put on the stream (or the exception they throw). \<open>read_packed\<close>: the message
  an \<open>ArrayInputStream\<close> over these bytes yields. \<open>read_flat n mem\<close>: the message a
  \<open>FlatArrayMessageReader\<close> over an array of n words finds at the start of the memory.
  \<open>other_scalar\<close> and \<open>other_array\<close>: what a generated getter returns for a message that holds
  another variant of the union. \<open>stream_full\<close>: the exception of an \<open>ArrayOutputStream\<close>
  that is written beyond its end.
\<close>

record capnp =
  write_packed :: "PrimitiveData \<Rightarrow> failure + bytes"
  write_flat :: "PrimitiveData \<Rightarrow> failure + bytes"
  read_packed :: "bytes \<Rightarrow> failure + PrimitiveData"
  read_flat :: "nat \<Rightarrow> bytes \<Rightarrow> failure + PrimitiveData"
  other_scalar :: "prim \<Rightarrow> PrimitiveData \<Rightarrow> failure + bytes"
  other_array :: "prim \<Rightarrow> PrimitiveData \<Rightarrow> failure + bytes list"
  stream_full :: failure

definition get_scalar :: "capnp \<Rightarrow> prim \<Rightarrow> PrimitiveData \<Rightarrow> failure + bytes" where
  "get_scalar L T m =
     (case scalar_of m of
        Some (U, x) \<Rightarrow> if U = T then Inr x else other_scalar L T m
      | None \<Rightarrow> other_scalar L T m)"

definition get_array :: "capnp \<Rightarrow> prim \<Rightarrow> PrimitiveData \<Rightarrow> failure + bytes list" where
  "get_array L T m =
     (case array_of m of
        Some (U, xs) \<Rightarrow> if U = T then Inr xs else other_array L T m
      | None \<Rightarrow> other_array L T m)"

lemma get_set [simp]:
  "get_scalar L T (set_scalar T x) = Inr x"
  "get_array L T (set_array T xs) = Inr xs"
  by (simp_all add: get_scalar_def get_array_def)

section \<open>The two serializers\<close>

text \<open>\<open>kj::ArrayPtr<T>(src, count)\<close>: count elements from the source's memory.\<close>

definition elements_of :: "nat \<Rightarrow> nat \<Rightarrow> bytes \<Rightarrow> bytes list" where
  "elements_of w count mem = map (\<lambda>i. chunk (i * w) w mem) [0..<count]"

definition read_elements :: "prim \<Rightarrow> size_t \<Rightarrow> bytes \<Rightarrow> failure + bytes list" where
  "read_elements T count src =
     (if size_of T * unat count \<le> length src then Inr (elements_of (size_of T) (unat count) src)
      else Inl (Crash Out_of_bounds))"

text \<open>The message that \<open>_serialize\<close> builds, of one value or of an array.\<close>

definition build_message :: "prim \<Rightarrow> target \<Rightarrow> bytes \<Rightarrow> failure + PrimitiveData" where
  "build_message T tgt src =
     (case tgt of
        Single \<Rightarrow> bind_sum (mem_read src 0 (size_of T)) (\<lambda>x. Inr (set_scalar T x))
      | Array d \<Rightarrow> bind_sum (read_elements T (Dimensions_count d) src) (\<lambda>xs. Inr (set_array T xs)))"

text \<open>\<open>kj::ArrayOutputStream\<close> over \<open>buf->c_str()\<close> and \<open>buf->size()\<close>.\<close>

definition array_output :: "capnp \<Rightarrow> size_t \<Rightarrow> bytes \<Rightarrow> bytes \<Rightarrow> failure + bytes \<times> size_t" where
  "array_output L buf_size buf bs =
     (if unat buf_size < length bs then Inl (stream_full L)
      else bind_sum (mem_write buf 0 bs) (\<lambda>buf'. Inr (buf', of_nat (length bs))))"

text \<open>The copy loop of \<open>_deserialize\<close>: every element of the message, whatever \<open>dims\<close> says.\<close>

fun copy_elements :: "bytes \<Rightarrow> nat \<Rightarrow> bytes list \<Rightarrow> failure + bytes" where
  "copy_elements dst pos [] = Inr dst"
| "copy_elements dst pos (x # xs) =
     bind_sum (mem_write dst pos x) (\<lambda>dst'. copy_elements dst' (pos + length x) xs)"

definition extract_message :: "capnp \<Rightarrow> prim \<Rightarrow> target \<Rightarrow> bytes \<Rightarrow> PrimitiveData \<Rightarrow> failure + bytes" where
  "extract_message L T tgt dst m =
     (case tgt of
        Single \<Rightarrow> bind_sum (get_scalar L T m) (\<lambda>x. mem_write dst 0 x)
      | Array d \<Rightarrow> bind_sum (get_array L T m) (\<lambda>xs. copy_elements dst 0 xs))"

definition CapnProto_est_encoded_size :: "size_t \<Rightarrow> size_t" where
  "CapnProto_est_encoded_size sz = sz + 256"

definition CapnProto_serialize_into ::
    "capnp \<Rightarrow> prim \<Rightarrow> target \<Rightarrow> size_t \<Rightarrow> bytes \<Rightarrow> bytes \<Rightarrow> failure + bytes \<times> size_t" where
  "CapnProto_serialize_into L T tgt buf_size buf src =
     bind_sum (build_message T tgt src) (\<lambda>m.
     bind_sum (write_packed L m) (\<lambda>bs. array_output L buf_size buf bs))"

definition CapnProto_serialize_new :: "capnp \<Rightarrow> prim \<Rightarrow> target \<Rightarrow> bytes \<Rightarrow> failure + bytes" where
  "CapnProto_serialize_new L T tgt src = bind_sum (build_message T tgt src) (write_packed L)"

definition CapnProto_deserialize ::
    "capnp \<Rightarrow> prim \<Rightarrow> target \<Rightarrow> bytes \<Rightarrow> size_t \<Rightarrow> bytes \<Rightarrow> failure + bytes" where
  "CapnProto_deserialize L T tgt dst src_size src =
     bind_sum (mem_read src 0 (unat src_size)) (\<lambda>bs.
     bind_sum (read_packed L bs) (extract_message L T tgt dst))"

definition CapnProtoSerializer :: "capnp \<Rightarrow> prim \<Rightarrow> serializer" where
  "CapnProtoSerializer L T =
     \<lparr>est_encoded_size = CapnProto_est_encoded_size,
      serialize_into = CapnProto_serialize_into L T,
      serialize_new = CapnProto_serialize_new L T,
      deserialize = CapnProto_deserialize L T\<rparr>"

definition NoCompress_est_encoded_size :: "size_t \<Rightarrow> size_t" where
  "NoCompress_est_encoded_size sz = sz + 128"

definition NoCompress_serialize_into ::
    "capnp \<Rightarrow> prim \<Rightarrow> target \<Rightarrow> size_t \<Rightarrow> bytes \<Rightarrow> bytes \<Rightarrow> failure + bytes \<times> size_t" where
  "NoCompress_serialize_into L T tgt buf_size buf src =
     bind_sum (build_message T tgt src) (\<lambda>m.
     bind_sum (write_flat L m) (\<lambda>bs. array_output L buf_size buf bs))"

definition NoCompress_serialize_new :: "capnp \<Rightarrow> prim \<Rightarrow> target \<Rightarrow> bytes \<Rightarrow> failure + bytes" where
  "NoCompress_serialize_new L T tgt src = bind_sum (build_message T tgt src) (write_flat L)"

text \<open>
  The reader is given an array of \<open>src->size()\<close> words: the size of the buffer in bytes is
  used as a number of 8-byte words.
\<close>

definition NoCompress_words :: "size_t \<Rightarrow> nat" where
  "NoCompress_words src_size = unat src_size"

definition NoCompress_deserialize ::
    "capnp \<Rightarrow> prim \<Rightarrow> target \<Rightarrow> bytes \<Rightarrow> size_t \<Rightarrow> bytes \<Rightarrow> failure + bytes" where
  "NoCompress_deserialize L T tgt dst src_size src =
     bind_sum (read_flat L (NoCompress_words src_size) src) (extract_message L T tgt dst)"

definition CapnProtoNoCompressSerializer :: "capnp \<Rightarrow> prim \<Rightarrow> serializer" where
  "CapnProtoNoCompressSerializer L T =
     \<lparr>est_encoded_size = NoCompress_est_encoded_size,
      serialize_into = NoCompress_serialize_into L T,
      serialize_new = NoCompress_serialize_new L T,
      deserialize = NoCompress_deserialize L T\<rparr>"

lemma CapnProtoSerializer_sel [simp]:
  "est_encoded_size (CapnProtoSerializer L T) = CapnProto_est_encoded_size"
  "serialize_into (CapnProtoSerializer L T) = CapnProto_serialize_into L T"
  "serialize_new (CapnProtoSerializer L T) = CapnProto_serialize_new L T"
  "deserialize (CapnProtoSerializer L T) = CapnProto_deserialize L T"
  by (simp_all add: CapnProtoSerializer_def)

lemma CapnProtoNoCompressSerializer_sel [simp]:
  "est_encoded_size (CapnProtoNoCompressSerializer L T) = NoCompress_est_encoded_size"
  "serialize_into (CapnProtoNoCompressSerializer L T) = NoCompress_serialize_into L T"
  "serialize_new (CapnProtoNoCompressSerializer L T) = NoCompress_serialize_new L T"
  "deserialize (CapnProtoNoCompressSerializer L T) = NoCompress_deserialize L T"
  by (simp_all add: CapnProtoNoCompressSerializer_def)

section \<open>Elements of an array\<close>

lemma length_elements_of [simp]: "length (elements_of w n mem) = n"
  by (simp add: elements_of_def)

lemma elements_of_Suc: "elements_of w (Suc n) mem = take w mem # elements_of w n (drop w mem)"
proof -
  have "elements_of w (Suc n) mem = chunk 0 w mem # map (\<lambda>i. chunk (i * w) w mem) (map Suc [0..<n])"
    by (simp add: elements_of_def upt_conv_Cons map_Suc_upt del: upt_Suc)
  then show ?thesis by (simp add: elements_of_def chunk_def add.commute)
qed

lemma concat_elements_of: "w * n = length mem \<Longrightarrow> concat (elements_of w n mem) = mem"
proof (induction n arbitrary: mem)
  case 0
  then show ?case by (simp add: elements_of_def)
next
  case (Suc n)
  then have "w * n = length (drop w mem)" by simp
  with Suc.IH have "concat (elements_of w n (drop w mem)) = drop w mem" by blast
  then show ?case by (simp add: elements_of_Suc)
qed

lemma copy_elements_Inr:
  "pos + length (concat xs) \<le> length dst \<Longrightarrow>
     copy_elements dst pos xs = Inr (overlay dst pos (concat xs))"
proof (induction xs arbitrary: dst pos)
  case Nil
  then show ?case by (simp add: overlay_def)
next
  case (Cons x xs)
  have "copy_elements (overlay dst pos x) (pos + length x) xs =
      Inr (overlay (overlay dst pos x) (pos + length x) (concat xs))"
    using Cons.prems by (intro Cons.IH) simp
  moreover have "overlay (overlay dst pos x) (pos + length x) (concat xs) = overlay dst pos (x @ concat xs)"
    using Cons.prems by (simp add: overlay_def ac_simps)
  ultimately show ?case using Cons.prems by (simp add: mem_write_def)
qed

lemma copy_elements_overrun:
  "pos \<le> length dst \<Longrightarrow> length dst < pos + length (concat xs) \<Longrightarrow>
     copy_elements dst pos xs = Inl (Crash Out_of_bounds)"
  by (induction xs arbitrary: dst pos) (auto simp: mem_write_def overlay_def)

section \<open>The contract\<close>

definition message_for :: "prim \<Rightarrow> target \<Rightarrow> bytes \<Rightarrow> PrimitiveData" where
  "message_for T tgt v =
     (case tgt of
        Single \<Rightarrow> set_scalar T v
      | Array d \<Rightarrow> set_array T (elements_of (size_of T) (unat (Dimensions_count d)) v))"

text \<open>The source has the size the target says, with no wrap-around in sizeof(T)*count.\<close>

definition well_sized :: "prim \<Rightarrow> target \<Rightarrow> bytes \<Rightarrow> bool" where
  "well_sized T tgt v \<longleftrightarrow>
     (case tgt of
        Single \<Rightarrow> length v = size_of T
      | Array d \<Rightarrow> length v = size_of T * unat (Dimensions_count d) \<and> length v < 2 ^ 64)"

lemma size_of_nat_word [simp]: "unat (of_nat (size_of T) :: size_t) = size_of T"
  using size_of_le_8 [of T] by (simp add: unat_of_nat take_bit_nat_eq_self)

lemma well_sized_length: "well_sized T tgt v \<Longrightarrow> length v = unat (payload_size T tgt)"
  by (auto simp: well_sized_def payload_size_def unat_mult_no_wrap split: target.splits)

lemma build_message_well_sized:
  "well_sized T tgt v \<Longrightarrow> build_message T tgt v = Inr (message_for T tgt v)"
  by (auto simp: well_sized_def build_message_def message_for_def read_elements_def
      split: target.splits)

lemma extract_message_for:
  "well_sized T tgt v \<Longrightarrow> length dst = length v \<Longrightarrow>
     extract_message L T tgt dst (message_for T tgt v) = Inr v"
  by (auto simp: well_sized_def extract_message_def message_for_def mem_write_def
      concat_elements_of copy_elements_Inr split: target.splits)

definition encoded :: "(PrimitiveData \<Rightarrow> failure + bytes) \<Rightarrow> prim \<Rightarrow> target \<Rightarrow> bytes \<Rightarrow> bytes" where
  "encoded w T tgt v = (case w (message_for T tgt v) of Inr bs \<Rightarrow> bs | Inl _ \<Rightarrow> [])"

definition capnp_fits ::
    "(PrimitiveData \<Rightarrow> failure + bytes) \<Rightarrow> (size_t \<Rightarrow> size_t) \<Rightarrow> prim \<Rightarrow> target \<Rightarrow> bytes \<Rightarrow> bool" where
  "capnp_fits w est T tgt v \<longleftrightarrow>
     well_sized T tgt v \<and> isl (w (message_for T tgt v)) = False \<and>
     length (encoded w T tgt v) \<le> unat (est (payload_size T tgt))"

lemma capnp_fitsD:
  assumes "capnp_fits w est T tgt v"
  shows "well_sized T tgt v" and "w (message_for T tgt v) = Inr (encoded w T tgt v)"
    and "length (encoded w T tgt v) \<le> unat (est (payload_size T tgt))"
  using assms by (auto simp: capnp_fits_def encoded_def isl_def split: sum.splits)

lemma array_output_Inr:
  "length bs \<le> length buf \<Longrightarrow> unat sz = length buf \<Longrightarrow>
     array_output L sz buf bs = Inr (overlay buf 0 bs, of_nat (length bs))"
  by (simp add: array_output_def mem_write_def)

locale capnp_library =
  fixes L :: capnp
  assumes packed_stream: "write_packed L m = Inr bs \<Longrightarrow> read_packed L (bs @ rest) = Inr m"
    and flat_stream: "write_flat L m = Inr bs \<Longrightarrow> length bs \<le> 8 * n \<Longrightarrow> read_flat L n (bs @ rest) = Inr m"

sublocale capnp_library \<subseteq> packed: serializer_contract "CapnProtoSerializer L T" T
  "encoded (write_packed L) T" "capnp_fits (write_packed L) CapnProto_est_encoded_size T" for T
proof
  fix tgt v dst sz mem pad
  assume f: "capnp_fits (write_packed L) CapnProto_est_encoded_size T tgt v"
  note f' = capnp_fitsD [OF f]
  show "length v = unat (payload_size T tgt)" using f'(1) by (rule well_sized_length)
  show "length (encoded (write_packed L) T tgt v) \<le>
      unat (est_encoded_size (CapnProtoSerializer L T) (payload_size T tgt))"
    using f'(3) by simp
  show "serialize_new (CapnProtoSerializer L T) tgt v = Inr (encoded (write_packed L) T tgt v)"
    using f' by (simp add: CapnProto_serialize_new_def build_message_well_sized)
  show "serialize_into (CapnProtoSerializer L T) tgt sz mem v =
      Inr (overlay mem 0 (encoded (write_packed L) T tgt v), of_nat (length (encoded (write_packed L) T tgt v)))"
    if "length (encoded (write_packed L) T tgt v) \<le> length mem" "unat sz = length mem"
    using f' that by (simp add: CapnProto_serialize_into_def build_message_well_sized array_output_Inr)
  show "deserialize (CapnProtoSerializer L T) tgt dst sz (encoded (write_packed L) T tgt v @ pad) = Inr v"
    if "length dst = length v" "unat sz = length (encoded (write_packed L) T tgt v @ pad)"
    using that packed_stream [OF f'(2), of pad] extract_message_for [OF f'(1), of dst L]
    by (simp add: CapnProto_deserialize_def)
qed

sublocale capnp_library \<subseteq> flat: serializer_contract "CapnProtoNoCompressSerializer L T" T
  "encoded (write_flat L) T" "capnp_fits (write_flat L) NoCompress_est_encoded_size T" for T
proof
  fix tgt v dst sz mem pad
  assume f: "capnp_fits (write_flat L) NoCompress_est_encoded_size T tgt v"
  note f' = capnp_fitsD [OF f]
  show "length v = unat (payload_size T tgt)" using f'(1) by (rule well_sized_length)
  show "length (encoded (write_flat L) T tgt v) \<le>
      unat (est_encoded_size (CapnProtoNoCompressSerializer L T) (payload_size T tgt))"
    using f'(3) by simp
  show "serialize_new (CapnProtoNoCompressSerializer L T) tgt v = Inr (encoded (write_flat L) T tgt v)"
    using f' by (simp add: NoCompress_serialize_new_def build_message_well_sized)
  show "serialize_into (CapnProtoNoCompressSerializer L T) tgt sz mem v =
      Inr (overlay mem 0 (encoded (write_flat L) T tgt v), of_nat (length (encoded (write_flat L) T tgt v)))"
    if "length (encoded (write_flat L) T tgt v) \<le> length mem" "unat sz = length mem"
    using f' that by (simp add: NoCompress_serialize_into_def build_message_well_sized array_output_Inr)
  show "deserialize (CapnProtoNoCompressSerializer L T) tgt dst sz (encoded (write_flat L) T tgt v @ pad) = Inr v"
    if "length dst = length v" "unat sz = length (encoded (write_flat L) T tgt v @ pad)"
    using that flat_stream [OF f'(2), of "unat sz" pad] extract_message_for [OF f'(1), of dst L]
    by (simp add: NoCompress_deserialize_def NoCompress_words_def)
qed

context capnp_library
begin

lemma packed_contract:
  "serializer_contract (CapnProtoSerializer L T) T
    (encoded (write_packed L) T) (capnp_fits (write_packed L) CapnProto_est_encoded_size T)"
  by (rule packed.serializer_contract_axioms)

lemma flat_contract:
  "serializer_contract (CapnProtoNoCompressSerializer L T) T
    (encoded (write_flat L) T) (capnp_fits (write_flat L) NoCompress_est_encoded_size T)"
  by (rule flat.serializer_contract_axioms)

end

section \<open>A reference codec\<close>

text \<open>
  A self-delimiting encoding of the schema: it shows that the laws of the library can hold,
  and concrete runs are evaluated on it. It is not the format of Cap'n Proto.
\<close>

definition all_prims :: "prim list" where
  "all_prims = [Int8, Int16, Int32, Int64, UInt8, UInt16, UInt32, UInt64, Float32, Float64]"

fun prim_tag :: "prim \<Rightarrow> byte" where
  "prim_tag Int8 = 0" | "prim_tag Int16 = 1" | "prim_tag Int32 = 2" | "prim_tag Int64 = 3"
| "prim_tag UInt8 = 4" | "prim_tag UInt16 = 5" | "prim_tag UInt32 = 6" | "prim_tag UInt64 = 7"
| "prim_tag Float32 = 8" | "prim_tag Float64 = 9"

definition prim_of_tag :: "byte \<Rightarrow> prim option" where
  "prim_of_tag t = List.find (\<lambda>T. prim_tag T = t) all_prims"

lemma prim_of_tag [simp]: "prim_of_tag (prim_tag T) = Some T"
  by (cases T) (simp_all add: prim_of_tag_def all_prims_def)

fun ref_put :: "bytes \<Rightarrow> bytes" where
  "ref_put [] = [0]"
| "ref_put (b # bs) = 1 # b # ref_put bs"

fun ref_get :: "bytes \<Rightarrow> (bytes \<times> bytes) option" where
  "ref_get (m # bs) =
     (if m = 0 then Some ([], bs)
      else (case bs of
              [] \<Rightarrow> None
            | b # cs \<Rightarrow> (case ref_get cs of Some (x, rest) \<Rightarrow> Some (b # x, rest) | None \<Rightarrow> None)))"
| "ref_get [] = None"

fun ref_puts :: "bytes list \<Rightarrow> bytes" where
  "ref_puts [] = [0]"
| "ref_puts (x # xs) = 1 # ref_put x @ ref_puts xs"

text \<open>The fuel is the length of the input, which every element shortens.\<close>

fun ref_gets :: "nat \<Rightarrow> bytes \<Rightarrow> bytes list option" where
  "ref_gets (Suc k) (m # bs) =
     (if m = 0 then Some []
      else (case ref_get bs of
              Some (x, rest) \<Rightarrow> map_option (\<lambda>xs. x # xs) (ref_gets k rest)
            | None \<Rightarrow> None))"
| "ref_gets _ _ = None"

lemma ref_get_put [simp]: "ref_get (ref_put x @ rest) = Some (x, rest)"
  by (induction x) auto

lemma ref_gets_puts: "length (ref_puts xs) \<le> k \<Longrightarrow> ref_gets k (ref_puts xs @ rest) = Some xs"
proof (induction xs arbitrary: k)
  case Nil
  then show ?case by (cases k) auto
next
  case (Cons x xs)
  then obtain k' where "k = Suc k'" and "length (ref_puts xs) \<le> k'" by (cases k) auto
  with Cons.IH show ?case by simp
qed

definition ref_write :: "PrimitiveData \<Rightarrow> failure + bytes" where
  "ref_write m =
     Inr (case scalar_of m of
            Some (T, x) \<Rightarrow> 0 # prim_tag T # ref_put x
          | None \<Rightarrow>
              (case array_of m of
                 Some (T, xs) \<Rightarrow> 1 # prim_tag T # ref_puts xs
               | None \<Rightarrow> []))"

fun ref_read :: "bytes \<Rightarrow> failure + PrimitiveData" where
  "ref_read (k # t # bs) =
     (case prim_of_tag t of
        None \<Rightarrow> Inl (Foreign_exn ''kj'')
      | Some T \<Rightarrow>
          if k = 0 then
            (case ref_get bs of Some (x, _) \<Rightarrow> Inr (set_scalar T x) | None \<Rightarrow> Inl (Foreign_exn ''kj''))
          else
            (case ref_gets (length bs) bs of Some xs \<Rightarrow> Inr (set_array T xs) | None \<Rightarrow> Inl (Foreign_exn ''kj'')))"
| "ref_read _ = Inl (Foreign_exn ''kj'')"

definition ref_capnp :: capnp where
  "ref_capnp =
     \<lparr>write_packed = ref_write, write_flat = ref_write, read_packed = ref_read,
      read_flat = (\<lambda>n mem. ref_read (take (8 * n) mem)),
      other_scalar = (\<lambda>T _. Inr (replicate (size_of T) 0)), other_array = (\<lambda>_ _. Inr []),
      stream_full = Foreign_exn ''kj''\<rparr>"

lemma variant_cases:
  obtains T x where "m = set_scalar T x" | T xs where "m = set_array T xs"
proof -
  have "(\<exists>T x. m = set_scalar T x) \<or> (\<exists>T xs. m = set_array T xs)"
    by (cases m) (metis set_scalar.simps set_array.simps)+
  with that show ?thesis by blast
qed

lemma ref_read_write: "ref_write m = Inr bs \<Longrightarrow> ref_read (bs @ rest) = Inr m"
  by (rule variant_cases [of m]) (auto simp: ref_write_def ref_gets_puts)

interpretation ref: capnp_library ref_capnp
  by unfold_locales (auto simp: ref_capnp_def ref_read_write)

end
