(* ===== verification/Buffers.thy ===== *)
theory Buffers
  imports Prelude
begin

text \<open>
  The buffers of util/serializeable.h and the C heap they live in: \<open>generic_buffer\<close> with
  its virtual \<open>size\<close>, \<open>c_str\<close> and \<open>operator[]\<close>, and the constructors and destructors of
  \<open>pmem_buffer\<close>, \<open>malloc_buffer\<close> and \<open>string_buffer\<close>, whose copies share their memory.
  The mapped buffers of the file storages (posix.h, pmdk_fs.h) are further constructors of
  the buffer type; their operations are in the theories of those storages.
\<close>

section \<open>The heap\<close>

text \<open>
  A pointer is null, the start of a heap block, of a file mapping (with its inode and
  length), of a persistent object, or the value \<open>MAP_FAILED\<close>. \<open>h_fill\<close> is what
  uninitialised memory of a block happens to hold.
\<close>

datatype ptr = Null | Blk nat | Mapping nat nat | Map_failed | Object nat

record heap =
  h_blocks :: "nat \<rightharpoonup> bytes"
  h_next :: nat
  h_fill :: "nat \<Rightarrow> nat \<Rightarrow> byte"

definition heap_ok :: "'z heap_scheme \<Rightarrow> bool" where
  "heap_ok h \<longleftrightarrow> (\<forall>i. h_next h \<le> i \<longrightarrow> h_blocks h i = None)"

definition malloc :: "nat \<Rightarrow> 'z heap_scheme \<Rightarrow> 'z heap_scheme \<times> ptr" where
  "malloc n h =
     (h\<lparr>h_blocks := (h_blocks h)(h_next h \<mapsto> map (h_fill h (h_next h)) [0..<n]),
        h_next := Suc (h_next h)\<rparr>, Blk (h_next h))"

definition free_ptr :: "ptr \<Rightarrow> 'z heap_scheme \<Rightarrow> failure + 'z heap_scheme" where
  "free_ptr p h =
     (case p of
        Null \<Rightarrow> Inr h
      | Blk i \<Rightarrow>
          (case h_blocks h i of
             Some _ \<Rightarrow> Inr (h\<lparr>h_blocks := (h_blocks h)(i := None)\<rparr>)
           | None \<Rightarrow> Inl (Crash Double_free))
      | _ \<Rightarrow> Inl (Crash Double_free))"

definition block_at :: "'z heap_scheme \<Rightarrow> ptr \<Rightarrow> failure + bytes" where
  "block_at h p =
     (case p of
        Blk i \<Rightarrow> (case h_blocks h i of Some bs \<Rightarrow> Inr bs | None \<Rightarrow> Inl (Crash Use_after_free))
      | Null \<Rightarrow> Inl (Crash Null_deref)
      | _ \<Rightarrow> Inl (Crash Out_of_bounds))"

text \<open>\<open>memcpy\<close> to and from the start of a block.\<close>

definition poke :: "'z heap_scheme \<Rightarrow> ptr \<Rightarrow> bytes \<Rightarrow> failure + 'z heap_scheme" where
  "poke h p bs =
     (if bs = [] then Inr h
      else bind_sum (block_at h p) (\<lambda>m. bind_sum (mem_write m 0 bs) (\<lambda>m'.
             (case p of Blk i \<Rightarrow> Inr (h\<lparr>h_blocks := (h_blocks h)(i \<mapsto> m')\<rparr>)
              | _ \<Rightarrow> Inl (Crash Out_of_bounds)))))"

definition peek :: "'z heap_scheme \<Rightarrow> ptr \<Rightarrow> nat \<Rightarrow> failure + bytes" where
  "peek h p n = (if n = 0 then Inr [] else bind_sum (block_at h p) (\<lambda>m. mem_read m 0 n))"

section \<open>Buffers\<close>

datatype buffer =
    Pmem_buffer ptr size_t
  | Malloc_buffer ptr size_t
  | String_buffer bytes
  | Mmap_buffer ptr size_t int
  | Fs_mmap_buffer ptr size_t

fun buffer_size :: "buffer \<Rightarrow> size_t" where
  "buffer_size (Pmem_buffer p n) = n"
| "buffer_size (Malloc_buffer p n) = n"
| "buffer_size (String_buffer s) = of_nat (length s)"
| "buffer_size (Mmap_buffer p n fd) = n"
| "buffer_size (Fs_mmap_buffer p n) = n"

text \<open>\<open>c_str()\<close>; a \<open>string_buffer\<close> answers with the address of its own characters.\<close>

fun buffer_c_str :: "buffer \<Rightarrow> ptr option" where
  "buffer_c_str (Pmem_buffer p n) = Some p"
| "buffer_c_str (Malloc_buffer p n) = Some p"
| "buffer_c_str (String_buffer s) = None"
| "buffer_c_str (Mmap_buffer p n fd) = Some p"
| "buffer_c_str (Fs_mmap_buffer p n) = Some p"

subsection \<open>malloc_buffer\<close>

definition malloc_buffer_default :: buffer where
  "malloc_buffer_default = Malloc_buffer Null 0"

definition malloc_buffer_alloc :: "size_t \<Rightarrow> 'z heap_scheme \<Rightarrow> 'z heap_scheme \<times> buffer" where
  "malloc_buffer_alloc n h = (let (h', p) = malloc (unat n) h in (h', Malloc_buffer p n))"

text \<open>\<open>malloc_buffer(char *buf, size_t size)\<close>: a block of its own with a copy of the bytes.\<close>

definition malloc_buffer_copy_of :: "bytes \<Rightarrow> 'z heap_scheme \<Rightarrow> failure + 'z heap_scheme \<times> buffer" where
  "malloc_buffer_copy_of bs h =
     (let (h', p) = malloc (length bs) h
      in bind_sum (poke h' p bs) (\<lambda>h''. Inr (h'', Malloc_buffer p (of_nat (length bs)))))"

text \<open>The copy constructor copies the pointer; the move constructor also clears the old one.\<close>

fun malloc_buffer_copy :: "buffer \<Rightarrow> buffer" where
  "malloc_buffer_copy (Malloc_buffer p n) = Malloc_buffer p n"
| "malloc_buffer_copy b = b"

fun malloc_buffer_move :: "buffer \<Rightarrow> buffer \<times> buffer" where
  "malloc_buffer_move (Malloc_buffer p n) = (Malloc_buffer p n, Malloc_buffer Null 0)"
| "malloc_buffer_move b = (b, b)"

fun malloc_buffer_destroy :: "buffer \<Rightarrow> 'z heap_scheme \<Rightarrow> failure + 'z heap_scheme" where
  "malloc_buffer_destroy (Malloc_buffer p n) h = (if p \<noteq> Null then free_ptr p h else Inr h)"
| "malloc_buffer_destroy b h = Inr h"

subsection \<open>pmem_buffer\<close>

definition pmem_buffer_default :: buffer where
  "pmem_buffer_default = Pmem_buffer Null 0"

definition pmem_buffer_new :: "ptr \<Rightarrow> size_t \<Rightarrow> buffer" where
  "pmem_buffer_new p n = Pmem_buffer p n"

text \<open>\<open>alloc\<close> sets the pointer but not the size.\<close>

fun pmem_buffer_alloc :: "buffer \<Rightarrow> size_t \<Rightarrow> 'z heap_scheme \<Rightarrow> 'z heap_scheme \<times> buffer" where
  "pmem_buffer_alloc (Pmem_buffer p old) n h = (let (h', q) = malloc (unat n) h in (h', Pmem_buffer q old))"
| "pmem_buffer_alloc b n h = (h, b)"

fun pmem_buffer_move :: "buffer \<Rightarrow> buffer \<times> buffer" where
  "pmem_buffer_move (Pmem_buffer p n) = (Pmem_buffer p n, Pmem_buffer Null 0)"
| "pmem_buffer_move b = (b, b)"

subsection \<open>string_buffer\<close>

definition string_buffer_new :: "bytes \<Rightarrow> buffer" where
  "string_buffer_new s = String_buffer s"

text \<open>
  \<open>std::string\<close> assigned from a \<open>char *\<close>: the bytes up to the first NUL; a block
  without one is read beyond its end.
\<close>

definition c_string :: "bytes \<Rightarrow> failure + bytes" where
  "c_string m = (if 0 \<in> set m then Inr (takeWhile (\<lambda>b. b \<noteq> 0) m) else Inl (Crash Out_of_bounds))"

fun string_buffer_of_malloc :: "buffer \<Rightarrow> 'z heap_scheme \<Rightarrow> failure + buffer" where
  "string_buffer_of_malloc (Malloc_buffer p n) h =
     bind_sum (block_at h p) (\<lambda>m. bind_sum (c_string m) (\<lambda>s. Inr (String_buffer s)))"
| "string_buffer_of_malloc b h = Inr b"

subsection \<open>Access through a buffer\<close>

text \<open>The memory behind \<open>c_str()\<close> of the heap buffers.\<close>

definition buffer_bytes :: "'z heap_scheme \<Rightarrow> buffer \<Rightarrow> failure + bytes" where
  "buffer_bytes h b =
     (case b of
        String_buffer s \<Rightarrow> Inr s
      | _ \<Rightarrow> (case buffer_c_str b of
               Some p \<Rightarrow> peek h p (unat (buffer_size b))
             | None \<Rightarrow> Inl (Crash Null_deref)))"

definition buffer_at :: "'z heap_scheme \<Rightarrow> buffer \<Rightarrow> nat \<Rightarrow> failure + byte" where
  "buffer_at h b i =
     (case b of
        String_buffer s \<Rightarrow> (if i < length s then Inr (s ! i) else Inl (Crash Out_of_bounds))
      | _ \<Rightarrow> (case buffer_c_str b of
               Some p \<Rightarrow> bind_sum (block_at h p)
                           (\<lambda>m. if i < length m then Inr (m ! i) else Inl (Crash Out_of_bounds))
             | None \<Rightarrow> Inl (Crash Null_deref)))"

section \<open>Facts\<close>

lemma heap_ok_malloc: "heap_ok h \<Longrightarrow> heap_ok (fst (malloc n h))"
  by (auto simp: heap_ok_def malloc_def)

lemma malloc_fresh: "heap_ok h \<Longrightarrow> snd (malloc n h) = Blk i \<Longrightarrow> h_blocks h i = None"
  by (auto simp: heap_ok_def malloc_def)

lemma block_at_malloc [simp]:
  "block_at (fst (malloc n h)) (Blk (h_next h)) = Inr (map (h_fill h (h_next h)) [0..<n])"
  by (simp add: malloc_def block_at_def)

lemma poke_malloc:
  "malloc (length bs) h = (h', p) \<Longrightarrow>
     poke h' p bs =
       Inr (h\<lparr>h_blocks := (h_blocks h)(h_next h \<mapsto> bs), h_next := Suc (h_next h)\<rparr>)"
  by (auto simp: malloc_def poke_def block_at_def mem_write_def)

lemma malloc_buffer_copy_of_eq:
  "malloc_buffer_copy_of bs h =
     Inr (h\<lparr>h_blocks := (h_blocks h)(h_next h \<mapsto> bs), h_next := Suc (h_next h)\<rparr>,
          Malloc_buffer (Blk (h_next h)) (of_nat (length bs)))"
proof -
  obtain h' p where m: "malloc (length bs) h = (h', p)" by fastforce
  then have "p = Blk (h_next h)" by (simp add: malloc_def)
  with m show ?thesis by (simp add: malloc_buffer_copy_of_def poke_malloc)
qed

lemma malloc_buffer_copy_of_bytes:
  assumes "malloc_buffer_copy_of bs h = Inr (h', b)" and "length bs < 2 ^ 64"
  shows "buffer_size b = of_nat (length bs)" and "buffer_bytes h' b = Inr bs"
  using assms
  by (auto simp: malloc_buffer_copy_of_eq buffer_bytes_def peek_def block_at_def unat_of_nat
      take_bit_nat_eq_self mem_read_def)

lemma heap_ok_copy_of: "heap_ok h \<Longrightarrow> malloc_buffer_copy_of bs h = Inr (h', b) \<Longrightarrow> heap_ok h'"
  by (auto simp: malloc_buffer_copy_of_eq heap_ok_def)

text \<open>Only a \<open>malloc_buffer\<close> owns heap memory.\<close>

lemma destroy_other [simp]:
  "malloc_buffer_destroy (Pmem_buffer p n) = Inr"
  "malloc_buffer_destroy (String_buffer bs) = Inr"
  "malloc_buffer_destroy (Mmap_buffer p n fd) = Inr"
  "malloc_buffer_destroy (Fs_mmap_buffer p n) = Inr"
  by (rule ext, simp)+

lemma malloc_buffer_destroy_cases:
  "malloc_buffer_destroy b h = Inr h' \<Longrightarrow> h' = h \<or> (\<exists>i. h' = h\<lparr>h_blocks := (h_blocks h)(i := None)\<rparr>)"
  by (cases b) (auto simp: free_ptr_def split: if_splits ptr.splits option.splits)

text \<open>Two copies of one buffer: the second destructor frees the block again.\<close>

lemma malloc_buffer_copy_destroyed_twice:
  assumes "malloc_buffer_copy_of bs h = Inr (h', b)"
  shows "bind_sum (malloc_buffer_destroy (malloc_buffer_copy b) h') (malloc_buffer_destroy b) =
    Inl (Crash Double_free)"
  using assms by (auto simp: malloc_buffer_copy_of_eq free_ptr_def)

text \<open>A moved buffer keeps the bytes, and both destructors may run.\<close>

lemma malloc_buffer_move_destroyed:
  assumes "malloc_buffer_copy_of bs h = Inr (h', b)" and "malloc_buffer_move b = (b1, b0)"
    and "heap_ok h"
  shows "buffer_bytes h' b1 = buffer_bytes h' b"
    and "bind_sum (malloc_buffer_destroy b1 h') (malloc_buffer_destroy b0) =
      Inr (h'\<lparr>h_blocks := h_blocks h\<rparr>)"
proof -
  have b: "b = Malloc_buffer (Blk (h_next h)) (of_nat (length bs))" "b1 = b" "b0 = Malloc_buffer Null 0"
    and h': "h' = h\<lparr>h_blocks := (h_blocks h)(h_next h \<mapsto> bs), h_next := Suc (h_next h)\<rparr>"
    using assms by (auto simp: malloc_buffer_copy_of_eq)
  have "(h_blocks h)(h_next h := None) = h_blocks h"
    using \<open>heap_ok h\<close> by (auto simp: heap_ok_def)
  then show "bind_sum (malloc_buffer_destroy b1 h') (malloc_buffer_destroy b0) =
      Inr (h'\<lparr>h_blocks := h_blocks h\<rparr>)"
    by (simp add: b h' free_ptr_def)
  show "buffer_bytes h' b1 = buffer_bytes h' b" by (simp add: b)
qed

text \<open>Making a \<open>string_buffer\<close> of a \<open>malloc_buffer\<close> cuts the contents at the first NUL.\<close>

lemma string_buffer_of_malloc_cut:
  assumes "malloc_buffer_copy_of bs h = Inr (h', b)"
  shows "string_buffer_of_malloc b h' =
    (if 0 \<in> set bs then Inr (String_buffer (takeWhile (\<lambda>x. x \<noteq> 0) bs)) else Inl (Crash Out_of_bounds))"
  using assms by (auto simp: malloc_buffer_copy_of_eq block_at_def c_string_def)

end
