(* ===== verification/Formatting.thy ===== *)
theory Formatting
  imports Prelude
begin

text \<open>
  util/serializeable.h: decimal printing, \<open>SizeType\<close>, \<open>Arg\<close>, and the brace formatter with its
  fixed buffer of 8192 bytes.

  A double is modelled exactly: \<open>Fin neg m e\<close> is the value m * 2^e with the sign \<open>neg\<close>;
  conversion from an integer and division round to 53 bits, ties to even, and printing
  (\<open>std::to_string\<close>, that is \<open>%f\<close>) rounds the exact value to six decimals, ties to even.
\<close>

section \<open>std::to_string on integers\<close>

definition digit_char :: "nat \<Rightarrow> char" where
  "digit_char d = char_of (48 + d)"

fun dec_nat :: "nat \<Rightarrow> string" where
  "dec_nat n = (if n < 10 then [digit_char n] else dec_nat (n div 10) @ [digit_char (n mod 10)])"

declare dec_nat.simps [simp del]

definition dec_int :: "int \<Rightarrow> string" where
  "dec_int i = (if i < 0 then CHR ''-'' # dec_nat (nat (- i)) else dec_nat (nat i))"

definition digit_val :: "char \<Rightarrow> nat" where
  "digit_val c = of_char c - 48"

definition parse_dec :: "string \<Rightarrow> nat" where
  "parse_dec s = foldl (\<lambda>n c. 10 * n + digit_val c) 0 s"

lemma digit_val_digit_char: "d < 10 \<Longrightarrow> digit_val (digit_char d) = d"
  by (simp add: digit_val_def digit_char_def)

lemma dec_nat_nonempty [simp]: "dec_nat n \<noteq> []"
  by (subst dec_nat.simps) simp

lemma parse_dec_nat: "parse_dec (dec_nat n) = n"
proof (induction n rule: dec_nat.induct)
  case (1 n)
  show ?case
  proof (cases "n < 10")
    case True
    then show ?thesis by (subst dec_nat.simps) (simp add: parse_dec_def digit_val_digit_char)
  next
    case False
    with "1.IH" have "parse_dec (dec_nat (n div 10)) = n div 10" by simp
    with False show ?thesis
      by (subst dec_nat.simps) (simp add: parse_dec_def digit_val_digit_char)
  qed
qed

lemma dec_nat_inject: "dec_nat m = dec_nat n \<longleftrightarrow> m = n"
  by (metis parse_dec_nat)

lemma length_dec_nat: "n < 10 ^ Suc k \<Longrightarrow> length (dec_nat n) \<le> Suc k"
proof (induction k arbitrary: n)
  case 0
  then show ?case by (subst dec_nat.simps) simp
next
  case (Suc k)
  show ?case
  proof (cases "n < 10")
    case True
    then show ?thesis by (subst dec_nat.simps) simp
  next
    case False
    from Suc.prems have "n div 10 < 10 ^ Suc k" by (simp add: less_mult_imp_div_less)
    with Suc.IH have "length (dec_nat (n div 10)) \<le> Suc k" by blast
    with False show ?thesis by (subst dec_nat.simps) simp
  qed
qed

section \<open>double\<close>

datatype fp = Fin bool nat int | Infinite bool | NotANumber bool

fun bitlen :: "nat \<Rightarrow> nat" where
  "bitlen n = (if n = 0 then 0 else Suc (bitlen (n div 2)))"

declare bitlen.simps [simp del]

text \<open>\<open>rne n d\<close>: the integer nearest to n/d, ties to the even one.\<close>

definition rne :: "nat \<Rightarrow> nat \<Rightarrow> nat" where
  "rne n d =
     (let k = n div d; r = n mod d
      in if 2 * r < d then k else if d < 2 * r then Suc k else if even k then k else Suc k)"

text \<open>The double nearest to p/q (q positive): 53 significant bits, exponent at least -1074.\<close>

definition fp_round :: "bool \<Rightarrow> nat \<Rightarrow> nat \<Rightarrow> fp" where
  "fp_round neg p q =
     (if p = 0 then Fin neg 0 0
      else
        let e0 = int (bitlen p) - int (bitlen q) - 53;
            e1 = (if 2 ^ 53 * q * 2 ^ nat e0 \<le> p * 2 ^ nat (- e0) then e0 + 1 else e0);
            e = max e1 (- 1074)
        in Fin neg (rne (p * 2 ^ nat (- e)) (q * 2 ^ nat e)) e)"

definition fp_of_int :: "int \<Rightarrow> fp" where
  "fp_of_int i = fp_round (i < 0) (nat \<bar>i\<bar>) 1"

text \<open>Division of a double by an unsigned integer converted to double.\<close>

fun fp_div_fp :: "fp \<Rightarrow> fp \<Rightarrow> fp" where
  "fp_div_fp (NotANumber s) _ = NotANumber s"
| "fp_div_fp _ (NotANumber s) = NotANumber s"
| "fp_div_fp (Infinite s) (Infinite t) = NotANumber True"
| "fp_div_fp (Infinite s) (Fin t m e) = Infinite (s \<noteq> t)"
| "fp_div_fp (Fin s m e) (Infinite t) = Fin (s \<noteq> t) 0 0"
| "fp_div_fp (Fin s m e) (Fin t m' e') =
     (if m' = 0 then (if m = 0 then NotANumber True else Infinite (s \<noteq> t))
      else fp_round (s \<noteq> t) (m * 2 ^ nat e * 2 ^ nat (- e')) (m' * 2 ^ nat e' * 2 ^ nat (- e)))"

text \<open>\<open>%f\<close>: six digits after the point.\<close>

definition fixed6 :: "nat \<Rightarrow> string" where
  "fixed6 v =
     (let frac = dec_nat (v mod 1000000)
      in dec_nat (v div 1000000) @ ''.'' @ replicate (6 - length frac) (CHR ''0'') @ frac)"

fun fp_to_string :: "fp \<Rightarrow> string" where
  "fp_to_string (Fin neg m e) =
     (if neg then ''-'' else '''') @ fixed6 (rne (m * 1000000 * 2 ^ nat e) (2 ^ nat (- e)))"
| "fp_to_string (Infinite neg) = (if neg then ''-inf'' else ''inf'')"
| "fp_to_string (NotANumber neg) = (if neg then ''-nan'' else ''nan'')"

section \<open>SizeType\<close>

record SizeType =
  st_num :: fp
  st_unit :: size_t

definition BYTES :: size_t where "BYTES = 1"
definition KB :: size_t where "KB = push_bit 10 1"
definition MB :: size_t where "MB = push_bit 20 1"
definition GB :: size_t where "GB = push_bit 30 1"
definition TB :: size_t where "TB = push_bit 40 1"

lemmas unit_defs = BYTES_def KB_def MB_def GB_def TB_def

definition unit_to_str :: "size_t \<Rightarrow> string" where
  "unit_to_str unit =
     (if unit = BYTES then ''BYTES''
      else if unit = KB then ''KB''
      else if unit = MB then ''MB''
      else if unit = GB then ''GB''
      else if unit = TB then ''TB''
      else '''')"

definition SizeType_default :: SizeType where
  "SizeType_default = \<lparr>st_num = Fin False 0 0, st_unit = 0\<rparr>"

text \<open>
  The constructors from int8_t to uint64_t take the integer's value; those from float and
  double take the floating value. Both divide by the unit.
\<close>

definition SizeType_of_int :: "int \<Rightarrow> size_t \<Rightarrow> SizeType" where
  "SizeType_of_int b unit = \<lparr>st_num = fp_div_fp (fp_of_int b) (fp_of_int (uint unit)), st_unit = unit\<rparr>"

definition SizeType_of_fp :: "fp \<Rightarrow> size_t \<Rightarrow> SizeType" where
  "SizeType_of_fp b unit = \<lparr>st_num = fp_div_fp b (fp_of_int (uint unit)), st_unit = unit\<rparr>"

definition SizeType_serialize :: "SizeType \<Rightarrow> string" where
  "SizeType_serialize t = fp_to_string (st_num t) @ unit_to_str (st_unit t)"

section \<open>Arg and ArgPacker\<close>

text \<open>
  The union of class \<open>Arg\<close> with its \<open>type_\<close> tag, in the order of the tags 0 to 11.
  \<open>SizeType\<close> is the only \<open>Serializeable\<close> of the repository.
\<close>

datatype Arg =
    Arg_d32 "32 word"
  | Arg_d64 "64 word"
  | Arg_d128 "64 word"
  | Arg_u32 "32 word"
  | Arg_u64 "64 word"
  | Arg_u128 "64 word"
  | Arg_f32 fp
  | Arg_f64 fp
  | Arg_f96 fp
  | Arg_str string
  | Arg_obj SizeType
  | Arg_obj_shared SizeType

definition Arg_of_cstr :: "string option \<Rightarrow> Arg" where
  "Arg_of_cstr p = (case p of Some s \<Rightarrow> Arg_str s | None \<Rightarrow> Arg_str '''')"

fun Arg_serialize :: "Arg \<Rightarrow> string" where
  "Arg_serialize (Arg_d32 w) = dec_int (sint w)"
| "Arg_serialize (Arg_d64 w) = dec_int (sint w)"
| "Arg_serialize (Arg_d128 w) = dec_int (sint w)"
| "Arg_serialize (Arg_u32 w) = dec_int (uint w)"
| "Arg_serialize (Arg_u64 w) = dec_int (uint w)"
| "Arg_serialize (Arg_u128 w) = dec_int (uint w)"
| "Arg_serialize (Arg_f32 x) = fp_to_string x"
| "Arg_serialize (Arg_f64 x) = fp_to_string x"
| "Arg_serialize (Arg_f96 x) = fp_to_string x"
| "Arg_serialize (Arg_str s) = s"
| "Arg_serialize (Arg_obj t) = SizeType_serialize t"
| "Arg_serialize (Arg_obj_shared t) = SizeType_serialize t"

text \<open>\<open>args_[pos]\<close> of a vector: undefined out of range.\<close>

definition ArgPacker_get :: "Arg list \<Rightarrow> nat \<Rightarrow> failure + Arg" where
  "ArgPacker_get args pos = (if pos < length args then Inr (args ! pos) else Inl (Crash Out_of_bounds))"

section \<open>Formatter\<close>

definition format_capacity :: nat where
  "format_capacity = 8192"

text \<open>\<open>fmt[i]\<close> of a \<open>std::string\<close>: the position one past the end reads as NUL.\<close>

definition str_at :: "string \<Rightarrow> nat \<Rightarrow> char" where
  "str_at s i = (if i < length s then s ! i else CHR 0x00)"

text \<open>
  The loop of \<open>Formatter::format\<close>: \<open>i\<close> reads the format, \<open>arg\<close> counts the arguments used,
  \<open>out\<close> holds the bytes written so far, so \<open>off\<close> is its length. Writing beyond the
  buffer is undefined.
\<close>

function format_loop :: "string \<Rightarrow> Arg list \<Rightarrow> nat \<Rightarrow> nat \<Rightarrow> string \<Rightarrow> failure + string" where
  "format_loop fmt args i arg out =
     (if i < length fmt then
        if str_at fmt i = CHR ''{'' \<and> str_at fmt (i + 1) = CHR ''}'' then
          (case ArgPacker_get args arg of
             Inl e \<Rightarrow> Inl e
           | Inr a \<Rightarrow>
               (if length out + length (Arg_serialize a) \<le> format_capacity
                then format_loop fmt args (i + 2) (arg + 1) (out @ Arg_serialize a)
                else Inl (Crash Out_of_bounds)))
        else if length out < format_capacity
        then format_loop fmt args (i + 1) arg (out @ [str_at fmt i])
        else Inl (Crash Out_of_bounds)
      else Inr out)"
  by pat_completeness auto
termination
  by (relation "measure (\<lambda>(fmt, args, i, arg, out). length fmt - i)") auto

declare format_loop.simps [simp del]

definition Formatter_format :: "string \<Rightarrow> Arg list \<Rightarrow> failure + string" where
  "Formatter_format fmt args = format_loop fmt args 0 0 []"

section \<open>What the formatter computes\<close>

text \<open>
  The reference: scan the format once, replacing each pair of braces by the next argument;
  \<open>None\<close> when an argument is missing.
\<close>

fun format_spec :: "string \<Rightarrow> Arg list \<Rightarrow> string option" where
  "format_spec [] args = Some []"
| "format_spec (c # cs) args =
     (if c = CHR ''{'' \<and> cs \<noteq> [] \<and> hd cs = CHR ''}'' then
        (case args of
           [] \<Rightarrow> None
         | a # as \<Rightarrow> map_option (append (Arg_serialize a)) (format_spec (tl cs) as))
      else map_option (Cons c) (format_spec cs args))"

declare format_spec.simps(2) [simp del]

fun placeholders :: "string \<Rightarrow> nat" where
  "placeholders [] = 0"
| "placeholders (c # cs) =
     (if c = CHR ''{'' \<and> cs \<noteq> [] \<and> hd cs = CHR ''}'' then Suc (placeholders (tl cs))
      else placeholders cs)"

declare placeholders.simps(2) [simp del]

definition within_capacity :: "string \<Rightarrow> string option \<Rightarrow> failure + string" where
  "within_capacity out r =
     (case r of
        None \<Rightarrow> Inl (Crash Out_of_bounds)
      | Some s \<Rightarrow>
          if length out + length s \<le> format_capacity then Inr (out @ s) else Inl (Crash Out_of_bounds))"

lemma within_capacity_append:
  "length out + length a \<le> format_capacity \<Longrightarrow>
     within_capacity (out @ a) r = within_capacity out (map_option (append a) r)"
  "format_capacity < length out + length a \<Longrightarrow>
     within_capacity out (map_option (append a) r) = Inl (Crash Out_of_bounds)"
  by (auto simp: within_capacity_def add.assoc split: option.splits)

lemma within_capacity_Cons:
  "length out < format_capacity \<Longrightarrow>
     within_capacity (out @ [c]) r = within_capacity out (map_option (Cons c) r)"
  "format_capacity \<le> length out \<Longrightarrow>
     within_capacity out (map_option (Cons c) r) = Inl (Crash Out_of_bounds)"
  by (auto simp: within_capacity_def split: option.splits)

lemma str_at_in [simp]: "i < length s \<Longrightarrow> str_at s i = s ! i"
  by (simp add: str_at_def)

lemma str_at_end: "length s \<le> i \<Longrightarrow> str_at s i = CHR 0x00"
  by (simp add: str_at_def)

lemma brace_pair_at:
  assumes "i < length fmt"
  shows "drop i fmt = fmt ! i # drop (i + 1) fmt"
    and "str_at fmt (i + 1) = CHR ''}'' \<longleftrightarrow> drop (i + 1) fmt \<noteq> [] \<and> hd (drop (i + 1) fmt) = CHR ''}''"
proof -
  show "drop i fmt = fmt ! i # drop (i + 1) fmt"
    using assms by (simp add: Cons_nth_drop_Suc)
  show "str_at fmt (i + 1) = CHR ''}'' \<longleftrightarrow> drop (i + 1) fmt \<noteq> [] \<and> hd (drop (i + 1) fmt) = CHR ''}''"
    by (cases "i + 1 < length fmt") (auto simp: hd_drop_conv_nth str_at_end)
qed

lemma format_loop_spec:
  assumes "length out \<le> format_capacity" and "arg \<le> length args"
  shows "format_loop fmt args i arg out =
    within_capacity out (format_spec (drop i fmt) (drop arg args))"
  using assms
proof (induction fmt args i arg out rule: format_loop.induct)
  case (1 fmt args i arg out)
  note step = format_loop.simps [of fmt args i arg out]
  show ?case
  proof (cases "i < length fmt")
    case False
    with "1.prems" show ?thesis by (simp add: step within_capacity_def)
  next
    case i: True
    note at = brace_pair_at [OF i]
    show ?thesis
    proof (cases "str_at fmt i = CHR ''{'' \<and> str_at fmt (i + 1) = CHR ''}''")
      case brace: True
      have tl: "tl (drop (i + 1) fmt) = drop (i + 2) fmt"
        by (simp add: tl_drop drop_Suc [symmetric] drop_tl [symmetric])
      have spec: "format_spec (drop i fmt) (drop arg args) =
          (case drop arg args of [] \<Rightarrow> None
           | a # as \<Rightarrow> map_option (append (Arg_serialize a)) (format_spec (drop (i + 2) fmt) as))"
        using brace i at(2) tl by (simp add: at(1) format_spec.simps(2) add_2_eq_Suc' cong: list.case_cong)
      have loop: "format_loop fmt args i arg out =
          (case ArgPacker_get args arg of Inl e \<Rightarrow> Inl e
           | Inr a \<Rightarrow>
               (if length out + length (Arg_serialize a) \<le> format_capacity
                then format_loop fmt args (i + 2) (arg + 1) (out @ Arg_serialize a)
                else Inl (Crash Out_of_bounds)))"
        by (subst step) (simp only: i brace simp_thms if_True)
      show ?thesis
      proof (cases "arg < length args")
        case False
        with spec have "format_spec (drop i fmt) (drop arg args) = None" by simp
        with False show ?thesis
          unfolding loop by (simp add: ArgPacker_get_def within_capacity_def)
      next
        case arg: True
        have da: "drop arg args = args ! arg # drop (arg + 1) args"
          using arg by (simp add: Cons_nth_drop_Suc)
        have get: "ArgPacker_get args arg = Inr (args ! arg)"
          using arg by (simp add: ArgPacker_get_def)
        have spec': "format_spec (drop i fmt) (drop arg args) =
            map_option (append (Arg_serialize (args ! arg))) (format_spec (drop (i + 2) fmt) (drop (arg + 1) args))"
          using spec by (simp add: da)
        show ?thesis
        proof (cases "length out + length (Arg_serialize (args ! arg)) \<le> format_capacity")
          case True
          with "1.IH"(1) [OF i brace get True] arg
          have "format_loop fmt args (i + 2) (arg + 1) (out @ Arg_serialize (args ! arg)) =
              within_capacity (out @ Arg_serialize (args ! arg)) (format_spec (drop (i + 2) fmt) (drop (arg + 1) args))"
            by simp
          with True show ?thesis
            unfolding loop get spec' by (simp add: within_capacity_append)
        next
          case False
          then show ?thesis
            unfolding loop get spec' by (simp add: within_capacity_append)
        qed
      qed
    next
      case plain: False
      have spec: "format_spec (drop i fmt) (drop arg args) =
          map_option (Cons (fmt ! i)) (format_spec (drop (i + 1) fmt) (drop arg args))"
        using plain i at(2) by (auto simp: at(1) format_spec.simps(2))
      have loop: "format_loop fmt args i arg out =
          (if length out < format_capacity then format_loop fmt args (i + 1) arg (out @ [fmt ! i])
           else Inl (Crash Out_of_bounds))"
        using i plain by (subst step) (auto simp only: simp_thms if_True if_False str_at_in)
      show ?thesis
      proof (cases "length out < format_capacity")
        case True
        with "1.IH"(2) [OF i plain True] "1.prems" i
        have "format_loop fmt args (i + 1) arg (out @ [fmt ! i]) =
            within_capacity (out @ [fmt ! i]) (format_spec (drop (i + 1) fmt) (drop arg args))"
          by simp
        with True show ?thesis unfolding loop spec by (simp add: within_capacity_Cons)
      next
        case False
        then show ?thesis unfolding loop spec by (simp add: within_capacity_Cons)
      qed
    qed
  qed
qed

lemma Formatter_format_spec:
  "Formatter_format fmt args = within_capacity [] (format_spec fmt args)"
  by (simp add: Formatter_format_def format_loop_spec)

lemma format_spec_defined: "(format_spec fmt args \<noteq> None) = (placeholders fmt \<le> length args)"
  by (induction fmt args rule: format_spec.induct)
    (auto simp: format_spec.simps(2) placeholders.simps(2) split: list.splits)

lemma Formatter_format_Inr_placeholders:
  "Formatter_format fmt args = Inr s \<Longrightarrow> placeholders fmt \<le> length args \<and> length s \<le> format_capacity"
  using format_spec_defined [of fmt args]
  by (auto simp: Formatter_format_spec within_capacity_def split: option.splits if_splits)

end
