(* ===== verification/Errors.thy ===== *)
theory Errors
  imports Formatting
begin

text \<open>
  util/error.h and util/errors.h: class \<open>Error\<close> with its \<open>format\<close>, the table of error
  constants, and the handler macros \<open>PMEMCPY_ERROR_HANDLE_START/END\<close>.
\<close>

section \<open>Class Error\<close>

definition Error_new :: "int \<Rightarrow> string \<Rightarrow> Error" where
  "Error_new code fmt = \<lparr>err_code = code, err_fmt = fmt, err_msg = ''''\<rparr>"

text \<open>The default constructor builds a \<open>std::string\<close> from a null pointer.\<close>

definition Error_default :: "failure + Error" where
  "Error_default = Inl (Crash Null_deref)"

definition get_code :: "Error \<Rightarrow> int" where
  "get_code e = err_code e"

definition Error_format :: "Error \<Rightarrow> Arg list \<Rightarrow> failure + Error" where
  "Error_format E args =
     (let err = Error_new (err_code E) (err_fmt E)
      in bind_sum (Formatter_format (err_fmt E) args) (\<lambda>m. Inr (err\<lparr>err_msg := m\<rparr>)))"

definition Error_print :: "Error \<Rightarrow> string" where
  "Error_print e = err_msg e @ [CHR 0x0A]"

text \<open>\<open>throw E.format(args)\<close>: the failure the enclosing operation ends with.\<close>

definition throw_error :: "Error \<Rightarrow> Arg list \<Rightarrow> failure" where
  "throw_error E args = (case Error_format E args of Inl f \<Rightarrow> f | Inr e \<Rightarrow> Throw e)"

text \<open>\<open>E.format(args);\<close> without \<open>throw\<close>: the message is built and dropped.\<close>

definition format_and_drop :: "Error \<Rightarrow> Arg list \<Rightarrow> failure + unit" where
  "format_and_drop E args = bind_sum (Error_format E args) (\<lambda>_. Inr ())"

text \<open>
  The code between the handler macros: an \<open>Error\<close> is printed and the process exits with
  its code (the low eight bits reach the parent); other exceptions leave the block.
\<close>

datatype 'a handled = Normally 'a | Exited string int | Escaped failure

fun error_handle :: "failure + 'a \<Rightarrow> 'a handled" where
  "error_handle (Inr x) = Normally x"
| "error_handle (Inl (Throw e)) = Exited (Error_print e) (get_code e mod 256)"
| "error_handle (Inl (Crash f)) = Escaped (Crash f)"
| "error_handle (Inl (Foreign_exn m)) = Escaped (Foreign_exn m)"

section \<open>The table of errors\<close>

definition FILE_NOT_FOUND :: Error where
  "FILE_NOT_FOUND = Error_new 0 ''File not found at {}''"
definition INVALID_STORAGE_TYPE :: Error where
  "INVALID_STORAGE_TYPE = Error_new 1 ''{} is not a valid storage method''"
definition INVALID_SERIALIZER_TYPE :: Error where
  "INVALID_SERIALIZER_TYPE = Error_new 2 ''{} is not a valid serializer type''"
definition INVALID_TRANSPORT_TYPE :: Error where
  "INVALID_TRANSPORT_TYPE = Error_new 3 ''{} is not a valid transport type''"

definition POSIX_PATH_NOT_DIRECTORY :: Error where
  "POSIX_PATH_NOT_DIRECTORY = Error_new 100 ''{} must be a directory for POSIX storage type to work''"
definition POSIX_READ_FAILED :: Error where
  "POSIX_READ_FAILED = Error_new 101 ''Did not complete read of {} bytes to {}/{}. Return value: {}. Error Message: {}.''"
definition POSIX_WRITE_FAILED :: Error where
  "POSIX_WRITE_FAILED = Error_new 102 ''Did not complete write of {} bytes to {}/{}. Return value: {}. Error Message: {}.''"
definition POSIX_TRUNCATE_FAILED :: Error where
  "POSIX_TRUNCATE_FAILED = Error_new 103 ''Could not truncate {}/{} to size {}. Error Message: {}.''"
definition POSIX_OPEN_FAILED :: Error where
  "POSIX_OPEN_FAILED = Error_new 104 ''Could not open {}/{}. Error Message: {}.''"
definition POSIX_MMAP_FAILED :: Error where
  "POSIX_MMAP_FAILED = Error_new 105 ''Could not mmap {} from fd {}. Error Message: {}.''"
definition POSIX_FIND_FAILED :: Error where
  "POSIX_FIND_FAILED = Error_new 106 ''Could not find {}/{}. Error Message: {}.''"

definition PMDK_HASH_POOL_TOO_SMALL :: Error where
  "PMDK_HASH_POOL_TOO_SMALL = Error_new 200 ''{} bytes is too small. {} buckets requires at least {} bytes of space.''"
definition PMDK_HASH_POOL_FAILED :: Error where
  "PMDK_HASH_POOL_FAILED = Error_new 201 ''Could not allocate pool at {} of size {} with {} buckets. Error Message: {}.''"
definition PMDK_CREATE_HEADER_FAILED :: Error where
  "PMDK_CREATE_HEADER_FAILED = Error_new 202 ''Failed to allocate header for {} of size {} with {} buckets. Error Message: {}.''"
definition PMDK_CANT_OPEN_POOL :: Error where
  "PMDK_CANT_OPEN_POOL = Error_new 204 ''Failed to open pool at {}. Error Message: {}.''"
definition PMDK_CANT_FIND_KEY :: Error where
  "PMDK_CANT_FIND_KEY = Error_new 205 ''Could not find key {} in the pool.''"
definition PMDK_CANT_ALLOCATE_STR :: Error where
  "PMDK_CANT_ALLOCATE_STR = Error_new 206 ''Could not allocate {} of data. Error Message: {}.''"
definition PMDK_CANT_ALLOCATE_OBJ :: Error where
  "PMDK_CANT_ALLOCATE_OBJ = Error_new 207 ''Could not add {} of size {} bytes to hashtable. Error Message: {}.''"
definition PMDK_LOAD_FAILED :: Error where
  "PMDK_LOAD_FAILED = Error_new 208 ''Could not load data from PMEM. Error Message: {}.''"
definition PMDK_FREE_FAILED :: Error where
  "PMDK_FREE_FAILED = Error_new 209 ''Could remove {} from PMEM. Error Message: {}.''"

lemmas error_table_defs =
  FILE_NOT_FOUND_def INVALID_STORAGE_TYPE_def INVALID_SERIALIZER_TYPE_def INVALID_TRANSPORT_TYPE_def
  POSIX_PATH_NOT_DIRECTORY_def POSIX_READ_FAILED_def POSIX_WRITE_FAILED_def POSIX_TRUNCATE_FAILED_def
  POSIX_OPEN_FAILED_def POSIX_MMAP_FAILED_def POSIX_FIND_FAILED_def PMDK_HASH_POOL_TOO_SMALL_def
  PMDK_HASH_POOL_FAILED_def PMDK_CREATE_HEADER_FAILED_def PMDK_CANT_OPEN_POOL_def
  PMDK_CANT_FIND_KEY_def PMDK_CANT_ALLOCATE_STR_def PMDK_CANT_ALLOCATE_OBJ_def PMDK_LOAD_FAILED_def
  PMDK_FREE_FAILED_def

definition error_table :: "Error list" where
  "error_table =
     [FILE_NOT_FOUND, INVALID_STORAGE_TYPE, INVALID_SERIALIZER_TYPE, INVALID_TRANSPORT_TYPE,
      POSIX_PATH_NOT_DIRECTORY, POSIX_READ_FAILED, POSIX_WRITE_FAILED, POSIX_TRUNCATE_FAILED,
      POSIX_OPEN_FAILED, POSIX_MMAP_FAILED, POSIX_FIND_FAILED, PMDK_HASH_POOL_TOO_SMALL,
      PMDK_HASH_POOL_FAILED, PMDK_CREATE_HEADER_FAILED, PMDK_CANT_OPEN_POOL, PMDK_CANT_FIND_KEY,
      PMDK_CANT_ALLOCATE_STR, PMDK_CANT_ALLOCATE_OBJ, PMDK_LOAD_FAILED, PMDK_FREE_FAILED]"

section \<open>Facts about throwing\<close>

lemma throw_error_cases:
  "throw_error E args = Crash Out_of_bounds \<or>
     (\<exists>m. throw_error E args = Throw \<lparr>err_code = err_code E, err_fmt = err_fmt E, err_msg = m\<rparr>
        \<and> format_spec (err_fmt E) args = Some m)"
  by (auto simp: throw_error_def Error_format_def Formatter_format_spec within_capacity_def
      Error_new_def bind_sum_def split: option.splits)

lemma throw_error_Throw:
  "throw_error E args = Throw e \<Longrightarrow> err_code e = err_code E"
  using throw_error_cases [of E args] by auto

lemma throw_error_not_foreign [simp]: "throw_error E args \<noteq> Foreign_exn m"
  using throw_error_cases [of E args] by auto

text \<open>The exit status tells the errors apart, and only one of them reports success.\<close>

lemma error_codes_table:
  "map err_code error_table = [0, 1, 2, 3, 100, 101, 102, 103, 104, 105, 106, 200, 201, 202, 204, 205, 206, 207, 208, 209]"
  by (simp add: error_table_def error_table_defs Error_new_def)

lemma error_table_inj:
  assumes "E \<in> set error_table" and "E' \<in> set error_table" and "err_code E = err_code E'"
  shows "E = E'"
proof -
  have "distinct (map err_code error_table)" by (simp add: error_codes_table)
  then have "inj_on err_code (set error_table)" by (simp add: distinct_map)
  then show ?thesis using assms by (auto dest: inj_onD)
qed

lemma error_table_status: "E \<in> set error_table \<Longrightarrow> err_code E mod 256 = err_code E"
proof -
  assume "E \<in> set error_table"
  then have "err_code E \<in> set (map err_code error_table)" by simp
  then show ?thesis unfolding error_codes_table by auto
qed

end
