(* ===== verification/Storage.thy ===== *)
theory Storage
  imports Buffers Errors
begin

text \<open>
  storage/storage.h: the abstract class \<open>Storage\<close> as a record of its virtual functions over
  a state that contains the C heap, and the contract the clients of a storage rely on.
  \<open>s_mem\<close> and \<open>s_set_mem\<close> are not functions of the class: they say what the memory behind
  \<open>c_str()\<close> of a buffer is in a state, and replace it.
\<close>

record 's storage =
  s_mmap :: "'s \<Rightarrow> string \<Rightarrow> size_t \<Rightarrow> ('s, unit) outcome"
  s_munmap :: "'s \<Rightarrow> ('s, unit) outcome"
  s_release :: "'s \<Rightarrow> string \<Rightarrow> ('s, unit) outcome"
  s_alloc :: "'s \<Rightarrow> string \<Rightarrow> size_t \<Rightarrow> ('s, buffer) outcome"
  s_store :: "'s \<Rightarrow> string \<Rightarrow> buffer \<Rightarrow> ('s, unit) outcome"
  s_find :: "'s \<Rightarrow> string \<Rightarrow> ('s, buffer) outcome"
  s_load :: "'s \<Rightarrow> string \<Rightarrow> ('s, buffer) outcome"
  s_free :: "'s \<Rightarrow> string \<Rightarrow> ('s, unit) outcome"
  s_mem :: "'s \<Rightarrow> buffer \<Rightarrow> failure + bytes"
  s_set_mem :: "'s \<Rightarrow> buffer \<Rightarrow> bytes \<Rightarrow> 's"

text \<open>
  A storage is, to its clients, a map from keys to contents. The contract is about ids that
  \<open>ok_id\<close> admits, and \<open>alloc\<close> and \<open>store\<close> are given for ids not in the map yet (what a
  second \<open>store\<close> under the same key does differs between the storages). \<open>backs s b key\<close>
  says that the buffer is the memory of the stored object itself. \<open>quiet\<close> says that the
  environment does not fail where the code would not notice, and does not fail reads. An
  empty value need not be found: it cannot be mapped.
\<close>

locale storage_contract =
  fixes S :: "'z heap_scheme storage"
    and wf :: "'z heap_scheme \<Rightarrow> bool"
    and ok_id :: "string \<Rightarrow> bool"
    and contents :: "'z heap_scheme \<Rightarrow> string \<Rightarrow> bytes option"
    and backs :: "'z heap_scheme \<Rightarrow> buffer \<Rightarrow> string \<Rightarrow> bool"
    and quiet :: bool
  assumes alloc_new: "quiet \<Longrightarrow> wf s \<Longrightarrow> ok_id key \<Longrightarrow> contents s key = None \<Longrightarrow> s_alloc S s key n = (s', Inr b) \<Longrightarrow>
      wf s' \<and> backs s' b key \<and> buffer_size b = n \<and> malloc_buffer_destroy b = (Inr :: 'z heap_scheme \<Rightarrow> failure + 'z heap_scheme) \<and>
      (\<exists>bs. length bs = unat n \<and> contents s' = (contents s)(key \<mapsto> bs))"
    and mem_backed: "wf s \<Longrightarrow> backs s b key \<Longrightarrow> contents s key = Some bs \<Longrightarrow> s_mem S s b = Inr bs"
    and set_mem_backed: "wf s \<Longrightarrow> backs s b key \<Longrightarrow> contents s key = Some bs \<Longrightarrow> length bs' = length bs \<Longrightarrow>
      wf (s_set_mem S s b bs') \<and> contents (s_set_mem S s b bs') = (contents s)(key \<mapsto> bs')"
    and store_new: "quiet \<Longrightarrow> wf s \<Longrightarrow> ok_id key \<Longrightarrow> contents s key = None \<Longrightarrow> s_mem S s b = Inr bs \<Longrightarrow>
      unat (buffer_size b) = length bs \<Longrightarrow> length bs < 2 ^ 63 \<Longrightarrow> s_store S s key b = (s', Inr ()) \<Longrightarrow>
      wf s' \<and> contents s' = (contents s)(key \<mapsto> bs)"
    and find_stored: "quiet \<Longrightarrow> wf s \<Longrightarrow> ok_id key \<Longrightarrow> contents s key = Some bs \<Longrightarrow> bs \<noteq> [] \<Longrightarrow>
      \<exists>s' b. s_find S s key = (s', Inr b) \<and> wf s' \<and> contents s' = contents s \<and> backs s' b key \<and>
        unat (buffer_size b) = length bs \<and> malloc_buffer_destroy b = (Inr :: 'z heap_scheme \<Rightarrow> failure + 'z heap_scheme)"
    and find_missing: "wf s \<Longrightarrow> ok_id key \<Longrightarrow> contents s key = None \<Longrightarrow> s_find S s key = (s', r) \<Longrightarrow>
      isl r \<and> contents s' = contents s"
    and load_stored: "wf s \<Longrightarrow> ok_id key \<Longrightarrow> contents s key = Some bs \<Longrightarrow> s_load S s key = (s', Inr b) \<Longrightarrow>
      wf s' \<and> contents s' = contents s \<and> s_mem S s' b = Inr bs \<and> unat (buffer_size b) = length bs"
    and load_returns: "quiet \<Longrightarrow> wf s \<Longrightarrow> ok_id key \<Longrightarrow> contents s key = Some bs \<Longrightarrow>
      \<exists>s' b s''. s_load S s key = (s', Inr b) \<and> malloc_buffer_destroy b s' = Inr s''"
    and free_stored: "wf s \<Longrightarrow> ok_id key \<Longrightarrow> contents s key = Some bs \<Longrightarrow> s_free S s key = (s', Inr ()) \<Longrightarrow>
      wf s' \<and> contents s' = (contents s)(key := None)"
    and heap_buffer: "wf s \<Longrightarrow> malloc_buffer_copy_of bs s = Inr (s', b) \<Longrightarrow> length bs < 2 ^ 64 \<Longrightarrow>
      wf s' \<and> contents s' = contents s \<and> s_mem S s' b = Inr bs \<and> unat (buffer_size b) = length bs"
    and destroy_frame: "wf s \<Longrightarrow> malloc_buffer_destroy b s = Inr s' \<Longrightarrow> wf s' \<and> contents s' = contents s"
begin

text \<open>Freeing an key makes it unknown to \<open>find\<close>.\<close>

lemma find_after_free:
  assumes "wf s" and "ok_id key" and "contents s key = Some bs"
    and "s_free S s key = (s', Inr ())" and "s_find S s' key = (s'', r)"
  shows "isl r"
  using free_stored [OF assms(1-4)] find_missing [of s' key s'' r] assms(2,5) by simp

end

end
