(* ===== verification/Posix_Os.thy ===== *)
theory Posix_Os
  imports Storage
begin

text \<open>
  The part of a POSIX system that the file storages use: directories and files addressed by
  path strings, file contents by inode, the number of open descriptors and the message of
  \<open>errno\<close>. A path is looked up as written; symbolic links and \<open>.\<close> or \<open>..\<close> components
  are not resolved. Every call can also fail for a reason outside the model (permissions,
  space, limits): these failures are the fields of \<open>os_faults\<close>, an argument of the calls.
\<close>

datatype fnode = Dir | File nat

record os = heap +
  fs_names :: "string \<Rightarrow> fnode option"
  fs_inodes :: "nat \<Rightarrow> bytes option"
  fs_next :: nat
  fs_errno :: string
  open_fds :: nat

text \<open>
  \<open>Some m\<close> makes the call fail with the message m. \<open>wr_count\<close> and \<open>rd_count\<close> are the
  return values of \<open>write\<close> and \<open>read\<close> of n bytes; \<open>fd_number\<close> the descriptor \<open>open\<close> gives.
\<close>

record os_faults =
  flt_open :: "string \<Rightarrow> string option"
  flt_mkdir :: "string \<Rightarrow> string option"
  flt_rmdir :: "string \<Rightarrow> string option"
  flt_truncate :: "nat \<Rightarrow> nat \<Rightarrow> string option"
  flt_mmap :: "nat \<Rightarrow> nat \<Rightarrow> string option"
  flt_msync :: "nat \<Rightarrow> nat \<Rightarrow> string option"
  wr_count :: "nat \<Rightarrow> int"
  rd_count :: "nat \<Rightarrow> int"
  fd_number :: "32 word"

definition no_faults :: os_faults where
  "no_faults = \<lparr>flt_open = (\<lambda>_. None), flt_mkdir = (\<lambda>_. None), flt_rmdir = (\<lambda>_. None),
     flt_truncate = (\<lambda>_ _. None), flt_mmap = (\<lambda>_ _. None), flt_msync = (\<lambda>_ _. None), wr_count = int, rd_count = int,
     fd_number = 3\<rparr>"

definition quiet_reads :: "os_faults \<Rightarrow> bool" where
  "quiet_reads F \<longleftrightarrow> (\<forall>p. flt_open F p = None) \<and> (\<forall>i n. flt_mmap F i n = None) \<and> (\<forall>n. rd_count F n = int n)"

lemma quiet_no_faults [simp]: "quiet_reads no_faults"
  by (simp add: quiet_reads_def no_faults_def)

section \<open>Paths\<close>

definition dirname :: "string \<Rightarrow> string" where
  "dirname p = rev (tl (dropWhile (\<lambda>c. c \<noteq> CHR ''/'') (rev p)))"

definition parent_exists :: "'z os_scheme \<Rightarrow> string \<Rightarrow> bool" where
  "parent_exists s p \<longleftrightarrow>
     CHR ''/'' \<notin> set p \<or> dirname p = [] \<or> fs_names s (dirname p) = Some Dir"

definition fs_exists :: "'z os_scheme \<Rightarrow> string \<Rightarrow> bool" where
  "fs_exists s p \<longleftrightarrow> fs_names s p \<noteq> None"

definition fs_is_directory :: "'z os_scheme \<Rightarrow> string \<Rightarrow> bool" where
  "fs_is_directory s p \<longleftrightarrow> fs_names s p = Some Dir"

lemma dirname_join [simp]: "CHR ''/'' \<notin> set key \<Longrightarrow> dirname (pre @ CHR ''/'' # key) = pre"
proof -
  assume "CHR ''/'' \<notin> set key"
  then have "dropWhile (\<lambda>c. c \<noteq> CHR ''/'') (rev key @ CHR ''/'' # rev pre) = CHR ''/'' # rev pre"
    by (subst dropWhile_append2) auto
  then show ?thesis by (simp add: dirname_def)
qed

section \<open>System calls\<close>

definition fail_with :: "string \<Rightarrow> 'z os_scheme \<Rightarrow> 'z os_scheme" where
  "fail_with m s = s\<lparr>fs_errno := m\<rparr>"

text \<open>
  \<open>open\<close>: every caller asks for write access or for creation, so a directory is refused.
  The result is the inode the new descriptor is for.
\<close>

definition os_open :: "os_faults \<Rightarrow> string \<Rightarrow> bool \<Rightarrow> 'z os_scheme \<Rightarrow> 'z os_scheme \<times> nat option" where
  "os_open F path creat s =
     (case flt_open F path of
        Some m \<Rightarrow> (fail_with m s, None)
      | None \<Rightarrow>
          (case fs_names s path of
             Some (File ino) \<Rightarrow> (s\<lparr>open_fds := Suc (open_fds s)\<rparr>, Some ino)
           | Some Dir \<Rightarrow> (fail_with ''Is a directory'' s, None)
           | None \<Rightarrow>
               if creat \<and> parent_exists s path then
                 (s\<lparr>fs_names := (fs_names s)(path := Some (File (fs_next s))),
                    fs_inodes := (fs_inodes s)(fs_next s := Some []),
                    fs_next := Suc (fs_next s),
                    open_fds := Suc (open_fds s)\<rparr>, Some (fs_next s))
               else (fail_with ''No such file or directory'' s, None)))"

definition os_close :: "'z os_scheme \<Rightarrow> 'z os_scheme" where
  "os_close s = s\<lparr>open_fds := open_fds s - 1\<rparr>"

definition file_bytes :: "'z os_scheme \<Rightarrow> nat \<Rightarrow> bytes" where
  "file_bytes s ino = (case fs_inodes s ino of Some bs \<Rightarrow> bs | None \<Rightarrow> [])"

text \<open>\<open>ftruncate\<close> takes a signed offset, so sizes from 2^63 on are invalid.\<close>

definition os_ftruncate :: "os_faults \<Rightarrow> nat \<Rightarrow> nat \<Rightarrow> 'z os_scheme \<Rightarrow> 'z os_scheme \<times> bool" where
  "os_ftruncate F ino n s =
     (if 2 ^ 63 \<le> n then (fail_with ''Invalid argument'' s, False)
      else case flt_truncate F ino n of
        Some m \<Rightarrow> (fail_with m s, False)
      | None \<Rightarrow> (s\<lparr>fs_inodes := (fs_inodes s)(ino := Some (resized n (file_bytes s ino)))\<rparr>, True))"

definition os_mmap :: "os_faults \<Rightarrow> nat \<Rightarrow> nat \<Rightarrow> 'z os_scheme \<Rightarrow> 'z os_scheme \<times> ptr" where
  "os_mmap F ino n s =
     (if n = 0 then (fail_with ''Invalid argument'' s, Map_failed)
      else case flt_mmap F ino n of
        Some m \<Rightarrow> (fail_with m s, Map_failed)
      | None \<Rightarrow> (s, Mapping ino n))"

text \<open>
  \<open>msync\<close> and \<open>munmap\<close>: what was written through a mapping is in the file already, so neither
  changes a file; that a mapping is gone is not part of the state.
\<close>

definition os_msync :: "os_faults \<Rightarrow> ptr \<Rightarrow> nat \<Rightarrow> 'z os_scheme \<Rightarrow> 'z os_scheme \<times> int" where
  "os_msync F p n s =
     (case p of
        Mapping ino len \<Rightarrow> (case flt_msync F ino n of Some m \<Rightarrow> (fail_with m s, -1) | None \<Rightarrow> (s, 0))
      | _ \<Rightarrow> (fail_with ''Invalid argument'' s, -1))"

definition os_munmap :: "ptr \<Rightarrow> nat \<Rightarrow> 'z os_scheme \<Rightarrow> 'z os_scheme \<times> int" where
  "os_munmap p n s =
     (case p of
        Mapping ino len \<Rightarrow> if n = 0 then (fail_with ''Invalid argument'' s, -1) else (s, 0)
      | _ \<Rightarrow> (fail_with ''Invalid argument'' s, -1))"

text \<open>\<open>write\<close> at offset 0 of a descriptor just opened; the return value is -1 on failure.\<close>

definition os_write :: "os_faults \<Rightarrow> nat \<Rightarrow> bytes \<Rightarrow> 'z os_scheme \<Rightarrow> 'z os_scheme \<times> int" where
  "os_write F ino bs s =
     (let ret = (if 2 ^ 63 \<le> length bs then -1 else min (wr_count F (length bs)) (int (length bs)));
          k = nat ret
      in if ret < 0 then (fail_with ''write'' s, -1)
         else (s\<lparr>fs_inodes := (fs_inodes s)(ino := Some (take k bs @ drop k (file_bytes s ino)))\<rparr>, ret))"

definition os_read :: "os_faults \<Rightarrow> nat \<Rightarrow> nat \<Rightarrow> 'z os_scheme \<Rightarrow> 'z os_scheme \<times> int \<times> bytes" where
  "os_read F ino n s =
     (let ret = min (rd_count F n) (int (min n (length (file_bytes s ino))))
      in if ret < 0 then (fail_with ''read'' s, -1, []) else (s, ret, take (nat ret) (file_bytes s ino)))"

definition os_mkdir :: "os_faults \<Rightarrow> string \<Rightarrow> 'z os_scheme \<Rightarrow> 'z os_scheme \<times> bool" where
  "os_mkdir F path s =
     (case flt_mkdir F path of
        Some m \<Rightarrow> (fail_with m s, False)
      | None \<Rightarrow>
          if fs_exists s path then (fail_with ''File exists'' s, False)
          else if path = [] \<or> \<not> parent_exists s path then (fail_with ''No such file or directory'' s, False)
          else (s\<lparr>fs_names := (fs_names s)(path := Some Dir)\<rparr>, True))"

text \<open>\<open>remove\<close>: unlinks a file, removes a directory that \<open>rmdir\<close> accepts.\<close>

definition os_remove :: "os_faults \<Rightarrow> string \<Rightarrow> 'z os_scheme \<Rightarrow> 'z os_scheme \<times> bool" where
  "os_remove F path s =
     (case fs_names s path of
        None \<Rightarrow> (fail_with ''No such file or directory'' s, False)
      | Some (File ino) \<Rightarrow> (s\<lparr>fs_names := (fs_names s)(path := None)\<rparr>, True)
      | Some Dir \<Rightarrow>
          (case flt_rmdir F path of
             Some m \<Rightarrow> (fail_with m s, False)
           | None \<Rightarrow> (s\<lparr>fs_names := (fs_names s)(path := None)\<rparr>, True)))"

definition os_file_size :: "'z os_scheme \<Rightarrow> string \<Rightarrow> nat" where
  "os_file_size s path =
     (case fs_names s path of Some (File ino) \<Rightarrow> length (file_bytes s ino) | _ \<Rightarrow> 0)"

section \<open>Memory behind a buffer\<close>

text \<open>
  A mapping is the file itself. Where the file has become shorter than the mapping, access
  is a bus error.
\<close>

definition os_mem :: "'z os_scheme \<Rightarrow> buffer \<Rightarrow> failure + bytes" where
  "os_mem s b =
     (if buffer_size b = 0 then Inr []
      else case buffer_c_str b of
        Some (Mapping ino n) \<Rightarrow>
          (if n \<le> length (file_bytes s ino) then Inr (take n (file_bytes s ino)) else Inl (Crash Bus_error))
      | _ \<Rightarrow> buffer_bytes s b)"

definition os_set_mem :: "'z os_scheme \<Rightarrow> buffer \<Rightarrow> bytes \<Rightarrow> 'z os_scheme" where
  "os_set_mem s b bs =
     (if buffer_size b = 0 then s
      else case buffer_c_str b of
        Some (Mapping ino n) \<Rightarrow>
          s\<lparr>fs_inodes := (fs_inodes s)(ino := Some (bs @ drop (length bs) (file_bytes s ino)))\<rparr>
      | Some (Blk i) \<Rightarrow> s\<lparr>h_blocks := (h_blocks s)(i \<mapsto> bs)\<rparr>
      | _ \<Rightarrow> s)"

lemma os_mem_copy_of:
  assumes "malloc_buffer_copy_of bs s = Inr (s', b)" and "length bs < 2 ^ 64"
  shows "os_mem s' b = Inr bs" and "unat (buffer_size b) = length bs"
proof -
  have b: "b = Malloc_buffer (Blk (h_next s)) (of_nat (length bs))"
    using assms(1) by (simp add: malloc_buffer_copy_of_eq)
  show n: "unat (buffer_size b) = length bs" using assms(2) by (simp add: b)
  show "os_mem s' b = Inr bs"
    using malloc_buffer_copy_of_bytes [OF assms] n by (auto simp: os_mem_def b)
qed

section \<open>Consistency of names and inodes\<close>

definition os_ok :: "'z os_scheme \<Rightarrow> bool" where
  "os_ok s \<longleftrightarrow>
     (\<forall>p i. fs_names s p = Some (File i) \<longrightarrow>
        i < fs_next s \<and> (\<exists>bs. fs_inodes s i = Some bs \<and> length bs < 2 ^ 63)) \<and>
     (\<forall>p q i. fs_names s p = Some (File i) \<longrightarrow> fs_names s q = Some (File i) \<longrightarrow> p = q) \<and>
     (\<forall>i. fs_next s \<le> i \<longrightarrow> fs_inodes s i = None) \<and>
     heap_ok s"

lemma os_okD:
  assumes "os_ok s" and "fs_names s p = Some (File i)"
  shows "i < fs_next s" and "\<exists>bs. fs_inodes s i = Some bs \<and> length bs < 2 ^ 63"
    and "fs_names s q = Some (File i) \<Longrightarrow> q = p"
  using assms unfolding os_ok_def by blast+

lemma os_okI:
  assumes "\<And>p i. fs_names s p = Some (File i) \<Longrightarrow> i < fs_next s"
    and "\<And>p i. fs_names s p = Some (File i) \<Longrightarrow> \<exists>bs. fs_inodes s i = Some bs \<and> length bs < 2 ^ 63"
    and "\<And>p q i. fs_names s p = Some (File i) \<Longrightarrow> fs_names s q = Some (File i) \<Longrightarrow> p = q"
    and "\<And>i. fs_next s \<le> i \<Longrightarrow> fs_inodes s i = None"
    and "heap_ok s"
  shows "os_ok s"
  using assms unfolding os_ok_def by blast

lemma os_ok_fresh: "os_ok s \<Longrightarrow> fs_next s \<le> i \<Longrightarrow> fs_inodes s i = None"
  by (simp add: os_ok_def)

lemma os_ok_inode_upd:
  assumes "os_ok s" and "length bs < 2 ^ 63" and "ino < fs_next s"
  shows "os_ok (s\<lparr>fs_inodes := (fs_inodes s)(ino := Some bs)\<rparr>)"
proof (rule os_okI)
  let ?s = "s\<lparr>fs_inodes := (fs_inodes s)(ino := Some bs)\<rparr>"
  fix p q i
  assume "fs_names ?s p = Some (File i)"
  then have n: "fs_names s p = Some (File i)" by simp
  show "i < fs_next ?s" using os_okD(1) [OF assms(1) n] by simp
  show "\<exists>bs. fs_inodes ?s i = Some bs \<and> length bs < 2 ^ 63"
    using os_okD(2) [OF assms(1) n] assms(2) by (cases "i = ino") auto
  show "fs_names ?s q = Some (File i) \<Longrightarrow> p = q"
    using os_okD(3) [OF assms(1) n, of q] by simp
next
  show "fs_inodes (s\<lparr>fs_inodes := (fs_inodes s)(ino := Some bs)\<rparr>) i = None"
    if "fs_next (s\<lparr>fs_inodes := (fs_inodes s)(ino := Some bs)\<rparr>) \<le> i" for i
    using that assms(3) os_ok_fresh [OF assms(1), of i] by simp
next
  show "heap_ok (s\<lparr>fs_inodes := (fs_inodes s)(ino := Some bs)\<rparr>)"
    using assms(1) by (simp add: os_ok_def heap_ok_def)
qed

text \<open>A new name for a new inode.\<close>

lemma os_ok_create:
  assumes "os_ok s" and "fs_names s p = None"
    and names: "fs_names s' = (fs_names s)(p := Some (File (fs_next s)))"
    and inodes: "fs_inodes s' = (fs_inodes s)(fs_next s := Some bs)"
    and fnext: "fs_next s' = Suc (fs_next s)" and "heap_ok s'" and "length bs < 2 ^ 63"
  shows "os_ok s'"
proof (rule os_okI)
  have below: "i < fs_next s" if "fs_names s q = Some (File i)" for q i
    using os_okD(1) [OF assms(1) that] .
  fix r q i
  assume r: "fs_names s' r = Some (File i)"
  show "i < fs_next s'" using r below by (auto simp: names fnext less_Suc_eq split: if_splits)
  show "\<exists>bs. fs_inodes s' i = Some bs \<and> length bs < 2 ^ 63"
    using r below [of r i] os_okD(2) [OF assms(1), of r i] assms(7)
    by (cases "r = p") (auto simp: names inodes)
  show "r = q" if "fs_names s' q = Some (File i)"
    using r that below [of r i] below [of q i] os_okD(3) [OF assms(1), of r i q]
    by (auto simp: names split: if_splits)
next
  show "fs_inodes s' i = None" if "fs_next s' \<le> i" for i
    using that os_ok_fresh [OF assms(1), of i] by (simp add: inodes fnext)
qed (rule assms(6))

text \<open>Names only disappear.\<close>

lemma os_ok_unlink:
  assumes "os_ok s" and names: "fs_names s' = (fs_names s)(p := None)"
    and inodes: "fs_inodes s' = fs_inodes s" and fnext: "fs_next s' = fs_next s" and "heap_ok s'"
  shows "os_ok s'"
proof (rule os_okI)
  fix r q i
  assume "fs_names s' r = Some (File i)"
  then have n: "fs_names s r = Some (File i)" by (auto simp: names split: if_splits)
  show "i < fs_next s'" using os_okD(1) [OF assms(1) n] by (simp add: fnext)
  show "\<exists>bs. fs_inodes s' i = Some bs \<and> length bs < 2 ^ 63" using os_okD(2) [OF assms(1) n] by (simp add: inodes)
  show "r = q" if "fs_names s' q = Some (File i)"
    using that os_okD(3) [OF assms(1) n, of q] by (auto simp: names split: if_splits)
next
  show "fs_inodes s' i = None" if "fs_next s' \<le> i" for i
    using that os_ok_fresh [OF assms(1), of i] by (simp add: inodes fnext)
qed (rule assms(5))

lemma os_ok_heap: "os_ok s \<Longrightarrow> heap_ok s"
  by (simp add: os_ok_def)

lemma fail_with_sel [simp]:
  "fs_names (fail_with m s) = fs_names s" "fs_inodes (fail_with m s) = fs_inodes s"
  "open_fds (fail_with m s) = open_fds s" "fs_next (fail_with m s) = fs_next s"
  "h_blocks (fail_with m s) = h_blocks s" "h_next (fail_with m s) = h_next s"
  by (simp_all add: fail_with_def)

lemma os_close_sel [simp]:
  "fs_names (os_close s) = fs_names s" "fs_inodes (os_close s) = fs_inodes s"
  "open_fds (os_close s) = open_fds s - 1" "fs_next (os_close s) = fs_next s"
  "h_blocks (os_close s) = h_blocks s" "h_next (os_close s) = h_next s"
  by (simp_all add: os_close_def)

text \<open>What consistency depends on.\<close>

lemma os_ok_cong:
  "fs_names s' = fs_names s \<Longrightarrow> fs_inodes s' = fs_inodes s \<Longrightarrow> fs_next s' = fs_next s \<Longrightarrow>
     heap_ok s' \<Longrightarrow> os_ok s \<Longrightarrow> os_ok s'"
  by (simp add: os_ok_def)

lemma heap_ok_cong: "h_blocks s' = h_blocks s \<Longrightarrow> h_next s' = h_next s \<Longrightarrow> heap_ok s \<Longrightarrow> heap_ok s'"
  by (simp add: heap_ok_def)

lemma file_bytes_upd [simp]:
  "file_bytes (s\<lparr>fs_inodes := (fs_inodes s)(i := Some bs)\<rparr>) j = (if j = i then bs else file_bytes s j)"
  by (simp add: file_bytes_def)

end
