(* ===== verification/Posix.thy ===== *)
theory Posix
  imports Posix_Os
begin

text \<open>
  storage/posix.h: the mapped buffer and \<open>PosixStorage\<close>, one file per key in the directory
  given to \<open>mmap\<close>. The lemmas say what each operation does to the map from keys to
  contents, and that the class meets the contract of a storage.
\<close>

record file_storage = os +
  path_prefix :: string

definition key_path :: "'z file_storage_scheme \<Rightarrow> string \<Rightarrow> string" where
  "key_path s key = path_prefix s @ ''/'' @ key"

definition mb_arg :: "size_t \<Rightarrow> Arg" where
  "mb_arg n = Arg_obj_shared (SizeType_of_int (uint n) MB)"

section \<open>mmap_buffer\<close>

definition mmap_buffer_alloc :: "os_faults \<Rightarrow> nat \<Rightarrow> size_t \<Rightarrow> 'z file_storage_scheme \<Rightarrow> ('z file_storage_scheme, buffer) outcome" where
  "mmap_buffer_alloc F ino n s =
     (case os_mmap F ino (unat n) s of
        (s1, Map_failed) \<Rightarrow>
          (s1, Inl (throw_error POSIX_MMAP_FAILED [mb_arg n, Arg_d32 (fd_number F), Arg_str (fs_errno s1)]))
      | (s1, p) \<Rightarrow> (s1, Inr (Mmap_buffer p n (sint (fd_number F)))))"

text \<open>\<open>load\<close>: the size is the end of the file; the result of \<open>mmap\<close> is not checked.\<close>

definition mmap_buffer_load :: "os_faults \<Rightarrow> nat \<Rightarrow> 'z file_storage_scheme \<Rightarrow> 'z file_storage_scheme \<times> buffer" where
  "mmap_buffer_load F ino s =
     (let n = length (file_bytes s ino)
      in case os_mmap F ino n s of (s1, p) \<Rightarrow> (s1, Mmap_buffer p (of_nat n) (sint (fd_number F))))"

fun mmap_buffer_copy :: "buffer \<Rightarrow> buffer" where
  "mmap_buffer_copy (Mmap_buffer p n fd) = Mmap_buffer p n fd"
| "mmap_buffer_copy b = b"

fun mmap_buffer_move :: "buffer \<Rightarrow> buffer \<times> buffer" where
  "mmap_buffer_move (Mmap_buffer p n fd) = (Mmap_buffer p n fd, Mmap_buffer Null 0 fd)"
| "mmap_buffer_move b = (b, b)"

text \<open>The destructor: \<open>_msync\<close> ends the process when it fails.\<close>

definition is_mapped :: "ptr \<Rightarrow> bool" where
  "is_mapped p \<longleftrightarrow> p \<noteq> Null \<and> p \<noteq> Map_failed"

fun mmap_buffer_msync :: "os_faults \<Rightarrow> buffer \<Rightarrow> 'z file_storage_scheme \<Rightarrow> 'z file_storage_scheme handled" where
  "mmap_buffer_msync F (Mmap_buffer p n fd) s =
     (if is_mapped p then
        (case os_msync F p (unat n) s of
           (s1, ret) \<Rightarrow> if ret < 0 then Exited (''Yep, it failed..'' @ [CHR 0x0A]) 1 else Normally s1)
      else Normally s)"
| "mmap_buffer_msync F b s = Normally s"

fun mmap_buffer_destroy :: "os_faults \<Rightarrow> buffer \<Rightarrow> 'z file_storage_scheme \<Rightarrow> 'z file_storage_scheme handled" where
  "mmap_buffer_destroy F (Mmap_buffer p n fd) s =
     (if is_mapped p then
        (case mmap_buffer_msync F (Mmap_buffer p n fd) s of
           Normally s1 \<Rightarrow> Normally (fst (os_munmap p (unat n) s1))
         | r \<Rightarrow> r)
      else Normally s)"
| "mmap_buffer_destroy F b s = Normally s"

section \<open>PosixStorage\<close>

definition Posix_mmap :: "os_faults \<Rightarrow> 'z file_storage_scheme \<Rightarrow> string \<Rightarrow> size_t \<Rightarrow> ('z file_storage_scheme, unit) outcome" where
  "Posix_mmap F s path n =
     (let s1 = (if fs_exists s path then s else fst (os_mkdir F path s))
      in if fs_is_directory s1 path then (s1\<lparr>path_prefix := path\<rparr>, Inr ())
         else (s1, Inl (throw_error POSIX_PATH_NOT_DIRECTORY [Arg_str path])))"

definition Posix_munmap :: "'z file_storage_scheme \<Rightarrow> ('z file_storage_scheme, unit) outcome" where
  "Posix_munmap s = (s, Inr ())"

definition Posix_release :: "'z file_storage_scheme \<Rightarrow> string \<Rightarrow> ('z file_storage_scheme, unit) outcome" where
  "Posix_release s path = (s, Inr ())"

definition Posix_alloc :: "os_faults \<Rightarrow> 'z file_storage_scheme \<Rightarrow> string \<Rightarrow> size_t \<Rightarrow> ('z file_storage_scheme, buffer) outcome" where
  "Posix_alloc F s key n =
     (case os_open F (key_path s key) True s of
        (s1, None) \<Rightarrow>
          (s1, Inl (throw_error POSIX_WRITE_FAILED
             [Arg_d32 (-1), Arg_str (path_prefix s), Arg_str key, Arg_d32 (-1), Arg_str (fs_errno s1)]))
      | (s1, Some ino) \<Rightarrow>
          (case os_ftruncate F ino (unat n) s1 of
             (s2, False) \<Rightarrow>
               (s2, Inl (throw_error POSIX_TRUNCATE_FAILED
                  [Arg_u64 n, Arg_str (path_prefix s), Arg_str key, Arg_str (fs_errno s2)]))
           | (s2, True) \<Rightarrow> bind_out (mmap_buffer_alloc F ino n s2) (\<lambda>s3 b. (os_close s3, Inr b))))"

text \<open>\<open>store\<close>: the file is opened for writing and created, not truncated.\<close>

definition Posix_store :: "os_faults \<Rightarrow> 'z file_storage_scheme \<Rightarrow> string \<Rightarrow> buffer \<Rightarrow> ('z file_storage_scheme, unit) outcome" where
  "Posix_store F s key src =
     (case os_open F (key_path s key) True s of
        (s1, None) \<Rightarrow>
          (s1, Inl (throw_error POSIX_OPEN_FAILED
             [Arg_d32 (-1), Arg_str (path_prefix s), Arg_str key, Arg_str (fs_errno s1)]))
      | (s1, Some ino) \<Rightarrow>
          (case os_mem s1 src of
             Inl e \<Rightarrow> (s1, Inl e)
           | Inr bs \<Rightarrow>
               (case os_write F ino (take (unat (buffer_size src)) bs) s1 of
                  (s2, ret) \<Rightarrow>
                    if buffer_size src \<noteq> word_of_int ret then
                      (os_close s2, Inl (throw_error POSIX_WRITE_FAILED
                         [Arg_u64 (buffer_size src), Arg_str (path_prefix s), Arg_str key,
                          Arg_u64 (word_of_int ret), Arg_str (fs_errno s2)]))
                    else (os_close s2, Inr ()))))"

definition Posix_find :: "os_faults \<Rightarrow> 'z file_storage_scheme \<Rightarrow> string \<Rightarrow> ('z file_storage_scheme, buffer) outcome" where
  "Posix_find F s key =
     (case os_open F (key_path s key) False s of
        (s1, None) \<Rightarrow>
          (s1, Inl (throw_error POSIX_FIND_FAILED
             [Arg_str (path_prefix s), Arg_str key, Arg_str (fs_errno s1)]))
      | (s1, Some ino) \<Rightarrow> (case mmap_buffer_load F ino s1 of (s2, b) \<Rightarrow> (os_close s2, Inr b)))"

text \<open>
  \<open>load\<close>: opened for reading and created; the bytes are read into a block that the new
  \<open>malloc_buffer\<close> copies.
\<close>

definition Posix_load :: "os_faults \<Rightarrow> 'z file_storage_scheme \<Rightarrow> string \<Rightarrow> ('z file_storage_scheme, buffer) outcome" where
  "Posix_load F s key =
     (case os_open F (key_path s key) True s of
        (s1, None) \<Rightarrow>
          (s1, Inl (throw_error POSIX_READ_FAILED
             [Arg_d32 (-1), Arg_str (path_prefix s), Arg_str key, Arg_d32 (-1), Arg_str (fs_errno s1)]))
      | (s1, Some ino) \<Rightarrow>
          (let len = os_file_size s1 (key_path s key)
           in case malloc len s1 of (s2, p) \<Rightarrow>
             (case os_read F ino len s2 of (s3, ret, bs) \<Rightarrow>
                if (of_nat len :: size_t) \<noteq> word_of_int ret then
                  (os_close s3, Inl (throw_error POSIX_READ_FAILED
                     [Arg_u64 (of_nat len), Arg_str (path_prefix s), Arg_str key,
                      Arg_u64 (word_of_int ret), Arg_str (fs_errno s3)]))
                else
                  (case bind_sum (poke s3 p bs) (\<lambda>s4. bind_sum (peek s4 p len) (\<lambda>c.
                          malloc_buffer_copy_of c (os_close s4))) of
                     Inl e \<Rightarrow> (s3, Inl e)
                   | Inr (s5, b) \<Rightarrow> (s5, Inr b)))))"

definition Posix_free :: "os_faults \<Rightarrow> 'z file_storage_scheme \<Rightarrow> string \<Rightarrow> ('z file_storage_scheme, unit) outcome" where
  "Posix_free F s key = (fst (os_remove F (key_path s key) s), Inr ())"

definition PosixStorage :: "os_faults \<Rightarrow> 'z file_storage_scheme storage" where
  "PosixStorage F =
     \<lparr>s_mmap = Posix_mmap F, s_munmap = Posix_munmap, s_release = Posix_release,
      s_alloc = Posix_alloc F, s_store = Posix_store F, s_find = Posix_find F,
      s_load = Posix_load F, s_free = Posix_free F, s_mem = os_mem, s_set_mem = os_set_mem\<rparr>"

lemma PosixStorage_sel [simp]:
  "s_mmap (PosixStorage F) = Posix_mmap F" "s_munmap (PosixStorage F) = Posix_munmap"
  "s_release (PosixStorage F) = Posix_release" "s_alloc (PosixStorage F) = Posix_alloc F"
  "s_store (PosixStorage F) = Posix_store F" "s_find (PosixStorage F) = Posix_find F"
  "s_load (PosixStorage F) = Posix_load F" "s_free (PosixStorage F) = Posix_free F"
  "s_mem (PosixStorage F) = os_mem" "s_set_mem (PosixStorage F) = os_set_mem"
  by (simp_all add: PosixStorage_def)

section \<open>Keys and contents\<close>

text \<open>A key that names a file of the directory itself.\<close>

definition file_key :: "string \<Rightarrow> bool" where
  "file_key key \<longleftrightarrow>
     key \<noteq> [] \<and> key \<noteq> ''.'' \<and> key \<noteq> ''..'' \<and> CHR ''/'' \<notin> set key \<and> CHR 0x00 \<notin> set key"

definition file_contents :: "'z file_storage_scheme \<Rightarrow> string \<Rightarrow> bytes option" where
  "file_contents s key =
     (case fs_names s (key_path s key) of Some (File ino) \<Rightarrow> fs_inodes s ino | _ \<Rightarrow> None)"

definition files_ok :: "'z file_storage_scheme \<Rightarrow> bool" where
  "files_ok s \<longleftrightarrow> os_ok s \<and> (path_prefix s = [] \<or> fs_names s (path_prefix s) = Some Dir)"

text \<open>The buffer's pointer is the mapping of the key's file over its whole length.\<close>

definition mapped_on :: "'z file_storage_scheme \<Rightarrow> buffer \<Rightarrow> string \<Rightarrow> bool" where
  "mapped_on s b key \<longleftrightarrow>
     (\<exists>ino. fs_names s (key_path s key) = Some (File ino) \<and>
        unat (buffer_size b) = length (file_bytes s ino) \<and>
        (buffer_size b = 0 \<or> buffer_c_str b = Some (Mapping ino (length (file_bytes s ino)))))"

lemma key_path_inject [simp]: "key_path s k = key_path s k' \<longleftrightarrow> k = k'"
  by (simp add: key_path_def)

lemma key_path_cong: "path_prefix s' = path_prefix s \<Longrightarrow> key_path s' = key_path s"
  by (simp add: key_path_def fun_eq_iff)

lemma parent_exists_key: "files_ok s \<Longrightarrow> file_key key \<Longrightarrow> parent_exists s (key_path s key)"
  by (auto simp: parent_exists_def key_path_def files_ok_def file_key_def)

lemma key_path_neq_prefix [simp]: "key_path s key \<noteq> path_prefix s" "path_prefix s \<noteq> key_path s key"
  by (auto simp: key_path_def)

lemma fail_with_prefix [simp]: "path_prefix (fail_with m s) = path_prefix s"
  by (simp add: fail_with_def)

lemma os_close_prefix [simp]: "path_prefix (os_close s) = path_prefix s"
  by (simp add: os_close_def)

text \<open>What contents and consistency depend on.\<close>

lemma file_contents_cong:
  "fs_names s' = fs_names s \<Longrightarrow> fs_inodes s' = fs_inodes s \<Longrightarrow> path_prefix s' = path_prefix s \<Longrightarrow>
     file_contents s' = file_contents s"
  by (rule ext) (auto simp: file_contents_def key_path_def split: option.splits fnode.splits)

lemma files_ok_cong:
  "fs_names s' = fs_names s \<Longrightarrow> fs_inodes s' = fs_inodes s \<Longrightarrow> path_prefix s' = path_prefix s \<Longrightarrow>
     fs_next s' = fs_next s \<Longrightarrow> heap_ok s' \<Longrightarrow> files_ok s \<Longrightarrow> files_ok s'"
  by (auto simp: files_ok_def os_ok_def)

lemma file_contents_Some:
  "files_ok s \<Longrightarrow> file_contents s key = Some bs \<longleftrightarrow>
     (\<exists>ino. fs_names s (key_path s key) = Some (File ino) \<and> fs_inodes s ino = Some bs)"
  by (auto simp: file_contents_def split: option.splits fnode.splits)

lemma file_contents_None:
  "files_ok s \<Longrightarrow> file_contents s key = None \<longleftrightarrow>
     fs_names s (key_path s key) = None \<or> fs_names s (key_path s key) = Some Dir"
  by (auto simp: file_contents_def files_ok_def split: option.splits fnode.splits dest: os_okD(2))

text \<open>Replacing the contents of a key's file changes that key only.\<close>

lemma key_of_inode:
  "files_ok s \<Longrightarrow> fs_names s (key_path s key) = Some (File ino) \<Longrightarrow>
     fs_names s (key_path s k) = Some (File ino) \<longleftrightarrow> k = key"
  by (auto simp: files_ok_def dest: os_okD(3))

lemma file_contents_inode_upd:
  assumes "files_ok s" and "fs_names s (key_path s key) = Some (File ino)"
    and "fs_names s' = fs_names s" and "fs_inodes s' = (fs_inodes s)(ino := Some bs)"
    and "path_prefix s' = path_prefix s"
  shows "file_contents s' = (file_contents s)(key \<mapsto> bs)"
proof
  fix k
  have path: "key_path s' = key_path s" by (rule key_path_cong) (rule assms(5))
  show "file_contents s' k = ((file_contents s)(key \<mapsto> bs)) k"
  proof (cases "k = key")
    case True
    then show ?thesis using assms(2) by (simp add: file_contents_def path assms(3,4))
  next
    case False
    then have "fs_names s (key_path s k) \<noteq> Some (File ino)"
      using key_of_inode [OF assms(1,2)] by blast
    with False show ?thesis
      by (auto simp: file_contents_def path assms(3,4) split: option.splits fnode.splits)
  qed
qed

lemma files_ok_inode_upd:
  assumes "files_ok s" and "fs_names s p = Some (File ino)" and "length bs < 2 ^ 63"
    and "fs_names s' = fs_names s"
    and "fs_inodes s' = (fs_inodes s)(ino := Some bs)" and "path_prefix s' = path_prefix s"
    and "fs_next s' = fs_next s" and "heap_ok s'"
  shows "files_ok s'"
proof -
  have "os_ok (s\<lparr>fs_inodes := (fs_inodes s)(ino := Some bs)\<rparr>)"
    using assms(1-3) by (intro os_ok_inode_upd) (auto simp: files_ok_def dest: os_okD(1))
  then have "os_ok s'"
    by (rule os_ok_cong [rotated 4]) (simp_all add: assms(4,5,7,8))
  with assms(1) show ?thesis by (simp add: files_ok_def assms(4,6))
qed

text \<open>A file created for a key adds that key only.\<close>

lemma file_contents_create:
  assumes "files_ok s" and "fs_names s (key_path s key) = None"
    and "fs_names s' = (fs_names s)(key_path s key := Some (File (fs_next s)))"
    and "fs_inodes s' = (fs_inodes s)(fs_next s := Some bs)" and "path_prefix s' = path_prefix s"
  shows "file_contents s' = (file_contents s)(key \<mapsto> bs)"
proof
  fix k
  have path: "key_path s' = key_path s" by (rule key_path_cong) (rule assms(5))
  have below: "i < fs_next s" if "fs_names s q = Some (File i)" for q i
    using assms(1) that by (auto simp: files_ok_def dest: os_okD(1))
  show "file_contents s' k = ((file_contents s)(key \<mapsto> bs)) k"
    using below [of "key_path s k"]
    by (cases "k = key") (auto simp: file_contents_def path assms(3,4) split: option.splits fnode.splits)
qed

lemma files_ok_create:
  assumes "files_ok s" and "fs_names s (key_path s key) = None"
    and "fs_names s' = (fs_names s)(key_path s key := Some (File (fs_next s)))"
    and "fs_inodes s' = (fs_inodes s)(fs_next s := Some bs)" and "path_prefix s' = path_prefix s"
    and "fs_next s' = Suc (fs_next s)" and "heap_ok s'" and "length bs < 2 ^ 63"
  shows "files_ok s'"
proof -
  have "os_ok s'"
    using assms by (intro os_ok_create [of s "key_path s key" s' bs]) (simp_all add: files_ok_def)
  with assms(1) show ?thesis by (auto simp: files_ok_def assms(3,5))
qed

section \<open>The system calls on a key's file\<close>

lemma open_stored:
  assumes "files_ok s" and "file_contents s key = Some bs" and "os_open F (key_path s key) c s = (s', r)"
    and "r \<noteq> None \<or> flt_open F (key_path s key) = None"
  obtains ino where "r = Some ino" and "fs_names s (key_path s key) = Some (File ino)"
    and "fs_inodes s ino = Some bs" and "s' = s\<lparr>open_fds := Suc (open_fds s)\<rparr>"
    and "length bs < 2 ^ 63"
proof -
  from assms(1,2) obtain ino where ino: "fs_names s (key_path s key) = Some (File ino)" "fs_inodes s ino = Some bs"
    by (auto simp: file_contents_Some)
  moreover have "length bs < 2 ^ 63"
    using assms(1) os_okD(2) [of s, OF _ ino(1)] ino(2) by (auto simp: files_ok_def)
  moreover have "r = Some ino \<and> s' = s\<lparr>open_fds := Suc (open_fds s)\<rparr>"
    using assms(3,4) ino(1) by (cases "flt_open F (key_path s key)") (auto simp: os_open_def)
  ultimately show ?thesis using that by blast
qed

lemma open_missing:
  assumes "files_ok s" and "file_contents s key = None" and "os_open F (key_path s key) False s = (s', r)"
  shows "r = None" and "file_contents s' = file_contents s" and "files_ok s'"
proof -
  have s': "r = None \<and> (\<exists>m. s' = fail_with m s)"
    using assms by (auto simp: os_open_def file_contents_None split: option.splits)
  then show "r = None" by simp
  from s' show "file_contents s' = file_contents s" by (auto intro: file_contents_cong)
  from s' assms(1) show "files_ok s'"
    by (auto intro!: files_ok_cong [of s' s] simp: files_ok_def os_ok_def heap_ok_def)
qed

lemma open_new:
  assumes "files_ok s" and "file_contents s key = None" and "os_open F (key_path s key) True s = (s', Some ino)"
  shows "ino = fs_next s" and "files_ok s'" and "file_contents s' = (file_contents s)(key \<mapsto> [])"
    and "fs_names s' (key_path s' key) = Some (File ino)" and "fs_inodes s' = (fs_inodes s)(ino := Some [])"
    and "path_prefix s' = path_prefix s" and "h_blocks s' = h_blocks s" and "h_next s' = h_next s"
proof -
  have ino: "ino = fs_next s" and new: "fs_names s (key_path s key) = None"
    and s': "s' = s\<lparr>fs_names := (fs_names s)(key_path s key := Some (File (fs_next s))),
        fs_inodes := (fs_inodes s)(fs_next s := Some []), fs_next := Suc (fs_next s),
        open_fds := Suc (open_fds s)\<rparr>"
    using assms by (auto simp: os_open_def file_contents_None split: option.splits fnode.splits if_splits)
  show "ino = fs_next s" by fact
  show "files_ok s'"
    using assms(1) new by (rule files_ok_create [where bs = "[]"]) (use assms(1) in \<open>simp_all add: s' files_ok_def os_ok_def heap_ok_def\<close>)
  show "file_contents s' = (file_contents s)(key \<mapsto> [])"
    using assms(1) new by (rule file_contents_create) (simp_all add: s')
  show "fs_names s' (key_path s' key) = Some (File ino)" and "fs_inodes s' = (fs_inodes s)(ino := Some [])"
    and "path_prefix s' = path_prefix s" and "h_blocks s' = h_blocks s" and "h_next s' = h_next s"
    by (simp_all add: s' ino key_path_def)
qed

lemma os_mem_frame:
  assumes fb: "file_bytes s' = file_bytes s" and "h_blocks s' = h_blocks s"
  shows "os_mem s' = os_mem s"
proof -
  have "block_at s' = block_at s" by (simp add: block_at_def fun_eq_iff assms(2) split: ptr.splits)
  then have peek: "peek s' = peek s" by (simp add: peek_def fun_eq_iff)
  have "buffer_bytes s' = buffer_bytes s"
    by (intro ext) (simp only: buffer_bytes_def peek)
  then show ?thesis by (intro ext) (simp only: os_mem_def fb)
qed

text \<open>Everything that touches neither names, inodes nor the heap.\<close>

lemma files_frame:
  assumes "fs_names s' = fs_names s" and "fs_inodes s' = fs_inodes s" and "path_prefix s' = path_prefix s"
    and "fs_next s' = fs_next s" and "h_blocks s' = h_blocks s" and "h_next s' = h_next s"
  shows "file_contents s' = file_contents s" and "files_ok s' = files_ok s" and "mapped_on s' = mapped_on s"
    and "os_mem s' = os_mem s" and "key_path s' = key_path s" and "file_bytes s' = file_bytes s"
proof -
  show path: "key_path s' = key_path s" by (rule key_path_cong) (rule assms(3))
  show fb: "file_bytes s' = file_bytes s" by (simp add: file_bytes_def fun_eq_iff assms(2))
  show "file_contents s' = file_contents s" by (rule file_contents_cong) (rule assms)+
  show "files_ok s' = files_ok s" by (simp add: files_ok_def os_ok_def heap_ok_def assms)
  show "mapped_on s' = mapped_on s" by (simp add: mapped_on_def fun_eq_iff path fb assms(1))
  show "os_mem s' = os_mem s" by (rule os_mem_frame) (rule fb, rule assms(5))
qed

lemma os_close_frame [simp]:
  "file_contents (os_close s) = file_contents s" "files_ok (os_close s) = files_ok s"
  "mapped_on (os_close s) = mapped_on s" "os_mem (os_close s) = os_mem s"
  "key_path (os_close s) = key_path s" "file_bytes (os_close s) = file_bytes s"
  by (rule files_frame; simp)+

lemma open_fds_frame [simp]:
  "file_contents (s\<lparr>open_fds := n\<rparr>) = file_contents s" "files_ok (s\<lparr>open_fds := n\<rparr>) = files_ok s"
  "mapped_on (s\<lparr>open_fds := n\<rparr>) = mapped_on s" "os_mem (s\<lparr>open_fds := n\<rparr>) = os_mem s"
  "key_path (s\<lparr>open_fds := n\<rparr>) = key_path s" "file_bytes (s\<lparr>open_fds := n\<rparr>) = file_bytes s"
  by (rule files_frame; simp)+

lemma fail_with_frame [simp]:
  "file_contents (fail_with m s) = file_contents s" "files_ok (fail_with m s) = files_ok s"
  "mapped_on (fail_with m s) = mapped_on s" "os_mem (fail_with m s) = os_mem s"
  "key_path (fail_with m s) = key_path s" "file_bytes (fail_with m s) = file_bytes s"
  by (rule files_frame; simp)+

text \<open>New contents for the file of a key.\<close>

lemma inode_frame:
  assumes "files_ok s" and "fs_names s (key_path s key) = Some (File ino)" and "length bs < 2 ^ 63"
    and "s' = s\<lparr>fs_inodes := (fs_inodes s)(ino := Some bs)\<rparr>"
  shows "files_ok s'" and "file_contents s' = (file_contents s)(key \<mapsto> bs)"
    and "fs_names s' (key_path s' key) = Some (File ino)" and "file_bytes s' ino = bs"
proof -
  show "files_ok s'"
    by (rule files_ok_inode_upd [OF assms(1,2,3)])
      (use assms(1) in \<open>simp_all add: assms(4) files_ok_def os_ok_def heap_ok_def\<close>)
  show "file_contents s' = (file_contents s)(key \<mapsto> bs)"
    by (rule file_contents_inode_upd [OF assms(1,2)]) (simp_all add: assms(4))
  show "fs_names s' (key_path s' key) = Some (File ino)" using assms(2) by (simp add: assms(4) key_path_def)
  show "file_bytes s' ino = bs" by (simp add: assms(4))
qed

lemma os_mmap_cases:
  "os_mmap F ino n s = (s', p) \<Longrightarrow>
     (s' = s \<and> p = Mapping ino n \<and> n \<noteq> 0) \<or> (p = Map_failed \<and> (\<exists>m. s' = fail_with m s))"
  by (auto simp: os_mmap_def split: if_splits option.splits)

section \<open>What the operations do\<close>

lemma Posix_alloc_new:
  assumes "files_ok s" and "file_contents s key = None" and "Posix_alloc F s key n = (s', Inr b)"
  shows "files_ok s'" and "mapped_on s' b key" and "buffer_size b = n"
    and "file_contents s' = (file_contents s)(key \<mapsto> replicate (unat n) 0)"
    and "malloc_buffer_destroy b = Inr"
proof -
  obtain s1 ino where o: "os_open F (key_path s key) True s = (s1, Some ino)"
    using assms(3) by (auto simp: Posix_alloc_def split: prod.splits option.splits)
  note new = open_new [OF assms(1,2) o]
  from o assms(3) obtain s2 where tr: "os_ftruncate F ino (unat n) s1 = (s2, True)"
    and rest: "bind_out (mmap_buffer_alloc F ino n s2) (\<lambda>s3 b. (os_close s3, Inr b)) = (s', Inr b)"
    by (auto simp: Posix_alloc_def split: prod.splits bool.splits)
  have s2: "s2 = s1\<lparr>fs_inodes := (fs_inodes s1)(ino := Some (replicate (unat n) 0))\<rparr>"
    and small: "length (replicate (unat n) (0 :: byte)) < 2 ^ 63"
    using tr new(5) by (auto simp: os_ftruncate_def file_bytes_def split: if_splits option.splits)
  have names: "fs_names s1 (key_path s1 key) = Some (File ino)" by (rule new(4))
  note ino = inode_frame [OF new(2) names small s2]
  have s': "s' = os_close s2" and b: "b = Mmap_buffer (Mapping ino (unat n)) n (sint (fd_number F))"
    using rest by (auto simp: mmap_buffer_alloc_def bind_out_Inr_iff dest!: os_mmap_cases
        split: prod.splits ptr.splits if_splits)
  show "files_ok s'" and "buffer_size b = n" using ino by (simp_all add: s' b)
  show "malloc_buffer_destroy b = Inr" by (simp add: b)
  show "file_contents s' = (file_contents s)(key \<mapsto> replicate (unat n) 0)"
    using ino(2) by (simp add: s' new(3))
  show "mapped_on s' b key" using ino(3,4) by (auto simp: s' b mapped_on_def)
qed

text \<open>Mapped memory is the contents of the key.\<close>

lemma mapped_mem:
  assumes "files_ok s" and "mapped_on s b key" and "file_contents s key = Some bs"
  shows "os_mem s b = Inr bs" and "unat (buffer_size b) = length bs"
  using assms by (auto simp: mapped_on_def os_mem_def file_contents_Some file_bytes_def)

lemma mapped_set_mem:
  assumes "files_ok s" and "mapped_on s b key" and "file_contents s key = Some bs"
    and "length bs' = length bs"
  shows "files_ok (os_set_mem s b bs')" and "file_contents (os_set_mem s b bs') = (file_contents s)(key \<mapsto> bs')"
proof -
  obtain ino where ino: "fs_names s (key_path s key) = Some (File ino)" and bs: "fs_inodes s ino = Some bs"
    using assms(1,3) by (auto simp: file_contents_Some)
  have small: "length bs' < 2 ^ 63"
    using os_okD(2) [of s, OF _ ino] assms(1,4) bs by (auto simp: files_ok_def)
  have "files_ok (os_set_mem s b bs') \<and> file_contents (os_set_mem s b bs') = (file_contents s)(key \<mapsto> bs')"
  proof (cases "buffer_size b = 0")
    case True
    then have "bs = []" "bs' = []" using assms mapped_mem(2) [OF assms(1-3)] by auto
    with True show ?thesis
      using assms by (auto simp: os_set_mem_def)
  next
    case False
    with assms ino bs have "os_set_mem s b bs' = s\<lparr>fs_inodes := (fs_inodes s)(ino := Some bs')\<rparr>"
      by (auto simp: os_set_mem_def mapped_on_def file_bytes_def)
    from inode_frame [OF assms(1) ino small this]
    show ?thesis by blast
  qed
  then show "files_ok (os_set_mem s b bs')" and "file_contents (os_set_mem s b bs') = (file_contents s)(key \<mapsto> bs')"
    by blast+
qed

text \<open>\<open>find\<close> maps the file of a stored key, when the system does not fail the mapping.\<close>

lemma mmap_load_stored:
  assumes "files_ok s" and "fs_names s (key_path s key) = Some (File ino)" and "fs_inodes s ino = Some bs"
    and "mmap_buffer_load F ino s = (s', b)" and "\<forall>i n. flt_mmap F i n = None"
  shows "files_ok s'" and "file_contents s' = file_contents s" and "mapped_on s' b key"
    and "unat (buffer_size b) = length bs"
proof -
  have fb: "file_bytes s ino = bs" and len: "length bs < 2 ^ 63"
    using assms(1,3) os_okD(2) [of s, OF _ assms(2)] by (auto simp: files_ok_def file_bytes_def)
  then have n: "unat (of_nat (length bs) :: size_t) = length bs"
    by (simp add: unat_of_nat take_bit_nat_eq_self)
  obtain p where m: "os_mmap F ino (length bs) s = (s', p)"
    and b: "b = Mmap_buffer p (of_nat (length bs)) (sint (fd_number F))"
    using assms(4) by (auto simp: mmap_buffer_load_def fb Let_def split: prod.splits)
  show "unat (buffer_size b) = length bs" using n by (simp add: b)
  from m assms(5) have "(s' = s \<and> p = Mapping ino (length bs)) \<or> (length bs = 0 \<and> (\<exists>e. s' = fail_with e s))"
    by (auto simp: os_mmap_def split: if_splits)
  then have "files_ok s' \<and> file_contents s' = file_contents s \<and> mapped_on s' b key"
    using assms(1,2) fb n by (auto simp: b mapped_on_def)
  then show "files_ok s'" and "file_contents s' = file_contents s" and "mapped_on s' b key" by blast+
qed

lemma Posix_find_stored:
  assumes "files_ok s" and "file_contents s key = Some bs" and "quiet_reads F"
  shows "\<exists>s' b. Posix_find F s key = (s', Inr b) \<and> files_ok s' \<and> file_contents s' = file_contents s \<and>
     mapped_on s' b key \<and> unat (buffer_size b) = length bs \<and>
      malloc_buffer_destroy b = (Inr :: 'a file_storage_scheme \<Rightarrow> failure + 'a file_storage_scheme)"
proof -
  obtain s1 r where o: "os_open F (key_path s key) False s = (s1, r)" by fastforce
  obtain ino where r: "r = Some ino" and s1: "s1 = s\<lparr>open_fds := Suc (open_fds s)\<rparr>"
    and ino: "fs_names s1 (key_path s1 key) = Some (File ino)" "fs_inodes s1 ino = Some bs"
    using open_stored [OF assms(1,2) o] assms(3) by (auto simp: quiet_reads_def)
  obtain s2 b where m: "mmap_buffer_load F ino s1 = (s2, b)" by fastforce
  have b: "malloc_buffer_destroy b = Inr"
    using m by (auto simp: mmap_buffer_load_def Let_def split: prod.splits)
  have "files_ok s1" using assms(1) by (simp add: s1)
  from mmap_load_stored [OF this ino m] assms(3)
  have "files_ok s2 \<and> file_contents s2 = file_contents s \<and> mapped_on s2 b key \<and> unat (buffer_size b) = length bs"
    by (simp add: quiet_reads_def s1)
  moreover have "Posix_find F s key = (os_close s2, Inr b)"
    by (simp add: Posix_find_def o r m)
  ultimately show ?thesis using b by simp
qed

lemma Posix_find_missing:
  assumes "files_ok s" and "file_contents s key = None" and "Posix_find F s key = (s', r)"
  shows "r = Inl (throw_error POSIX_FIND_FAILED [Arg_str (path_prefix s), Arg_str key, Arg_str (fs_errno s')])"
    and "file_contents s' = file_contents s" and "files_ok s'"
proof -
  obtain s1 x where o: "os_open F (key_path s key) False s = (s1, x)" by fastforce
  note missing = open_missing [OF assms(1,2) o]
  then show "r = Inl (throw_error POSIX_FIND_FAILED [Arg_str (path_prefix s), Arg_str key, Arg_str (fs_errno s')])"
    and "file_contents s' = file_contents s" and "files_ok s'"
    using assms(3) o by (auto simp: Posix_find_def)
qed

text \<open>A written key: the new contents keep what the old ones had beyond the bytes written.\<close>

lemma write_key:
  assumes "files_ok s" and "fs_names s (key_path s key) = Some (File ino)"
    and "file_contents s key = Some old" and "os_write F ino bs s = (s', int (length bs))"
  shows "files_ok s'" and "file_contents s' = (file_contents s)(key \<mapsto> bs @ drop (length bs) old)"
proof -
  have fb: "file_bytes s ino = old" and len: "length old < 2 ^ 63"
    using assms(1,2,3) os_okD(2) [of s, OF _ assms(2)] by (auto simp: files_ok_def file_bytes_def file_contents_Some)
  from assms(4) have s': "s' = s\<lparr>fs_inodes := (fs_inodes s)(ino := Some (bs @ drop (length bs) old))\<rparr>"
    and small: "length bs < 2 ^ 63"
    by (auto simp: os_write_def Let_def fb min_def split: if_splits)
  have "length (bs @ drop (length bs) old) < 2 ^ 63" using small len by simp
  from inode_frame [OF assms(1,2) this s']
  show "files_ok s'" and "file_contents s' = (file_contents s)(key \<mapsto> bs @ drop (length bs) old)" by blast+
qed

text \<open>
  \<open>store\<close> writes over what the file holds: the file is not truncated, so the tail of a longer
  value stays.
\<close>

lemma open_mem:
  assumes "files_ok s" and "os_open F p c s = (s', Some ino)"
  shows "os_mem s' = os_mem s"
proof (rule os_mem_frame)
  have "fs_inodes s (fs_next s) = None" using assms(1) by (auto simp: files_ok_def dest: os_ok_fresh)
  then show "file_bytes s' = file_bytes s"
    using assms(2) by (auto simp: os_open_def file_bytes_def fun_eq_iff split: option.splits fnode.splits if_splits)
  show "h_blocks s' = h_blocks s"
    using assms(2) by (auto simp: os_open_def split: option.splits fnode.splits if_splits)
qed

text \<open>The comparison of the byte count with \<open>ret\<close> is one of words.\<close>

lemma count_word_eq:
  assumes "unat (w :: size_t) = n" and "w = word_of_int ret" and "- 1 \<le> ret" and "ret \<le> int n" and "n < 2 ^ 63"
  shows "ret = int n"
proof -
  have "int n = ret mod 2 ^ 64"
  proof -
    have "int n = uint w" by (simp add: assms(1) [symmetric])
    then show ?thesis by (simp add: assms(2) uint_word_of_int)
  qed
  moreover have "ret mod 2 ^ 64 = (if ret = - 1 then 2 ^ 64 - 1 else ret)"
  proof (cases "ret = - 1")
    case False
    then have "0 \<le> ret" using assms(3) by simp
    with assms(4,5) False show ?thesis by (simp add: mod_pos_pos_trivial)
  qed simp
  ultimately show ?thesis using assms(5) by (auto split: if_splits)
qed

lemma Posix_store_done:
  assumes "files_ok s" and "os_mem s src = Inr bs" and "unat (buffer_size src) = length bs"
    and "length bs < 2 ^ 63" and "Posix_store F s key src = (s', Inr ())"
  shows "files_ok s'"
    and "file_contents s' = (file_contents s)(key \<mapsto>
      bs @ drop (length bs) (case file_contents s key of Some old \<Rightarrow> old | None \<Rightarrow> []))"
proof -
  obtain s1 ino where o: "os_open F (key_path s key) True s = (s1, Some ino)"
    using assms(5) by (auto simp: Posix_store_def split: prod.splits option.splits)
  let ?old = "case file_contents s key of Some old \<Rightarrow> old | None \<Rightarrow> []"
  have opened: "files_ok s1 \<and> fs_names s1 (key_path s1 key) = Some (File ino) \<and>
      file_contents s1 = (file_contents s)(key \<mapsto> ?old)"
  proof (cases "file_contents s key")
    case None
    from open_new [OF assms(1) this o] None show ?thesis by simp
  next
    case (Some old)
    have "fs_names s (key_path s key) = Some (File ino) \<and> s1 = s\<lparr>open_fds := Suc (open_fds s)\<rparr>"
      using open_stored [OF assms(1) Some o] by auto
    with Some assms(1) show ?thesis by (auto simp: fun_upd_idem)
  qed
  obtain s2 ret where w: "os_write F ino bs s1 = (s2, ret)" by fastforce
  have "buffer_size src = word_of_int ret" and s': "s' = os_close s2"
    using assms(2,3,5) o w by (auto simp: Posix_store_def open_mem [OF assms(1) o] split: if_splits)
  moreover have "ret \<le> int (length bs) \<and> - 1 \<le> ret"
    using w by (auto simp: os_write_def Let_def split: if_splits)
  ultimately have "ret = int (length bs)"
    using assms(3,4) by (intro count_word_eq) simp_all
  then have "os_write F ino bs s1 = (s2, int (length bs))" using w by simp
  from write_key [OF _ _ _ this(1), of key ?old] opened
  show "files_ok s'" and "file_contents s' = (file_contents s)(key \<mapsto> bs @ drop (length bs) ?old)"
    by (auto simp: s')
qed

text \<open>
  \<open>load\<close> of a stored key: the result is the second of the two blocks it allocates; the first
  one is never freed.
\<close>

lemma Posix_load_eq:
  assumes "files_ok s" and "file_contents s key = Some bs" and "flt_open F (key_path s key) = None"
    and "int (length bs) \<le> rd_count F (length bs)"
  shows "Posix_load F s key =
    (s\<lparr>h_blocks := (h_blocks s)(h_next s \<mapsto> bs, Suc (h_next s) \<mapsto> bs), h_next := Suc (Suc (h_next s))\<rparr>,
     Inr (Malloc_buffer (Blk (Suc (h_next s))) (of_nat (length bs))))"
proof -
  obtain s1 r where o: "os_open F (key_path s key) True s = (s1, r)" by fastforce
  obtain ino where r: "r = Some ino" and ino: "fs_names s (key_path s key) = Some (File ino)" "fs_inodes s ino = Some bs"
    and s1: "s1 = s\<lparr>open_fds := Suc (open_fds s)\<rparr>"
    using open_stored [OF assms(1,2) o] assms(3) by blast
  have len: "os_file_size s1 (key_path s key) = length bs"
    using ino by (simp add: os_file_size_def s1 file_bytes_def)
  obtain s2 where m: "malloc (length bs) s1 = (s2, Blk (h_next s))"
    and s2: "file_bytes s2 ino = bs"
    using ino by (auto simp: malloc_def s1 file_bytes_def)
  have rd: "os_read F ino (length bs) s2 = (s2, int (length bs), bs)"
    using assms(4) by (simp add: os_read_def s2 Let_def)
  note pk = poke_malloc [OF m]
  show ?thesis
    unfolding Posix_load_def o r option.case prod.case len Let_def m rd pk bind_sum_simps
    by (simp add: peek_def block_at_def malloc_buffer_copy_of_eq os_close_def s1)
qed

lemma Posix_load_stored:
  assumes "files_ok s" and "file_contents s key = Some bs" and "Posix_load F s key = (s', Inr b)"
  shows "flt_open F (key_path s key) = None" and "int (length bs) \<le> rd_count F (length bs)"
proof -
  obtain s1 ino where o: "os_open F (key_path s key) True s = (s1, Some ino)"
    using assms(3) by (auto simp: Posix_load_def split: prod.splits option.splits)
  then show "flt_open F (key_path s key) = None" by (auto simp: os_open_def split: option.splits)
  have ino: "fs_names s (key_path s key) = Some (File ino)" "fs_inodes s ino = Some bs"
    and s1: "s1 = s\<lparr>open_fds := Suc (open_fds s)\<rparr>" and small: "length bs < 2 ^ 63"
    using open_stored [OF assms(1,2) o] by auto
  have len: "os_file_size s1 (key_path s key) = length bs"
    using ino by (simp add: os_file_size_def s1 file_bytes_def)
  obtain s2 where m: "malloc (length bs) s1 = (s2, Blk (h_next s))"
    and s2: "file_bytes s2 ino = bs"
    using ino by (auto simp: malloc_def s1 file_bytes_def)
  obtain s3 ret c where rd: "os_read F ino (length bs) s2 = (s3, ret, c)" by (metis prod_cases3)
  have "(of_nat (length bs) :: size_t) = word_of_int ret"
    using assms(3)
    unfolding Posix_load_def o option.case prod.case len Let_def m rd
    by (auto split: if_splits)
  moreover have "- 1 \<le> ret" "ret \<le> int (length bs)"
    using rd by (auto simp: os_read_def Let_def s2 split: if_splits)
  moreover have "unat (of_nat (length bs) :: size_t) = length bs"
    using small by (simp add: unat_of_nat take_bit_nat_eq_self)
  ultimately have "ret = int (length bs)"
    using count_word_eq small by blast
  with rd show "int (length bs) \<le> rd_count F (length bs)"
    by (auto simp: os_read_def Let_def s2 split: if_splits)
qed

text \<open>The heap is not part of the contents.\<close>

lemma heap_frame:
  assumes "s' = s\<lparr>h_blocks := bl, h_next := n\<rparr>" and "heap_ok s'" and "files_ok s"
  shows "files_ok s'" and "file_contents s' = file_contents s"
  using assms(2,3)
  by (auto simp: assms(1) files_ok_def os_ok_def intro!: file_contents_cong)

lemma copy_of_frame:
  assumes "files_ok s" and "malloc_buffer_copy_of bs s = Inr (s', b)" and "length bs < 2 ^ 64"
  shows "files_ok s'" and "file_contents s' = file_contents s" and "os_mem s' b = Inr bs"
    and "unat (buffer_size b) = length bs"
proof -
  have "heap_ok s'" using assms(1,2) by (auto simp: files_ok_def os_ok_def intro: heap_ok_copy_of)
  moreover have "s' = s\<lparr>h_blocks := (h_blocks s)(h_next s \<mapsto> bs), h_next := Suc (h_next s)\<rparr>"
    using assms(2) by (simp_all add: malloc_buffer_copy_of_eq)
  ultimately show "files_ok s'" and "file_contents s' = file_contents s"
    using heap_frame assms(1) by blast+
  show "os_mem s' b = Inr bs" and "unat (buffer_size b) = length bs"
    using os_mem_copy_of [OF assms(2,3)] by blast+
qed

lemma Posix_load_result:
  assumes "files_ok s" and "file_contents s key = Some bs" and "flt_open F (key_path s key) = None"
    and "int (length bs) \<le> rd_count F (length bs)"
  obtains s' b where "Posix_load F s key = (s', Inr b)" and "files_ok s'"
    and "file_contents s' = file_contents s" and "os_mem s' b = Inr bs" and "unat (buffer_size b) = length bs"
proof -
  obtain ino where ino: "fs_names s (key_path s key) = Some (File ino)" "fs_inodes s ino = Some bs"
    using assms(1,2) by (auto simp: file_contents_Some)
  then have small: "length bs < 2 ^ 64"
    using assms(1) os_okD(2) [of s, OF _ ino(1)] by (auto simp: files_ok_def)
  let ?s = "s\<lparr>h_blocks := (h_blocks s)(h_next s \<mapsto> bs), h_next := Suc (h_next s)\<rparr>"
  have 1: "malloc_buffer_copy_of bs s = Inr (?s, Malloc_buffer (Blk (h_next s)) (of_nat (length bs)))"
    by (simp add: malloc_buffer_copy_of_eq)
  note s1 = copy_of_frame [OF assms(1) 1 small]
  obtain s' b where 2: "malloc_buffer_copy_of bs ?s = Inr (s', b)"
    by (simp add: malloc_buffer_copy_of_eq)
  then have "Posix_load F s key = (s', Inr b)"
    by (simp add: Posix_load_eq [OF assms] malloc_buffer_copy_of_eq)
  with copy_of_frame [OF s1(1) 2 small] s1 that show ?thesis by simp
qed

lemma Posix_free_stored:
  assumes "files_ok s" and "Posix_free F s key = (s', r)" and "fs_names s (key_path s key) \<noteq> Some Dir"
  shows "r = Inr ()" and "files_ok s'" and "file_contents s' = (file_contents s)(key := None)"
proof -
  show "r = Inr ()" using assms(2) by (auto simp: Posix_free_def)
  have "files_ok s' \<and> file_contents s' = (file_contents s)(key := None)"
  proof (cases "fs_names s (key_path s key)")
    case None
    then have "s' = fail_with ''No such file or directory'' s" "file_contents s key = None"
      using assms(1,2) by (auto simp: Posix_free_def os_remove_def file_contents_None)
    with assms(1) show ?thesis by (simp add: fun_upd_idem)
  next
    case (Some nd)
    with assms(3) obtain ino where "nd = File ino" by (cases nd) auto
    with Some assms(2) have s': "s' = s\<lparr>fs_names := (fs_names s)(key_path s key := None)\<rparr>"
      by (auto simp: Posix_free_def os_remove_def)
    have "os_ok s'"
      using assms(1) by (intro os_ok_unlink [of s s' "key_path s key"]) (simp_all add: s' files_ok_def os_ok_def heap_ok_def)
    then have "files_ok s'" using assms(1) by (auto simp: files_ok_def s')
    moreover have "file_contents s' = (file_contents s)(key := None)"
      by (rule ext) (auto simp: file_contents_def s' key_path_def split: option.splits fnode.splits)
    ultimately show ?thesis by blast
  qed
  then show "files_ok s'" and "file_contents s' = (file_contents s)(key := None)" by blast+
qed

lemma destroy_frame_files:
  assumes "files_ok s" and "malloc_buffer_destroy b s = Inr s'"
  shows "files_ok s'" and "file_contents s' = file_contents s"
proof -
  have "files_ok s' \<and> file_contents s' = file_contents s"
    using malloc_buffer_destroy_cases [OF assms(2)]
  proof
    assume "\<exists>i. s' = s\<lparr>h_blocks := (h_blocks s)(i := None)\<rparr>"
    then obtain i where s': "s' = s\<lparr>h_blocks := (h_blocks s)(i := None), h_next := h_next s\<rparr>" by auto
    moreover from s' have "heap_ok s'" using assms(1) by (simp add: files_ok_def os_ok_def heap_ok_def)
    ultimately show ?thesis using heap_frame assms(1) by blast
  qed (use assms(1) in simp)
  then show "files_ok s'" and "file_contents s' = file_contents s" by blast+
qed

lemma Posix_load_destroy:
  assumes "files_ok s" and "file_contents s key = Some bs" and "quiet_reads F"
  shows "\<exists>s' b s''. Posix_load F s key = (s', Inr b) \<and> malloc_buffer_destroy b s' = Inr s''"
  using Posix_load_eq [OF assms(1,2), of F] assms(3)
  by (simp add: quiet_reads_def free_ptr_def)

section \<open>PosixStorage meets the contract\<close>

interpretation posix: storage_contract "PosixStorage F" files_ok file_key file_contents mapped_on "quiet_reads F" for F
proof (unfold_locales, unfold PosixStorage_sel)
  show "files_ok s' \<and> mapped_on s' b key \<and> buffer_size b = n \<and>
      malloc_buffer_destroy b = (Inr :: 'a file_storage_scheme \<Rightarrow> failure + 'a file_storage_scheme) \<and>
      (\<exists>bs. length bs = unat n \<and> file_contents s' = (file_contents s)(key \<mapsto> bs))"
    if "quiet_reads F" "files_ok s" "file_contents s key = None" "Posix_alloc F s key n = (s', Inr b)" for s s' key n b
    using Posix_alloc_new [OF that(2-)] length_replicate [of "unat n" "0 :: byte"] by blast
  show "os_mem s b = Inr bs" if "files_ok s" "mapped_on s b key" "file_contents s key = Some bs" for s b key bs
    by (rule mapped_mem(1) [OF that])
  show "files_ok (os_set_mem s b bs') \<and> file_contents (os_set_mem s b bs') = (file_contents s)(key \<mapsto> bs')"
    if "files_ok s" "mapped_on s b key" "file_contents s key = Some bs" "length bs' = length bs" for s b key bs bs'
    using mapped_set_mem [OF that] by blast
  show "files_ok s' \<and> file_contents s' = (file_contents s)(key \<mapsto> bs)"
    if "quiet_reads F" "files_ok s" "file_contents s key = None" "os_mem s b = Inr bs" "unat (buffer_size b) = length bs"
      "length bs < 2 ^ 63" "Posix_store F s key b = (s', Inr ())" for s s' key b bs
    using Posix_store_done [OF that(2,4-)] that(3) by simp
  show "\<exists>s' b. Posix_find F s key = (s', Inr b) \<and> files_ok s' \<and> file_contents s' = file_contents s \<and>
      mapped_on s' b key \<and> unat (buffer_size b) = length bs \<and>
      malloc_buffer_destroy b = (Inr :: 'a file_storage_scheme \<Rightarrow> failure + 'a file_storage_scheme)"
    if "quiet_reads F" "files_ok s" "file_contents s key = Some bs" "bs \<noteq> []" for s key bs
    by (rule Posix_find_stored [OF that(2,3,1)])
  show "isl r \<and> file_contents s' = file_contents s"
    if "files_ok s" "file_contents s key = None" "Posix_find F s key = (s', r)" for s s' key r
    using Posix_find_missing [OF that] by simp
  show "files_ok s' \<and> file_contents s' = file_contents s \<and> os_mem s' b = Inr bs \<and> unat (buffer_size b) = length bs"
    if stored: "files_ok s" "file_contents s key = Some bs" "Posix_load F s key = (s', Inr b)" for s s' key b bs
  proof -
    obtain s2 b2 where "Posix_load F s key = (s2, Inr b2)" "files_ok s2" "file_contents s2 = file_contents s"
      "os_mem s2 b2 = Inr bs" "unat (buffer_size b2) = length bs"
      using Posix_load_result [OF stored(1,2) Posix_load_stored [OF stored]] by blast
    with stored(3) show ?thesis by simp
  qed
  show "\<exists>s' b s''. Posix_load F s key = (s', Inr b) \<and> malloc_buffer_destroy b s' = Inr s''"
    if "quiet_reads F" "files_ok s" "file_contents s key = Some bs" for s key bs
    by (rule Posix_load_destroy [OF that(2,3,1)])
  show "files_ok s' \<and> file_contents s' = (file_contents s)(key := None)"
    if "files_ok s" "file_contents s key = Some bs" "Posix_free F s key = (s', Inr ())" for s s' key bs
    using Posix_free_stored [OF that(1,3)] that(1,2) by (auto simp: file_contents_Some)
  show "files_ok s' \<and> file_contents s' = file_contents s \<and> os_mem s' b = Inr bs \<and> unat (buffer_size b) = length bs"
    if "files_ok s" "malloc_buffer_copy_of bs s = Inr (s', b)" "length bs < 2 ^ 64" for s s' b bs
    using copy_of_frame [OF that] by blast
  show "files_ok s' \<and> file_contents s' = file_contents s"
    if "files_ok s" "malloc_buffer_destroy b s = Inr s'" for s s' b
    using destroy_frame_files [OF that] by blast
qed

section \<open>Descriptors and leaks\<close>

lemma os_open_fds: "os_open F p c s = (s', Some ino) \<Longrightarrow> open_fds s' = Suc (open_fds s)"
  by (auto simp: os_open_def split: option.splits fnode.splits if_splits)

lemma os_calls_fds [simp]:
  "open_fds (fst (os_ftruncate F ino n s)) = open_fds s"
  "open_fds (fst (os_mmap F ino n s)) = open_fds s"
  "open_fds (fst (os_write F ino bs s)) = open_fds s"
  "open_fds (fst (os_read F ino n s)) = open_fds s"
  "open_fds (fst (malloc n s)) = open_fds s"
  by (simp_all add: os_ftruncate_def os_mmap_def os_write_def os_read_def malloc_def Let_def split: option.splits)

lemma poke_fds: "poke s p bs = Inr s' \<Longrightarrow> open_fds s' = open_fds s"
  by (cases p) (auto simp: poke_def bind_sum_Inr_iff block_at_def split: if_splits)

lemma copy_of_fds: "malloc_buffer_copy_of bs s = Inr (s', b) \<Longrightarrow> open_fds s' = open_fds s"
  by (auto simp: malloc_buffer_copy_of_eq)

text \<open>A call that returns has closed the descriptor it opened.\<close>

lemma Posix_alloc_fds: "Posix_alloc F s key n = (s', Inr b) \<Longrightarrow> open_fds s' = open_fds s"
proof -
  assume al: "Posix_alloc F s key n = (s', Inr b)"
  obtain s1 ino where o: "os_open F (key_path s key) True s = (s1, Some ino)"
    using al by (auto simp: Posix_alloc_def split: prod.splits option.splits)
  obtain s2 ok where t: "os_ftruncate F ino (unat n) s1 = (s2, ok)" by fastforce
  obtain s3 p where m: "os_mmap F ino (unat n) s2 = (s3, p)" by fastforce
  have "s' = os_close s3"
    using al o t m
    by (auto simp: Posix_alloc_def mmap_buffer_alloc_def bind_out_Inr_iff split: bool.splits ptr.splits)
  then show ?thesis
    using os_open_fds [OF o] os_calls_fds(1) [of F ino "unat n" s1] os_calls_fds(2) [of F ino "unat n" s2]
    by (simp add: t m)
qed

lemma Posix_store_fds: "Posix_store F s key src = (s', Inr ()) \<Longrightarrow> open_fds s' = open_fds s"
proof -
  assume st: "Posix_store F s key src = (s', Inr ())"
  obtain s1 ino bs where o: "os_open F (key_path s key) True s = (s1, Some ino)" and bs: "os_mem s1 src = Inr bs"
    using st by (auto simp: Posix_store_def split: prod.splits option.splits sum.splits)
  obtain s2 ret where w: "os_write F ino (take (unat (buffer_size src)) bs) s1 = (s2, ret)" by fastforce
  have "s' = os_close s2" using st by (auto simp: Posix_store_def o bs w split: if_splits)
  then show ?thesis using os_open_fds [OF o] os_calls_fds(3) [of F ino "take (unat (buffer_size src)) bs" s1] by (simp add: w)
qed

lemma Posix_find_fds: "Posix_find F s key = (s', Inr b) \<Longrightarrow> open_fds s' = open_fds s"
proof -
  assume f: "Posix_find F s key = (s', Inr b)"
  obtain s1 ino where o: "os_open F (key_path s key) False s = (s1, Some ino)"
    using f by (auto simp: Posix_find_def split: prod.splits option.splits)
  obtain s2 p where m: "os_mmap F ino (length (file_bytes s1 ino)) s1 = (s2, p)" by fastforce
  have "s' = os_close s2" using f by (auto simp: Posix_find_def mmap_buffer_load_def Let_def o m)
  then show ?thesis using os_open_fds [OF o] os_calls_fds(2) [of F ino "length (file_bytes s1 ino)" s1] by (simp add: m)
qed

text \<open>A size that cannot be mapped: the new file stays, and so does the open descriptor.\<close>

lemma Posix_alloc_unmappable:
  assumes "files_ok s" and "file_key key" and "fs_names s (key_path s key) = None" and "n = 0 \<or> 2 ^ 63 \<le> unat n"
  obtains s' e where "Posix_alloc no_faults s key n = (s', Inl e)" and "open_fds s' = Suc (open_fds s)"
    and "file_contents s' = (file_contents s)(key \<mapsto> [])"
proof -
  obtain s1 where o: "os_open no_faults (key_path s key) True s = (s1, Some (fs_next s))"
    using assms parent_exists_key [OF assms(1,2)] by (simp add: os_open_def no_faults_def)
  have none: "file_contents s key = None" using assms(1,3) by (simp add: file_contents_None)
  note new = open_new [OF assms(1) none o]
  note fds = os_open_fds [OF o]
  show ?thesis
  proof (cases "n = 0")
    case True
    let ?s2 = "s1\<lparr>fs_inodes := (fs_inodes s1)(fs_next s := Some [])\<rparr>"
    have "file_contents ?s2 = file_contents s1"
      by (rule file_contents_cong) (simp_all add: new(5) fun_upd_idem)
    moreover have "os_ftruncate no_faults (fs_next s) 0 s1 = (?s2, True)"
      by (simp add: os_ftruncate_def no_faults_def resized_def)
    ultimately show ?thesis
      using that True o fds new(3)
      by (simp add: Posix_alloc_def mmap_buffer_alloc_def os_mmap_def)
  next
    case False
    with assms(4) show ?thesis
      using that o fds new(3) by (simp add: Posix_alloc_def os_ftruncate_def)
  qed
qed

text \<open>\<open>load\<close> of a key that is not there creates an empty file for it and returns an empty buffer.\<close>

lemma Posix_load_missing:
  assumes "files_ok s" and "file_key key" and "fs_names s (key_path s key) = None"
  obtains s' b where "Posix_load no_faults s key = (s', Inr b)" and "buffer_size b = 0"
    and "file_contents s' = (file_contents s)(key \<mapsto> [])"
proof -
  obtain s1 where o: "os_open no_faults (key_path s key) True s = (s1, Some (fs_next s))"
    using assms parent_exists_key [OF assms(1,2)] by (simp add: os_open_def no_faults_def)
  have none: "file_contents s key = None" using assms(1,3) by (simp add: file_contents_None)
  note new = open_new [OF assms(1) none o]
  have path: "key_path s1 key = key_path s key" by (simp add: key_path_def new(6))
  have len: "os_file_size s1 (key_path s key) = 0" and fb: "file_bytes s1 (fs_next s) = []"
    using new(4,5) by (simp_all add: os_file_size_def file_bytes_def path)
  obtain s2 p where m: "malloc 0 s1 = (s2, p)" by fastforce
  then have fb2: "file_bytes s2 (fs_next s) = []" using fb by (auto simp: malloc_def file_bytes_def)
  obtain s5 b where c: "malloc_buffer_copy_of [] (os_close s2) = Inr (s5, b)" by (simp add: malloc_buffer_copy_of_eq)
  have rd: "os_read no_faults (fs_next s) 0 s2 = (s2, 0, [])"
    by (simp add: os_read_def no_faults_def fb2)
  have ld: "Posix_load no_faults s key = (s5, Inr b)"
    by (simp add: Posix_load_def o len m rd poke_def peek_def c)
  have "file_contents s5 = file_contents s1"
    using c m by (intro file_contents_cong) (auto simp: malloc_buffer_copy_of_eq malloc_def os_close_def)
  then show ?thesis using that [OF ld] c new(3) by (auto simp: malloc_buffer_copy_of_eq)
qed

section \<open>Destroying a mapped buffer\<close>

text \<open>
  The destructor leaves every key as it is, or ends the process; a buffer that was moved from,
  or that \<open>find\<close> has left without a mapping, is not touched.
\<close>

lemma mmap_buffer_destroy_cases:
  "(\<exists>s'. mmap_buffer_destroy F b s = Normally s' \<and> (s' = s \<or> (\<exists>m. s' = fail_with m s))) \<or>
     mmap_buffer_destroy F b s = Exited (''Yep, it failed..'' @ [CHR 0x0A]) 1"
  by (cases b) (auto simp: os_msync_def os_munmap_def split: ptr.split option.split)

lemma mmap_buffer_destroy_files:
  assumes "mmap_buffer_destroy F b s = Normally s'"
  shows "file_contents s' = file_contents s" and "files_ok s \<Longrightarrow> files_ok s'"
proof -
  have "s' = s \<or> (\<exists>m. s' = fail_with m s)" using mmap_buffer_destroy_cases [of F b s] assms by auto
  then show "file_contents s' = file_contents s" and "files_ok s \<Longrightarrow> files_ok s'" by auto
qed

lemma mmap_buffer_destroy_moved:
  "mmap_buffer_move b = (b1, b0) \<Longrightarrow> b = Mmap_buffer p n fd \<Longrightarrow> mmap_buffer_destroy F b0 s = Normally s \<and> b1 = b"
  by (auto simp: is_mapped_def)

end
