(* ===== verification/Pmdk_Fs.thy ===== *)
theory Pmdk_Fs
  imports Posix
begin

text \<open>
  storage/pmdk_fs.h: \<open>FilesystemPMDKStorage\<close>, one file per key, mapped by libpmem's
  \<open>pmem_map_file\<close>. The library is a record of functions, an argument of the definitions; what
  its documentation promises is the locale \<open>libpmem_library\<close>, stated by the calls of the
  operating system that a successful \<open>pmem_map_file\<close> amounts to.
\<close>

section \<open>libpmem\<close>

text \<open>
  \<open>pm_map_file path n create\<close>: flags \<open>PMEM_FILE_CREATE | PMEM_FILE_SPARSE\<close> or none; the result is
  the mapping and the length mapped. \<open>pm_garbage\<close> is what the uninitialised \<open>size_\<close> holds.
\<close>

record 's libpmem =
  pm_map_file :: "string \<Rightarrow> size_t \<Rightarrow> bool \<Rightarrow> 's \<Rightarrow> 's \<times> (ptr \<times> size_t) option"
  pm_garbage :: size_t
  pm_persist :: "ptr \<Rightarrow> size_t \<Rightarrow> 's \<Rightarrow> 's"
  pm_unmap :: "ptr \<Rightarrow> size_t \<Rightarrow> 's \<Rightarrow> 's \<times> int"

section \<open>mmap_buffer\<close>

definition fs_mmap_buffer_alloc ::
    "'z file_storage_scheme libpmem \<Rightarrow> string \<Rightarrow> size_t \<Rightarrow> 'z file_storage_scheme \<Rightarrow> ('z file_storage_scheme, buffer) outcome" where
  "fs_mmap_buffer_alloc P path n s =
     (case pm_map_file P path n True s of
        (s1, None) \<Rightarrow> (s1, Inl (throw_error POSIX_MMAP_FAILED [mb_arg n, Arg_str path, Arg_str (fs_errno s1)]))
      | (s1, Some (p, _)) \<Rightarrow> (s1, Inr (Fs_mmap_buffer p n)))"

definition fs_mmap_buffer_load ::
    "'z file_storage_scheme libpmem \<Rightarrow> string \<Rightarrow> 'z file_storage_scheme \<Rightarrow> ('z file_storage_scheme, buffer) outcome" where
  "fs_mmap_buffer_load P path s =
     (case pm_map_file P path 0 False s of
        (s1, None) \<Rightarrow>
          (s1, Inl (throw_error POSIX_MMAP_FAILED [mb_arg (pm_garbage P), Arg_str path, Arg_str (fs_errno s1)]))
      | (s1, Some (p, len)) \<Rightarrow> (s1, Inr (Fs_mmap_buffer p len)))"

fun fs_mmap_buffer_copy :: "buffer \<Rightarrow> buffer" where
  "fs_mmap_buffer_copy (Fs_mmap_buffer p n) = Fs_mmap_buffer p n"
| "fs_mmap_buffer_copy b = b"

fun fs_mmap_buffer_move :: "buffer \<Rightarrow> buffer \<times> buffer" where
  "fs_mmap_buffer_move (Fs_mmap_buffer p n) = (Fs_mmap_buffer p n, Fs_mmap_buffer Null 0)"
| "fs_mmap_buffer_move b = (b, b)"

fun fs_mmap_buffer_destroy :: "'z file_storage_scheme libpmem \<Rightarrow> buffer \<Rightarrow> 'z file_storage_scheme \<Rightarrow> 'z file_storage_scheme" where
  "fs_mmap_buffer_destroy P (Fs_mmap_buffer p n) s = (if p \<noteq> Null then fst (pm_unmap P p n (pm_persist P p n s)) else s)"
| "fs_mmap_buffer_destroy P b s = s"

section \<open>FilesystemPMDKStorage\<close>

text \<open>\<open>boost::filesystem::create_directory\<close> throws where \<open>mkdir\<close> only returns.\<close>

definition PmdkFs_mmap :: "os_faults \<Rightarrow> 'z file_storage_scheme \<Rightarrow> string \<Rightarrow> size_t \<Rightarrow> ('z file_storage_scheme, unit) outcome" where
  "PmdkFs_mmap F s path n =
     bind_out
       (if fs_exists s path then (s, Inr ())
        else (case os_mkdir F path s of
                (s1, True) \<Rightarrow> (s1, Inr ())
              | (s1, False) \<Rightarrow> (s1, Inl (Foreign_exn (fs_errno s1)))))
       (\<lambda>s1 _.
          if fs_is_directory s1 path then (s1\<lparr>path_prefix := path\<rparr>, Inr ())
          else (s1, Inl (throw_error POSIX_PATH_NOT_DIRECTORY [Arg_str path])))"

definition PmdkFs_munmap :: "'z file_storage_scheme \<Rightarrow> ('z file_storage_scheme, unit) outcome" where
  "PmdkFs_munmap s = (s, Inr ())"

definition PmdkFs_release :: "'z file_storage_scheme \<Rightarrow> string \<Rightarrow> ('z file_storage_scheme, unit) outcome" where
  "PmdkFs_release s path = (s, Inr ())"

definition PmdkFs_alloc ::
    "'z file_storage_scheme libpmem \<Rightarrow> 'z file_storage_scheme \<Rightarrow> string \<Rightarrow> size_t \<Rightarrow> ('z file_storage_scheme, buffer) outcome" where
  "PmdkFs_alloc P s key n = fs_mmap_buffer_alloc P (key_path s key) n s"

definition PmdkFs_store :: "os_faults \<Rightarrow> 'z file_storage_scheme \<Rightarrow> string \<Rightarrow> buffer \<Rightarrow> ('z file_storage_scheme, unit) outcome" where
  "PmdkFs_store F s key src =
     (case os_open F (key_path s key) True s of
        (s1, None) \<Rightarrow>
          (s1, Inl (throw_error POSIX_OPEN_FAILED
             [Arg_d32 (-1), Arg_str (path_prefix s), Arg_str key, Arg_str (fs_errno s1)]))
      | (s1, Some ino) \<Rightarrow>
          (case os_mem s1 src of
             Inl e \<Rightarrow> (s1, Inl e)
           | Inr bs \<Rightarrow>
               (case os_write F ino (take (unat (buffer_size src)) bs) s1 of
                  (s2, ret) \<Rightarrow>
                    if buffer_size src \<noteq> word_of_int ret then
                      (os_close s2, Inl (throw_error POSIX_WRITE_FAILED
                         [Arg_u64 (buffer_size src), Arg_str (path_prefix s), Arg_str key,
                          Arg_u64 (word_of_int ret), Arg_str (fs_errno s2)]))
                    else (os_close s2, Inr ()))))"

definition PmdkFs_find ::
    "'z file_storage_scheme libpmem \<Rightarrow> 'z file_storage_scheme \<Rightarrow> string \<Rightarrow> ('z file_storage_scheme, buffer) outcome" where
  "PmdkFs_find P s key =
     (if \<not> fs_exists s (key_path s key) then
        (s, Inl (throw_error POSIX_FIND_FAILED [Arg_str (path_prefix s), Arg_str key, Arg_str (fs_errno s)]))
      else fs_mmap_buffer_load P (key_path s key) s)"

definition PmdkFs_load :: "os_faults \<Rightarrow> 'z file_storage_scheme \<Rightarrow> string \<Rightarrow> ('z file_storage_scheme, buffer) outcome" where
  "PmdkFs_load F s key =
     (case os_open F (key_path s key) True s of
        (s1, None) \<Rightarrow>
          (s1, Inl (throw_error POSIX_READ_FAILED
             [Arg_d32 (-1), Arg_str (path_prefix s), Arg_str key, Arg_d32 (-1), Arg_str (fs_errno s1)]))
      | (s1, Some ino) \<Rightarrow>
          (let len = os_file_size s1 (key_path s key)
           in case malloc len s1 of (s2, p) \<Rightarrow>
             (case os_read F ino len s2 of (s3, ret, bs) \<Rightarrow>
                if (of_nat len :: size_t) \<noteq> word_of_int ret then
                  (os_close s3, Inl (throw_error POSIX_READ_FAILED
                     [Arg_u64 (of_nat len), Arg_str (path_prefix s), Arg_str key,
                      Arg_u64 (word_of_int ret), Arg_str (fs_errno s3)]))
                else
                  (case bind_sum (poke s3 p bs) (\<lambda>s4. bind_sum (peek s4 p len) (\<lambda>c.
                          malloc_buffer_copy_of c (os_close s4))) of
                     Inl e \<Rightarrow> (s3, Inl e)
                   | Inr (s5, b) \<Rightarrow> (s5, Inr b)))))"

definition PmdkFs_free :: "os_faults \<Rightarrow> 'z file_storage_scheme \<Rightarrow> string \<Rightarrow> ('z file_storage_scheme, unit) outcome" where
  "PmdkFs_free F s key = (fst (os_remove F (key_path s key) s), Inr ())"

definition FilesystemPMDKStorage :: "os_faults \<Rightarrow> 'z file_storage_scheme libpmem \<Rightarrow> 'z file_storage_scheme storage" where
  "FilesystemPMDKStorage F P =
     \<lparr>s_mmap = PmdkFs_mmap F, s_munmap = PmdkFs_munmap, s_release = PmdkFs_release,
      s_alloc = PmdkFs_alloc P, s_store = PmdkFs_store F, s_find = PmdkFs_find P,
      s_load = PmdkFs_load F, s_free = PmdkFs_free F, s_mem = os_mem, s_set_mem = os_set_mem\<rparr>"

lemma FilesystemPMDKStorage_sel [simp]:
  "s_mmap (FilesystemPMDKStorage F P) = PmdkFs_mmap F" "s_munmap (FilesystemPMDKStorage F P) = PmdkFs_munmap"
  "s_release (FilesystemPMDKStorage F P) = PmdkFs_release" "s_alloc (FilesystemPMDKStorage F P) = PmdkFs_alloc P"
  "s_store (FilesystemPMDKStorage F P) = PmdkFs_store F" "s_find (FilesystemPMDKStorage F P) = PmdkFs_find P"
  "s_load (FilesystemPMDKStorage F P) = PmdkFs_load F" "s_free (FilesystemPMDKStorage F P) = PmdkFs_free F"
  "s_mem (FilesystemPMDKStorage F P) = os_mem" "s_set_mem (FilesystemPMDKStorage F P) = os_set_mem"
  by (simp_all add: FilesystemPMDKStorage_def)

text \<open>Where the two file storages do not map, they do the same.\<close>

lemma PmdkFs_as_Posix:
  "PmdkFs_store F s key src = Posix_store F s key src"
  "PmdkFs_load F s key = Posix_load F s key"
  "PmdkFs_free F s key = Posix_free F s key"
  by (simp_all only: PmdkFs_store_def Posix_store_def PmdkFs_load_def Posix_load_def PmdkFs_free_def Posix_free_def)

section \<open>The contract\<close>

definition pmem_maps :: "'z file_storage_scheme libpmem \<Rightarrow> bool" where
  "pmem_maps P \<longleftrightarrow>
     (\<forall>s path ino. fs_names s path = Some (File ino) \<and> file_bytes s ino \<noteq> [] \<longrightarrow>
        snd (pm_map_file P path 0 False s) \<noteq> None)"

locale libpmem_library =
  fixes P :: "'z file_storage_scheme libpmem"
  assumes map_create: "pm_map_file P path n True s = (s', Some (p, len)) \<Longrightarrow>
      \<exists>s1 ino s2. os_open no_faults path True s = (s1, Some ino) \<and>
        os_ftruncate no_faults ino (unat n) s1 = (s2, True) \<and> s' = os_close s2 \<and> p = Mapping ino (unat n)"
    and map_existing: "pm_map_file P path 0 False s = (s', Some (p, len)) \<Longrightarrow>
      \<exists>s1 ino. os_open no_faults path False s = (s1, Some ino) \<and> s' = os_close s1 \<and>
        len = of_nat (length (file_bytes s ino)) \<and> p = Mapping ino (length (file_bytes s ino))"
    and map_failed: "pm_map_file P path 0 False s = (s', None) \<Longrightarrow> \<exists>m. s' = fail_with m s"
    and persist_same: "pm_persist P p n s = s"
    and unmap_same: "fst (pm_unmap P p n s) = s \<or> (\<exists>m. fst (pm_unmap P p n s) = fail_with m s)"
begin

text \<open>The destructor of a mapped buffer leaves every key as it is.\<close>

lemma fs_mmap_buffer_destroy_files:
  shows "file_contents (fs_mmap_buffer_destroy P b s) = file_contents s"
    and "files_ok s \<Longrightarrow> files_ok (fs_mmap_buffer_destroy P b s)"
proof -
  have "fs_mmap_buffer_destroy P b s = s \<or> (\<exists>m. fs_mmap_buffer_destroy P b s = fail_with m s)"
    using unmap_same by (cases "(P, b, s)" rule: fs_mmap_buffer_destroy.cases) (auto simp: persist_same)
  then show "file_contents (fs_mmap_buffer_destroy P b s) = file_contents s"
    and "files_ok s \<Longrightarrow> files_ok (fs_mmap_buffer_destroy P b s)" by auto
qed

lemma PmdkFs_alloc_new:
  assumes "files_ok s" and "file_contents s key = None" and "PmdkFs_alloc P s key n = (s', Inr b)"
  shows "files_ok s'" and "mapped_on s' b key" and "buffer_size b = n"
    and "file_contents s' = (file_contents s)(key \<mapsto> replicate (unat n) 0)"
    and "malloc_buffer_destroy b = Inr"
proof -
  obtain p len where b: "b = Fs_mmap_buffer p n" and m: "pm_map_file P (key_path s key) n True s = (s', Some (p, len))"
    using assms(3) by (auto simp: PmdkFs_alloc_def fs_mmap_buffer_alloc_def split: prod.splits option.splits)
  from map_create [OF m] obtain s1 ino s2 where o: "os_open no_faults (key_path s key) True s = (s1, Some ino)"
    and tr: "os_ftruncate no_faults ino (unat n) s1 = (s2, True)" and s': "s' = os_close s2"
    and p: "p = Mapping ino (unat n)" by blast
  note new = open_new [OF assms(1,2) o]
  have s2: "s2 = s1\<lparr>fs_inodes := (fs_inodes s1)(ino := Some (replicate (unat n) 0))\<rparr>"
    and small: "length (replicate (unat n) (0 :: byte)) < 2 ^ 63"
    using tr new(5) by (auto simp: os_ftruncate_def file_bytes_def split: if_splits option.splits)
  note ino = inode_frame [OF new(2) new(4) small s2]
  show "files_ok s'" and "buffer_size b = n" using ino by (simp_all add: s' b)
  show "malloc_buffer_destroy b = Inr" by (simp add: b)
  show "file_contents s' = (file_contents s)(key \<mapsto> replicate (unat n) 0)"
    using ino(2) by (simp add: s' new(3))
  show "mapped_on s' b key" using ino(3,4) by (auto simp: s' b p mapped_on_def)
qed

lemma PmdkFs_find_stored:
  assumes "pmem_maps P" and "files_ok s" and "file_contents s key = Some bs" and "bs \<noteq> []"
  shows "\<exists>s' b. PmdkFs_find P s key = (s', Inr b) \<and> files_ok s' \<and> file_contents s' = file_contents s \<and>
     mapped_on s' b key \<and> unat (buffer_size b) = length bs \<and>
      malloc_buffer_destroy b = (Inr :: 'z file_storage_scheme \<Rightarrow> failure + 'z file_storage_scheme)"
proof -
  from assms(2,3) obtain ino where ino: "fs_names s (key_path s key) = Some (File ino)" "fs_inodes s ino = Some bs"
    by (auto simp: file_contents_Some)
  then have fb: "file_bytes s ino = bs" by (simp add: file_bytes_def)
  then obtain s' p len where m: "pm_map_file P (key_path s key) 0 False s = (s', Some (p, len))"
    using assms(1,4) ino(1) unfolding pmem_maps_def by (metis option.exhaust prod.exhaust snd_conv)
  from map_existing [OF m] ino(1) have s': "s' = os_close (s\<lparr>open_fds := Suc (open_fds s)\<rparr>)"
    and len: "len = of_nat (length bs)" and p: "p = Mapping ino (length bs)"
    using fb by (auto simp: os_open_def no_faults_def)
  have n: "unat len = length bs"
    using assms(2) os_okD(2) [of s, OF _ ino(1)] ino(2)
    by (auto simp: len files_ok_def unat_of_nat take_bit_nat_eq_self)
  have "PmdkFs_find P s key = (s', Inr (Fs_mmap_buffer p len))"
    using ino(1) by (simp add: PmdkFs_find_def fs_exists_def fs_mmap_buffer_load_def m)
  moreover have "mapped_on s' (Fs_mmap_buffer p len) key"
    using ino(1) n by (simp add: mapped_on_def s' p fb)
  ultimately show ?thesis using assms(2) n by (auto simp: s')
qed

lemma PmdkFs_find_missing:
  assumes "files_ok s" and "file_contents s key = None" and "PmdkFs_find P s key = (s', r)"
  shows "isl r" and "file_contents s' = file_contents s"
proof -
  have "isl r \<and> file_contents s' = file_contents s"
  proof (cases "fs_names s (key_path s key)")
    case None
    with assms(3) show ?thesis by (auto simp: PmdkFs_find_def fs_exists_def)
  next
    case (Some nd)
    with assms(1,2) have dir: "fs_names s (key_path s key) = Some Dir" by (simp add: file_contents_None)
    then have ld: "fs_mmap_buffer_load P (key_path s key) s = (s', r)"
      using assms(3) by (simp add: PmdkFs_find_def fs_exists_def)
    obtain s1 x where m: "pm_map_file P (key_path s key) 0 False s = (s1, x)" by fastforce
    have "x = None"
    proof (cases x)
      case (Some pl)
      obtain p len where "pl = (p, len)" by fastforce
      with map_existing [of "key_path s key" s s1 p len] m Some dir show ?thesis
        by (auto simp: os_open_def no_faults_def)
    qed
    with map_failed [of "key_path s key" s s1] m ld show ?thesis
      by (auto simp: fs_mmap_buffer_load_def)
  qed
  then show "isl r" and "file_contents s' = file_contents s" by blast+
qed

end

sublocale libpmem_library \<subseteq> pmdk_fs: storage_contract "FilesystemPMDKStorage F P" files_ok file_key
  file_contents mapped_on "quiet_reads F \<and> pmem_maps P" for F
proof (unfold_locales, unfold FilesystemPMDKStorage_sel PmdkFs_as_Posix)
  show "files_ok s' \<and> mapped_on s' b key \<and> buffer_size b = n \<and>
      malloc_buffer_destroy b = (Inr :: 'z file_storage_scheme \<Rightarrow> failure + 'z file_storage_scheme) \<and>
      (\<exists>bs. length bs = unat n \<and> file_contents s' = (file_contents s)(key \<mapsto> bs))"
    if "quiet_reads F \<and> pmem_maps P" "files_ok s" "file_contents s key = None" "PmdkFs_alloc P s key n = (s', Inr b)" for s s' key n b
    using PmdkFs_alloc_new [OF that(2-)] length_replicate [of "unat n" "0 :: byte"] by blast
  show "\<exists>s' b. PmdkFs_find P s key = (s', Inr b) \<and> files_ok s' \<and> file_contents s' = file_contents s \<and>
      mapped_on s' b key \<and> unat (buffer_size b) = length bs \<and>
      malloc_buffer_destroy b = (Inr :: 'z file_storage_scheme \<Rightarrow> failure + 'z file_storage_scheme)"
    if "quiet_reads F \<and> pmem_maps P" "files_ok s" "file_contents s key = Some bs" "bs \<noteq> []" for s key bs
    using PmdkFs_find_stored that by blast
  show "isl r \<and> file_contents s' = file_contents s"
    if "files_ok s" "file_contents s key = None" "PmdkFs_find P s key = (s', r)" for s s' key r
    using PmdkFs_find_missing [OF that] by blast
  show "files_ok s' \<and> file_contents s' = (file_contents s)(key \<mapsto> bs)"
    if "quiet_reads F \<and> pmem_maps P" "files_ok s" "file_key key" "file_contents s key = None" "os_mem s b = Inr bs" "unat (buffer_size b) = length bs"
      "length bs < 2 ^ 63" "Posix_store F s key b = (s', Inr ())" for s s' key b bs
    using posix.store_new [of F s key b bs s'] that by simp
  show "\<exists>s' b s''. Posix_load F s key = (s', Inr b) \<and> malloc_buffer_destroy b s' = Inr s''"
    if "quiet_reads F \<and> pmem_maps P" "files_ok s" "file_key key" "file_contents s key = Some bs" for s key bs
    using posix.load_returns [of F s key bs] that by simp
qed (use posix.mem_backed posix.set_mem_backed posix.load_stored posix.free_stored
    posix.heap_buffer posix.destroy_frame in \<open>simp_all\<close>)

context libpmem_library
begin

lemma pmdk_fs_contract:
  "storage_contract (FilesystemPMDKStorage F P) files_ok file_key file_contents mapped_on (quiet_reads F \<and> pmem_maps P)"
  by (rule pmdk_fs.storage_contract_axioms)

end

section \<open>A reference instance\<close>

text \<open>\<open>pmem_map_file\<close> by the calls of the operating system model, none of which fails.\<close>

definition ref_map_file ::
    "string \<Rightarrow> size_t \<Rightarrow> bool \<Rightarrow> 'z file_storage_scheme \<Rightarrow> 'z file_storage_scheme \<times> (ptr \<times> size_t) option" where
  "ref_map_file path n create s =
     (case os_open no_faults path create s of
        (s1, None) \<Rightarrow> (s1, None)
      | (s1, Some ino) \<Rightarrow>
          if create then
            (case os_ftruncate no_faults ino (unat n) s1 of
               (s2, False) \<Rightarrow> (os_close s2, None)
             | (s2, True) \<Rightarrow> if n = 0 then (os_close s2, None) else (os_close s2, Some (Mapping ino (unat n), n)))
          else
            (let len = length (file_bytes s ino)
             in if len = 0 then (fail_with ''Invalid argument'' s, None)
                else (os_close s1, Some (Mapping ino len, of_nat len))))"

definition ref_libpmem :: "'z file_storage_scheme libpmem" where
  "ref_libpmem = \<lparr>pm_map_file = ref_map_file, pm_garbage = 0, pm_persist = (\<lambda>_ _ s. s), pm_unmap = (\<lambda>_ _ s. (s, 0))\<rparr>"

lemma ref_pmem_maps [simp]: "pmem_maps ref_libpmem"
  by (simp add: pmem_maps_def ref_libpmem_def ref_map_file_def os_open_def no_faults_def Let_def)

interpretation ref_pmem: libpmem_library ref_libpmem
proof
  show "\<exists>s1 ino s2. os_open no_faults path True s = (s1, Some ino) \<and>
      os_ftruncate no_faults ino (unat n) s1 = (s2, True) \<and> s' = os_close s2 \<and> p = Mapping ino (unat n)"
    if "pm_map_file ref_libpmem path n True s = (s', Some (p, len))" for path n s s' p len
    using that
    by (auto simp: ref_libpmem_def ref_map_file_def split: prod.splits option.splits bool.splits if_splits)
  show "\<exists>s1 ino. os_open no_faults path False s = (s1, Some ino) \<and> s' = os_close s1 \<and>
      len = of_nat (length (file_bytes s ino)) \<and> p = Mapping ino (length (file_bytes s ino))"
    if "pm_map_file ref_libpmem path 0 False s = (s', Some (p, len))" for path s s' p len
    using that
    by (auto simp: ref_libpmem_def ref_map_file_def Let_def split: prod.splits option.splits if_splits)
  show "\<exists>m. s' = fail_with m s"
    if "pm_map_file ref_libpmem path 0 False s = (s', None)" for path s s'
    using that
    by (auto simp: ref_libpmem_def ref_map_file_def Let_def os_open_def no_faults_def
        split: prod.splits option.splits if_splits fnode.splits)
qed (simp_all add: ref_libpmem_def)

end
