(* ===== verification/Pmdk_Hashtable.thy ===== *)
theory Pmdk_Hashtable
  imports Posix
begin

text \<open>
  storage/pmdk_hashtable.h: \<open>PMDKHashtableStorage\<close>, a chained hash table of key entries in a
  pool of libpmemobj. The library is a record of functions over a state of its own type, an
  argument of the definitions; \<open>po_view\<close> is what direct pointers into the open pool show.
  What its documentation promises is the locale \<open>pmemobj_library\<close>.
\<close>

section \<open>Persistent data structures\<close>

text \<open>
  \<open>struct PMEMPointer\<close>, \<open>struct PMEMListArgs\<close>. A typed object id is the number of the object;
  the list links of an entry are in the buckets of the pool's view.
\<close>

record PMEMPointer =
  pp_id_len :: size_t
  pp_id :: bytes
  pp_len :: size_t
  pp_data :: nat

record PMEMListArgs =
  la_id_len :: size_t
  la_id :: string
  la_len :: size_t
  la_data :: nat

text \<open>
  The open pool: the file it lives in, \<open>PMEMPointerTable\<close> (the number of buckets and, for each
  bucket, its entries from the head on), the entries and the data objects.
\<close>

record pool =
  pv_path :: "string option"
  pv_nbuckets :: size_t
  pv_buckets :: "nat \<Rightarrow> nat list"
  pv_entries :: "nat \<Rightarrow> PMEMPointer option"
  pv_bytes :: "nat \<Rightarrow> bytes option"

text \<open>
  The library: \<open>pmemobj_create\<close>, \<open>pmemobj_open\<close> (False for a null pool), \<open>pmemobj_close\<close>, the
  transaction that allocates the zeroed table and sets its number of buckets (False when it
  aborts), \<open>POBJ_ALLOC\<close> with its constructor, \<open>POBJ_LIST_INSERT_NEW_HEAD\<close> with its
  constructor, \<open>POBJ_FREE\<close>, \<open>POBJ_LIST_REMOVE_FREE\<close>, stores through a direct pointer,
  \<open>pmemobj_errormsg\<close>, and the sizes of two structs of its headers. \<open>po_exists\<close> and
  \<open>po_unlink\<close> are \<open>boost::filesystem::exists\<close> and \<open>remove\<close> on the file system of the pools.
\<close>

record 'p pmemobj =
  po_view :: "'p \<Rightarrow> pool"
  po_exists :: "string \<Rightarrow> 'p \<Rightarrow> bool"
  po_unlink :: "string \<Rightarrow> 'p \<Rightarrow> 'p"
  po_create :: "string \<Rightarrow> size_t \<Rightarrow> 'p \<Rightarrow> 'p \<times> bool"
  po_open :: "string \<Rightarrow> 'p \<Rightarrow> 'p \<times> bool"
  po_close :: "'p \<Rightarrow> 'p"
  po_table :: "size_t \<Rightarrow> 'p \<Rightarrow> 'p \<times> bool"
  po_alloc :: "size_t \<Rightarrow> (bytes \<Rightarrow> failure + bytes) \<Rightarrow> 'p \<Rightarrow> 'p \<times> (failure + nat option)"
  po_insert :: "nat \<Rightarrow> (PMEMPointer \<Rightarrow> failure + PMEMPointer) \<Rightarrow> 'p \<Rightarrow> 'p \<times> (failure + nat option)"
  po_free :: "nat \<Rightarrow> 'p \<Rightarrow> 'p"
  po_remove :: "nat \<Rightarrow> nat \<Rightarrow> 'p \<Rightarrow> 'p"
  po_write :: "nat \<Rightarrow> bytes \<Rightarrow> 'p \<Rightarrow> 'p"
  po_errormsg :: "'p \<Rightarrow> string"
  po_errno :: "'p \<Rightarrow> string"
  po_sizeof_header :: size_t
  po_sizeof_list :: size_t
  po_min_pool :: size_t

text \<open>The members \<open>ppool_\<close> (whether it is set) and \<open>nbuckets_\<close>.\<close>

record 'p pmem_state = file_storage +
  ppool :: bool
  nbuckets :: size_t
  pmem :: 'p

section \<open>Keys in entries\<close>

definition key_bytes :: "string \<Rightarrow> bytes" where
  "key_bytes key = map of_char key"

text \<open>\<open>strncmp (a, b, n) == 0\<close>, where reading beyond an argument is out of bounds.\<close>

fun strncmp_eq :: "nat \<Rightarrow> bytes \<Rightarrow> bytes \<Rightarrow> failure + bool" where
  "strncmp_eq 0 a b = Inr True"
| "strncmp_eq (Suc n) (x # a) (y # b) =
     (if x \<noteq> y then Inr False else if x = 0 then Inr True else strncmp_eq n a b)"
| "strncmp_eq (Suc n) _ _ = Inl (Crash Out_of_bounds)"

definition hashfun :: "(string \<Rightarrow> size_t) \<Rightarrow> 'p pmem_state \<Rightarrow> string \<Rightarrow> failure + nat" where
  "hashfun hash s key =
     (if nbuckets s = 0 then Inl (Crash Division_by_zero) else Inr (unat (hash key mod nbuckets s)))"

text \<open>\<open>_add\<close>: the constructor of a list entry. The id of an entry is an array of 512 bytes.\<close>

definition PMDKHashtable_add :: "PMEMListArgs \<Rightarrow> PMEMPointer \<Rightarrow> failure + PMEMPointer" where
  "PMDKHashtable_add info e =
     bind_sum (mem_write (pp_id e) 0 (take (unat (la_id_len info)) (key_bytes (la_id info)))) (\<lambda>m.
       Inr (e\<lparr>pp_id_len := la_id_len info, pp_len := la_len info, pp_id := m, pp_data := la_data info\<rparr>))"

text \<open>\<open>_alloc_str\<close>: the constructor that copies the contents of a buffer.\<close>

definition PMDKHashtable_alloc_str :: "bytes \<Rightarrow> bytes \<Rightarrow> failure + bytes" where
  "PMDKHashtable_alloc_str src dst = mem_write dst 0 src"

text \<open>The memory behind \<open>c_str()\<close> of a buffer: also the objects of the pool.\<close>

definition hash_mem :: "'p pmemobj \<Rightarrow> 'p pmem_state \<Rightarrow> buffer \<Rightarrow> failure + bytes" where
  "hash_mem P s b =
     (case buffer_c_str b of
        Some (Object ob) \<Rightarrow>
          (case pv_bytes (po_view P (pmem s)) ob of
             Some bs \<Rightarrow> mem_read bs 0 (unat (buffer_size b))
           | None \<Rightarrow> Inl (Crash Use_after_free))
      | _ \<Rightarrow> os_mem s b)"

definition hash_set_mem :: "'p pmemobj \<Rightarrow> 'p pmem_state \<Rightarrow> buffer \<Rightarrow> bytes \<Rightarrow> 'p pmem_state" where
  "hash_set_mem P s b bs =
     (case buffer_c_str b of
        Some (Object ob) \<Rightarrow> s\<lparr>pmem := po_write P ob bs (pmem s)\<rparr>
      | _ \<Rightarrow> os_set_mem s b bs)"

section \<open>PMDKHashtableStorage\<close>

text \<open>The two \<open>_stralloc\<close>: of the contents of a buffer, and of a size without a constructor.\<close>

definition PMDKHashtable_stralloc_buf :: "'p pmemobj \<Rightarrow> 'p pmem_state \<Rightarrow> buffer \<Rightarrow> ('p pmem_state, nat) outcome" where
  "PMDKHashtable_stralloc_buf P s buf =
     (if \<not> ppool s then (s, Inl (Crash Null_deref))
      else (case hash_mem P s buf of
        Inl e \<Rightarrow> (s, Inl e)
      | Inr src \<Rightarrow>
          (case po_alloc P (buffer_size buf) (PMDKHashtable_alloc_str src) (pmem s) of
             (p, Inl e) \<Rightarrow> (s\<lparr>pmem := p\<rparr>, Inl e)
           | (p, Inr None) \<Rightarrow>
               (s\<lparr>pmem := p\<rparr>, Inl (throw_error PMDK_CANT_ALLOCATE_STR [mb_arg (buffer_size buf), Arg_of_cstr (Some (po_errormsg P p))]))
           | (p, Inr (Some ob)) \<Rightarrow> (s\<lparr>pmem := p\<rparr>, Inr ob))))"

definition PMDKHashtable_stralloc :: "'p pmemobj \<Rightarrow> 'p pmem_state \<Rightarrow> size_t \<Rightarrow> ('p pmem_state, nat) outcome" where
  "PMDKHashtable_stralloc P s n =
     (if \<not> ppool s then (s, Inl (Crash Null_deref))
      else (case po_alloc P n Inr (pmem s) of
        (p, Inl e) \<Rightarrow> (s\<lparr>pmem := p\<rparr>, Inl e)
      | (p, Inr None) \<Rightarrow>
          (s\<lparr>pmem := p\<rparr>, Inl (throw_error PMDK_CANT_ALLOCATE_STR [mb_arg n, Arg_of_cstr (Some (po_errormsg P p))]))
      | (p, Inr (Some ob)) \<Rightarrow> (s\<lparr>pmem := p\<rparr>, Inr ob)))"

text \<open>The insertion both \<open>alloc\<close> and \<open>store\<close> end with: a null result is formatted, not thrown.\<close>

definition PMDKHashtable_insert ::
    "'p pmemobj \<Rightarrow> 'p pmem_state \<Rightarrow> nat \<Rightarrow> PMEMListArgs \<Rightarrow> Arg \<Rightarrow> ('p pmem_state, unit) outcome" where
  "PMDKHashtable_insert P s i info size_arg =
     (case po_insert P i (PMDKHashtable_add info) (pmem s) of
        (p, Inl e) \<Rightarrow> (s\<lparr>pmem := p\<rparr>, Inl e)
      | (p, Inr None) \<Rightarrow>
          (s\<lparr>pmem := p\<rparr>,
           format_and_drop PMDK_CANT_ALLOCATE_OBJ [Arg_str (la_id info), size_arg, Arg_of_cstr (Some (po_errormsg P p))])
      | (p, Inr (Some ob)) \<Rightarrow> (s\<lparr>pmem := p\<rparr>, Inr ()))"

definition PMDKHashtable_alloc ::
    "(string \<Rightarrow> size_t) \<Rightarrow> 'p pmemobj \<Rightarrow> 'p pmem_state \<Rightarrow> string \<Rightarrow> size_t \<Rightarrow> ('p pmem_state, buffer) outcome" where
  "PMDKHashtable_alloc hash P s key n =
     (case hashfun hash s key of
        Inl e \<Rightarrow> (s, Inl e)
      | Inr i \<Rightarrow>
          bind_out (PMDKHashtable_stralloc P s n) (\<lambda>s1 ob.
            (let info = \<lparr>la_id_len = of_nat (length key), la_id = key, la_len = n, la_data = ob\<rparr>
             in bind_out (PMDKHashtable_insert P s1 i info (Arg_u64 n)) (\<lambda>s2 _.
                  (s2, Inr (Pmem_buffer (Object ob) n))))))"

definition PMDKHashtable_store ::
    "(string \<Rightarrow> size_t) \<Rightarrow> 'p pmemobj \<Rightarrow> 'p pmem_state \<Rightarrow> string \<Rightarrow> buffer \<Rightarrow> ('p pmem_state, unit) outcome" where
  "PMDKHashtable_store hash P s key src =
     (case hashfun hash s key of
        Inl e \<Rightarrow> (s, Inl e)
      | Inr i \<Rightarrow>
          bind_out (PMDKHashtable_stralloc_buf P s src) (\<lambda>s1 ob.
            (let info = \<lparr>la_id_len = of_nat (length key), la_id = key, la_len = buffer_size src, la_data = ob\<rparr>
             in PMDKHashtable_insert P s1 i info (mb_arg (buffer_size src)))))"

text \<open>The loop \<open>POBJ_LIST_FOREACH\<close> of \<open>_find\<close>.\<close>

fun find_entry :: "pool \<Rightarrow> string \<Rightarrow> nat list \<Rightarrow> failure + nat option" where
  "find_entry v key [] = Inr None"
| "find_entry v key (ob # obs) =
     (case pv_entries v ob of
        None \<Rightarrow> Inl (Crash Use_after_free)
      | Some e \<Rightarrow>
          if pp_id_len e = of_nat (length key) then
            bind_sum (strncmp_eq (unat (pp_id_len e)) (pp_id e) (key_bytes key @ [0])) (\<lambda>eq.
              if eq then Inr (Some ob) else find_entry v key obs)
          else find_entry v key obs)"

text \<open>\<open>_find\<close>: the entry and its bucket.\<close>

definition PMDKHashtable_find_entry ::
    "(string \<Rightarrow> size_t) \<Rightarrow> 'p pmemobj \<Rightarrow> 'p pmem_state \<Rightarrow> string \<Rightarrow> failure + nat \<times> nat \<times> PMEMPointer" where
  "PMDKHashtable_find_entry hash P s key =
     bind_sum (hashfun hash s key) (\<lambda>i.
       if \<not> ppool s then Inl (Crash Null_deref)
       else
         (let v = po_view P (pmem s)
          in bind_sum (find_entry v key (pv_buckets v i)) (\<lambda>r.
               (case r of
                  None \<Rightarrow> Inl (throw_error PMDK_CANT_FIND_KEY [Arg_str key])
                | Some ob \<Rightarrow>
                    (case pv_entries v ob of
                       Some e \<Rightarrow> Inr (i, ob, e)
                     | None \<Rightarrow> Inl (Crash Use_after_free))))))"

definition PMDKHashtable_find ::
    "(string \<Rightarrow> size_t) \<Rightarrow> 'p pmemobj \<Rightarrow> 'p pmem_state \<Rightarrow> string \<Rightarrow> ('p pmem_state, buffer) outcome" where
  "PMDKHashtable_find hash P s key =
     (case PMDKHashtable_find_entry hash P s key of
        Inl e \<Rightarrow> (s, Inl e)
      | Inr (i, ob, e) \<Rightarrow> (s, Inr (Pmem_buffer (Object (pp_data e)) (pp_len e))))"

definition PMDKHashtable_load ::
    "(string \<Rightarrow> size_t) \<Rightarrow> 'p pmemobj \<Rightarrow> 'p pmem_state \<Rightarrow> string \<Rightarrow> ('p pmem_state, buffer) outcome" where
  "PMDKHashtable_load hash P s key =
     (case PMDKHashtable_find_entry hash P s key of
        Inl e \<Rightarrow> (s, Inl e)
      | Inr (i, ob, e) \<Rightarrow>
          (case malloc (unat (pp_len e)) s of (s1, q) \<Rightarrow>
             (case bind_sum (hash_mem P s1 (Pmem_buffer (Object (pp_data e)) (pp_len e))) (poke s1 q) of
                Inl err \<Rightarrow> (s1, Inl err)
              | Inr s2 \<Rightarrow> (s2, Inr (Malloc_buffer q (pp_len e))))))"

definition PMDKHashtable_free ::
    "(string \<Rightarrow> size_t) \<Rightarrow> 'p pmemobj \<Rightarrow> 'p pmem_state \<Rightarrow> string \<Rightarrow> ('p pmem_state, unit) outcome" where
  "PMDKHashtable_free hash P s key =
     (case PMDKHashtable_find_entry hash P s key of
        Inl e \<Rightarrow> (s, Inl e)
      | Inr (i, ob, e) \<Rightarrow>
          (s\<lparr>pmem := po_remove P i ob (po_free P (pp_data e) (pmem s))\<rparr>, Inr ()))"

definition PMDKHashtable_munmap :: "'p pmemobj \<Rightarrow> 'p pmem_state \<Rightarrow> ('p pmem_state, unit) outcome" where
  "PMDKHashtable_munmap P s =
     (if ppool s then (s\<lparr>pmem := po_close P (pmem s), ppool := False\<rparr>, Inr ()) else (s, Inr ()))"

definition PMDKHashtable_release :: "'p pmemobj \<Rightarrow> 'p pmem_state \<Rightarrow> string \<Rightarrow> ('p pmem_state, unit) outcome" where
  "PMDKHashtable_release P s path = (s\<lparr>pmem := po_unlink P path (pmem s)\<rparr>, Inr ())"

text \<open>\<open>_create\<close>: a pool that is too small is only formatted as an error, not refused.\<close>

definition min_pool_size :: "'p pmemobj \<Rightarrow> size_t \<Rightarrow> size_t" where
  "min_pool_size P nb = po_sizeof_header P + 32 * nb * po_sizeof_list P"

definition PMDKHashtable_create ::
    "'p pmemobj \<Rightarrow> 'p pmem_state \<Rightarrow> string \<Rightarrow> size_t \<Rightarrow> size_t \<Rightarrow> ('p pmem_state, unit) outcome" where
  "PMDKHashtable_create P s path n nb =
     bind_out
       (s, if n < min_pool_size P nb
           then format_and_drop PMDK_HASH_POOL_TOO_SMALL [Arg_u64 n, Arg_u64 nb, Arg_u64 (min_pool_size P nb)]
           else Inr ())
       (\<lambda>s _.
          (case po_create P path n (pmem s) of
             (p, False) \<Rightarrow>
               (s\<lparr>pmem := p, ppool := False, nbuckets := nb\<rparr>,
                Inl (throw_error PMDK_HASH_POOL_FAILED [Arg_str path, mb_arg n, Arg_u64 nb, Arg_str (po_errno P p)]))
           | (p, True) \<Rightarrow>
               (case po_table P nb p of
                  (p', True) \<Rightarrow> (s\<lparr>pmem := p', ppool := True, nbuckets := nb\<rparr>, Inr ())
                | (p', False) \<Rightarrow>
                    bind_out (PMDKHashtable_release P (s\<lparr>pmem := p', ppool := True, nbuckets := nb\<rparr>) path) (\<lambda>s1 _.
                      (s1, Inl (throw_error PMDK_CREATE_HEADER_FAILED
                         [Arg_str path, Arg_u64 n, Arg_u64 nb, Arg_str (po_errno P (pmem s1))]))))))"

definition PMDKHashtable_open :: "'p pmemobj \<Rightarrow> 'p pmem_state \<Rightarrow> string \<Rightarrow> ('p pmem_state, unit) outcome" where
  "PMDKHashtable_open P s path =
     (case po_open P path (pmem s) of
        (p, False) \<Rightarrow>
          (s\<lparr>pmem := p, ppool := False\<rparr>, Inl (throw_error PMDK_CANT_OPEN_POOL [Arg_str path, Arg_str (po_errno P p)]))
      | (p, True) \<Rightarrow> (s\<lparr>pmem := p, ppool := True, nbuckets := pv_nbuckets (po_view P p)\<rparr>, Inr ()))"

definition PMDKHashtable_mmap :: "'p pmemobj \<Rightarrow> 'p pmem_state \<Rightarrow> string \<Rightarrow> size_t \<Rightarrow> ('p pmem_state, unit) outcome" where
  "PMDKHashtable_mmap P s path n =
     (if \<not> po_exists P path (pmem s)
      then PMDKHashtable_create P s path (if n = 0 then po_min_pool P else n) 1000
      else PMDKHashtable_open P s path)"

definition PMDKHashtableStorage :: "(string \<Rightarrow> size_t) \<Rightarrow> 'p pmemobj \<Rightarrow> 'p pmem_state storage" where
  "PMDKHashtableStorage hash P =
     \<lparr>s_mmap = PMDKHashtable_mmap P, s_munmap = PMDKHashtable_munmap P, s_release = PMDKHashtable_release P,
      s_alloc = PMDKHashtable_alloc hash P, s_store = PMDKHashtable_store hash P,
      s_find = PMDKHashtable_find hash P, s_load = PMDKHashtable_load hash P,
      s_free = PMDKHashtable_free hash P, s_mem = hash_mem P, s_set_mem = hash_set_mem P\<rparr>"

lemma PMDKHashtableStorage_sel [simp]:
  "s_mmap (PMDKHashtableStorage hash P) = PMDKHashtable_mmap P"
  "s_munmap (PMDKHashtableStorage hash P) = PMDKHashtable_munmap P"
  "s_release (PMDKHashtableStorage hash P) = PMDKHashtable_release P"
  "s_alloc (PMDKHashtableStorage hash P) = PMDKHashtable_alloc hash P"
  "s_store (PMDKHashtableStorage hash P) = PMDKHashtable_store hash P"
  "s_find (PMDKHashtableStorage hash P) = PMDKHashtable_find hash P"
  "s_load (PMDKHashtableStorage hash P) = PMDKHashtable_load hash P"
  "s_free (PMDKHashtableStorage hash P) = PMDKHashtable_free hash P"
  "s_mem (PMDKHashtableStorage hash P) = hash_mem P"
  "s_set_mem (PMDKHashtableStorage hash P) = hash_set_mem P"
  by (simp_all add: PMDKHashtableStorage_def)

section \<open>The table as a map\<close>

text \<open>
  A key that an entry can hold and that \<open>strncmp\<close> compares in full: at most 512 bytes, no NUL.
\<close>

definition hash_key :: "string \<Rightarrow> bool" where
  "hash_key key \<longleftrightarrow> length key \<le> 512 \<and> CHR 0x00 \<notin> set key"

definition entry_key :: "PMEMPointer \<Rightarrow> bytes" where
  "entry_key e = take (unat (pp_id_len e)) (pp_id e)"

abbreviation entry_at :: "pool \<Rightarrow> nat \<Rightarrow> PMEMPointer" where
  "entry_at v ob \<equiv> the (pv_entries v ob)"

definition lookup_object :: "pool \<Rightarrow> nat \<Rightarrow> bytes \<Rightarrow> nat option" where
  "lookup_object v i kb = List.find (\<lambda>ob. entry_key (entry_at v ob) = kb) (pv_buckets v i)"

definition lookup :: "pool \<Rightarrow> nat \<Rightarrow> bytes \<Rightarrow> bytes option" where
  "lookup v i kb =
     (case lookup_object v i kb of
        Some ob \<Rightarrow> pv_bytes v (pp_data (entry_at v ob))
      | None \<Rightarrow> None)"

definition entry_ok :: "pool \<Rightarrow> PMEMPointer \<Rightarrow> bool" where
  "entry_ok v e \<longleftrightarrow>
     length (pp_id e) = 512 \<and> unat (pp_id_len e) \<le> 512 \<and>
     (\<exists>bs. pv_bytes v (pp_data e) = Some bs \<and> length bs = unat (pp_len e))"

text \<open>
  The structure of the table: bucket lists are disjoint and without repetitions, their
  entries exist and own their data.
\<close>

definition table_ok :: "pool \<Rightarrow> bool" where
  "table_ok v \<longleftrightarrow>
     (\<forall>i. distinct (pv_buckets v i)) \<and>
     (\<forall>i j ob. ob \<in> set (pv_buckets v i) \<longrightarrow> ob \<in> set (pv_buckets v j) \<longrightarrow> i = j) \<and>
     (\<forall>i ob. ob \<in> set (pv_buckets v i) \<longrightarrow> (\<exists>e. pv_entries v ob = Some e \<and> entry_ok v e)) \<and>
     (\<forall>i j a b. a \<in> set (pv_buckets v i) \<longrightarrow> b \<in> set (pv_buckets v j) \<longrightarrow>
        pp_data (entry_at v a) = pp_data (entry_at v b) \<longrightarrow> a = b)"

text \<open>No key is stored twice.\<close>

definition keys_unique :: "pool \<Rightarrow> bool" where
  "keys_unique v \<longleftrightarrow> (\<forall>i. distinct (map (\<lambda>ob. entry_key (entry_at v ob)) (pv_buckets v i)))"

lemma table_okD:
  assumes "table_ok v"
  shows "distinct (pv_buckets v i)"
    and "ob \<in> set (pv_buckets v i) \<Longrightarrow> ob \<in> set (pv_buckets v j) \<Longrightarrow> i = j"
    and "ob \<in> set (pv_buckets v i) \<Longrightarrow> \<exists>e. pv_entries v ob = Some e \<and> entry_ok v e"
    and "a \<in> set (pv_buckets v i) \<Longrightarrow> b \<in> set (pv_buckets v j) \<Longrightarrow>
      pp_data (entry_at v a) = pp_data (entry_at v b) \<Longrightarrow> a = b"
  using assms unfolding table_ok_def by blast+

lemma table_okI:
  assumes "\<And>i. distinct (pv_buckets v i)"
    and "\<And>i j ob. ob \<in> set (pv_buckets v i) \<Longrightarrow> ob \<in> set (pv_buckets v j) \<Longrightarrow> i = j"
    and "\<And>i ob. ob \<in> set (pv_buckets v i) \<Longrightarrow> \<exists>e. pv_entries v ob = Some e \<and> entry_ok v e"
    and "\<And>i j a b. a \<in> set (pv_buckets v i) \<Longrightarrow> b \<in> set (pv_buckets v j) \<Longrightarrow>
      pp_data (entry_at v a) = pp_data (entry_at v b) \<Longrightarrow> a = b"
  shows "table_ok v"
  using assms unfolding table_ok_def by blast

lemma lookup_object_Some:
  "lookup_object v i kb = Some ob \<Longrightarrow> ob \<in> set (pv_buckets v i) \<and> entry_key (entry_at v ob) = kb"
  by (auto simp: lookup_object_def find_Some_iff)

lemma lookup_eq_None: "table_ok v \<Longrightarrow> lookup v i kb = None \<longleftrightarrow> lookup_object v i kb = None"
proof -
  assume ok: "table_ok v"
  have "pv_bytes v (pp_data (entry_at v ob)) \<noteq> None" if "lookup_object v i kb = Some ob" for ob
    using table_okD(3) [OF ok, of ob i] lookup_object_Some [OF that] by (auto simp: entry_ok_def)
  then show ?thesis by (auto simp: lookup_def split: option.splits)
qed

subsection \<open>Insertion, overwriting and removal on the table\<close>

definition inserted :: "nat \<Rightarrow> nat \<Rightarrow> PMEMPointer \<Rightarrow> bytes \<Rightarrow> pool \<Rightarrow> pool" where
  "inserted i ob e bs v =
     v\<lparr>pv_bytes := (pv_bytes v)(pp_data e := Some bs), pv_entries := (pv_entries v)(ob := Some e),
       pv_buckets := (pv_buckets v)(i := ob # pv_buckets v i)\<rparr>"

definition removed :: "nat \<Rightarrow> nat \<Rightarrow> pool \<Rightarrow> pool" where
  "removed i ob v =
     v\<lparr>pv_bytes := (pv_bytes v)(pp_data (entry_at v ob) := None), pv_entries := (pv_entries v)(ob := None),
       pv_buckets := (pv_buckets v)(i := remove1 ob (pv_buckets v i))\<rparr>"

lemma entry_ok_bytes:
  "entry_ok v e \<Longrightarrow> pv_bytes v' (pp_data e) = pv_bytes v (pp_data e) \<Longrightarrow> entry_ok v' e"
  by (simp add: entry_ok_def)

lemma inserted_table:
  assumes ok: "table_ok v" and "pv_entries v ob = None" and "pv_bytes v (pp_data e) = None"
    and "length (pp_id e) = 512" and "unat (pp_id_len e) \<le> 512" and "length bs = unat (pp_len e)"
  shows "table_ok (inserted i ob e bs v)"
    and "lookup (inserted i ob e bs v) j kb = (if j = i \<and> kb = entry_key e then Some bs else lookup v j kb)"
proof -
  let ?v = "inserted i ob e bs v"
  have old: "pv_entries ?v a = pv_entries v a" "a \<noteq> ob"
    "pp_data (entry_at v a) \<noteq> pp_data e" "\<exists>e'. pv_entries v a = Some e' \<and> entry_ok ?v e'"
    if a: "a \<in> set (pv_buckets v m)" for a m
  proof -
    obtain e' where e': "pv_entries v a = Some e'" "entry_ok v e'" using table_okD(3) [OF ok a] by blast
    then show ne: "a \<noteq> ob" and ne': "pp_data (entry_at v a) \<noteq> pp_data e"
      using assms(2,3) by (auto simp: entry_ok_def)
    from ne show "pv_entries ?v a = pv_entries v a" by (simp add: inserted_def)
    from e' ne' show "\<exists>e'. pv_entries v a = Some e' \<and> entry_ok ?v e'"
      by (auto simp: inserted_def intro: entry_ok_bytes)
  qed
  have new: "pv_entries ?v ob = Some e" "entry_ok ?v e" using assms(4-6) by (simp_all add: inserted_def entry_ok_def)
  have bucket: "a \<in> set (pv_buckets ?v m) \<longleftrightarrow> (m = i \<and> a = ob) \<or> a \<in> set (pv_buckets v m)" for a m
    by (auto simp: inserted_def)
  show "table_ok ?v"
  proof (rule table_okI)
    show "distinct (pv_buckets ?v m)" for m
      using table_okD(1) [OF ok] old(2) [of ob i] by (auto simp: inserted_def)
    show "m = n" if "a \<in> set (pv_buckets ?v m)" "a \<in> set (pv_buckets ?v n)" for m n a
      using that old(2) table_okD(2) [OF ok] unfolding bucket by blast
    show "\<exists>e. pv_entries ?v a = Some e \<and> entry_ok ?v e" if "a \<in> set (pv_buckets ?v m)" for m a
      using that old new unfolding bucket by metis
    show "a = b" if "a \<in> set (pv_buckets ?v m)" "b \<in> set (pv_buckets ?v n)"
      "pp_data (entry_at ?v a) = pp_data (entry_at ?v b)" for m n a b
      using that old(1,3) new(1) table_okD(4) [OF ok] unfolding bucket by (metis option.sel)
  qed
  have same: "lookup ?v m kb = lookup v m kb" if "m \<noteq> i \<or> entry_key e \<noteq> kb" for m
  proof -
    have "lookup_object ?v m kb = lookup_object v m kb"
    proof -
      have "List.find (\<lambda>a. entry_key (entry_at ?v a) = kb) (pv_buckets v m) =
          List.find (\<lambda>a. entry_key (entry_at v a) = kb) (pv_buckets v m)"
        by (rule find_cong) (auto simp: old(1))
      moreover have "pv_buckets ?v m = (if m = i then ob # pv_buckets v i else pv_buckets v m)"
        by (simp add: inserted_def)
      ultimately show ?thesis using that new(1) by (auto simp: lookup_object_def)
    qed
    moreover have "pv_bytes ?v (pp_data (entry_at ?v a)) = pv_bytes v (pp_data (entry_at v a))"
      if "lookup_object v m kb = Some a" for a
      using old(1,3) [of a m] lookup_object_Some [OF that] by (simp add: inserted_def)
    ultimately show ?thesis by (auto simp: lookup_def split: option.splits)
  qed
  show "lookup ?v j kb = (if j = i \<and> kb = entry_key e then Some bs else lookup v j kb)"
  proof (cases "j = i \<and> kb = entry_key e")
    case True
    then show ?thesis by (simp add: lookup_def lookup_object_def inserted_def)
  next
    case False
    then show ?thesis using same [of j] by auto
  qed
qed

text \<open>Stores through the pointer of an entry's data change the value of its key only.\<close>

lemma written_table:
  assumes ok: "table_ok v" and at: "lookup_object v i kb = Some ob" and d: "d = pp_data (entry_at v ob)"
    and "pv_bytes v d = Some old" and "length bs = length old"
  shows "table_ok (v\<lparr>pv_bytes := (pv_bytes v)(d := Some bs)\<rparr>)"
    and "lookup (v\<lparr>pv_bytes := (pv_bytes v)(d := Some bs)\<rparr>) j k =
      (if lookup_object v j k = Some ob then Some bs else lookup v j k)"
proof -
  let ?v = "v\<lparr>pv_bytes := (pv_bytes v)(d := Some bs)\<rparr>"
  have entry: "entry_ok ?v e" if "entry_ok v e" for e
    using that assms(4,5) by (cases "pp_data e = d") (auto simp: entry_ok_def)
  show "table_ok ?v"
  proof (rule table_okI)
    show "\<exists>e. pv_entries ?v a = Some e \<and> entry_ok ?v e" if "a \<in> set (pv_buckets ?v m)" for m a
      using table_okD(3) [OF ok, of a m] that entry by auto
    show "a = b" if "a \<in> set (pv_buckets ?v m)" "b \<in> set (pv_buckets ?v n)"
      "pp_data (entry_at ?v a) = pp_data (entry_at ?v b)" for m n a b
      using table_okD(4) [OF ok, of a m b n] that by simp
  qed (use table_okD(1,2) [OF ok] in auto)
  have obj: "lookup_object ?v j k = lookup_object v j k" by (simp add: lookup_object_def)
  have other: "pp_data (entry_at v a) \<noteq> d" if "lookup_object v j k = Some a" "a \<noteq> ob" for a
    using table_okD(4) [OF ok, of a j ob i] lookup_object_Some [OF at] lookup_object_Some [OF that(1)] that(2)
    by (auto simp: d)
  show "lookup ?v j k = (if lookup_object v j k = Some ob then Some bs else lookup v j k)"
    using other by (auto simp: lookup_def obj d [symmetric] split: option.splits)
qed

lemma removed_table:
  assumes ok: "table_ok v" and at: "ob \<in> set (pv_buckets v i)"
  shows "table_ok (removed i ob v)"
    and "j \<noteq> i \<or> k \<noteq> entry_key (entry_at v ob) \<Longrightarrow> lookup (removed i ob v) j k = lookup v j k"
proof -
  let ?v = "removed i ob v"
  have bucket: "a \<in> set (pv_buckets ?v m) \<longleftrightarrow> a \<in> set (pv_buckets v m) \<and> a \<noteq> ob" for a m
    using table_okD(1) [OF ok, of i] table_okD(2) [OF ok at, of m] by (auto simp: removed_def)
  have old: "pv_entries ?v a = pv_entries v a" "\<exists>e'. pv_entries v a = Some e' \<and> entry_ok ?v e'"
    "pv_bytes ?v (pp_data (entry_at v a)) = pv_bytes v (pp_data (entry_at v a))"
    if a: "a \<in> set (pv_buckets v m)" "a \<noteq> ob" for a m
  proof -
    obtain e' where e': "pv_entries v a = Some e'" "entry_ok v e'" using table_okD(3) [OF ok a(1)] by blast
    have ne: "pp_data (entry_at v a) \<noteq> pp_data (entry_at v ob)"
      using table_okD(4) [OF ok a(1) at] a(2) by blast
    show "pv_entries ?v a = pv_entries v a" using a(2) by (simp add: removed_def)
    show d: "pv_bytes ?v (pp_data (entry_at v a)) = pv_bytes v (pp_data (entry_at v a))"
      using ne by (simp add: removed_def)
    then show "\<exists>e'. pv_entries v a = Some e' \<and> entry_ok ?v e'"
      using e' by (auto intro: entry_ok_bytes)
  qed
  show "table_ok ?v"
  proof (rule table_okI)
    show "distinct (pv_buckets ?v m)" for m
      using table_okD(1) [OF ok] by (simp add: removed_def)
    show "m = n" if "a \<in> set (pv_buckets ?v m)" "a \<in> set (pv_buckets ?v n)" for m n a
      using that table_okD(2) [OF ok] unfolding bucket by blast
    show "\<exists>e. pv_entries ?v a = Some e \<and> entry_ok ?v e" if "a \<in> set (pv_buckets ?v m)" for m a
      using that old unfolding bucket by metis
    show "a = b" if "a \<in> set (pv_buckets ?v m)" "b \<in> set (pv_buckets ?v n)"
      "pp_data (entry_at ?v a) = pp_data (entry_at ?v b)" for m n a b
      using that old(1) table_okD(4) [OF ok] unfolding bucket by metis
  qed
  show "lookup ?v j k = lookup v j k" if k: "j \<noteq> i \<or> k \<noteq> entry_key (entry_at v ob)"
  proof -
    have rm: "List.find f (remove1 x xs) = List.find f xs" if "\<not> f x" for f and x :: nat and xs
      using that by (induction xs) auto
    have not_ob: "a \<noteq> ob" if "lookup_object v j k = Some a" for a
      using lookup_object_Some [OF that] k table_okD(2) [OF ok at, of j] by auto
    have "List.find (\<lambda>a. entry_key (entry_at ?v a) = k) (pv_buckets ?v j) =
        List.find (\<lambda>a. entry_key (entry_at v a) = k) (pv_buckets ?v j)"
      by (rule find_cong) (use old(1) bucket in auto)
    also have "\<dots> = List.find (\<lambda>a. entry_key (entry_at v a) = k) (pv_buckets v j)"
      using k by (auto simp: removed_def rm)
    finally have "lookup_object ?v j k = lookup_object v j k" by (simp add: lookup_object_def)
    then show ?thesis
      using old(1,3) not_ob lookup_object_Some [of v j k] by (auto simp: lookup_def split: option.splits)
  qed
qed

text \<open>Removal of what was inserted last reveals what the table held before.\<close>

lemma removed_inserted:
  "pv_entries v ob = None \<Longrightarrow> pv_bytes v (pp_data e) = None \<Longrightarrow> removed i ob (inserted i ob e bs v) = v"
  by (simp add: removed_def inserted_def fun_upd_idem)

section \<open>The code's search is the lookup\<close>

lemma of_char_byte_inject [simp]: "(of_char c :: byte) = of_char d \<longleftrightarrow> c = d"
proof
  assume "(of_char c :: byte) = of_char d"
  then have "unat (of_nat (of_char c) :: byte) = unat (of_nat (of_char d) :: byte)"
    by (simp add: of_nat_of_char)
  moreover have "(of_char x :: nat) < 256" for x :: char by simp
  ultimately have "(of_char c :: nat) = of_char d"
    by (simp add: unat_of_nat take_bit_nat_eq_self)
  then show "c = d" by simp
qed simp

lemma key_bytes_inject [simp]: "key_bytes k = key_bytes k' \<longleftrightarrow> k = k'"
  by (auto simp: key_bytes_def inj_map_eq_map inj_def)

lemma length_key_bytes [simp]: "length (key_bytes k) = length k"
  by (simp add: key_bytes_def)

lemma zero_in_key_bytes [simp]: "0 \<in> set (key_bytes k) \<longleftrightarrow> CHR 0x00 \<in> set k"
proof -
  have "of_char c = (0 :: byte) \<longleftrightarrow> c = CHR 0x00" for c
    using of_char_byte_inject [of c "CHR 0x00"] by simp
  then show ?thesis by (force simp: key_bytes_def)
qed

lemma strncmp_eq_no_nul:
  "length kb = n \<Longrightarrow> n \<le> length a \<Longrightarrow> 0 \<notin> set kb \<Longrightarrow> strncmp_eq n a (kb @ r) = Inr (take n a = kb)"
proof (induction n arbitrary: a kb)
  case (Suc n)
  then obtain x a' y kb' where "a = x # a'" "kb = y # kb'" by (cases a; cases kb) auto
  with Suc show ?case by auto
qed simp

text \<open>With a NUL in the key, entries that differ after it are taken for the key.\<close>

lemma strncmp_eq_nul: "strncmp_eq (Suc n) (0 # a) (0 # b) = Inr True"
  by simp

lemma find_entry_spec:
  assumes "\<forall>ob \<in> set obs. \<exists>e. pv_entries v ob = Some e \<and> entry_ok v e" and "hash_key key"
  shows "find_entry v key obs = Inr (List.find (\<lambda>ob. entry_key (entry_at v ob) = key_bytes key) obs)"
  using assms(1)
proof (induction obs)
  case (Cons ob obs)
  then obtain e where e: "pv_entries v ob = Some e" "entry_ok v e" by auto
  have key: "length key \<le> 512" "0 \<notin> set (key_bytes key)" using assms(2) by (simp_all add: hash_key_def)
  have len: "pp_id_len e = of_nat (length key) \<longleftrightarrow> unat (pp_id_len e) = length key"
  proof
    assume "unat (pp_id_len e) = length key"
    then show "pp_id_len e = of_nat (length key)" by (rule word_of_length [OF sym, symmetric])
  qed (use key(1) in simp)
  have "length (entry_key e) = unat (pp_id_len e)" using e(2) by (auto simp: entry_key_def entry_ok_def)
  moreover have "strncmp_eq (unat (pp_id_len e)) (pp_id e) (key_bytes key @ [0]) = Inr (entry_key e = key_bytes key)"
    if "unat (pp_id_len e) = length key"
    using e(2) key that by (subst strncmp_eq_no_nul) (auto simp: entry_ok_def entry_key_def)
  ultimately show ?case using Cons e(1) len by (auto dest: arg_cong [where f = length])
qed simp

definition bucket_of :: "(string \<Rightarrow> size_t) \<Rightarrow> 'p pmem_state \<Rightarrow> string \<Rightarrow> nat" where
  "bucket_of hash s key = unat (hash key mod nbuckets s)"

definition hash_contents :: "(string \<Rightarrow> size_t) \<Rightarrow> 'p pmemobj \<Rightarrow> 'p pmem_state \<Rightarrow> string \<Rightarrow> bytes option" where
  "hash_contents hash P s key =
     (if hash_key key then lookup (po_view P (pmem s)) (bucket_of hash s key) (key_bytes key) else None)"

definition hash_ok :: "'p pmemobj \<Rightarrow> ('p \<Rightarrow> bool) \<Rightarrow> 'p pmem_state \<Rightarrow> bool" where
  "hash_ok P po_ok s \<longleftrightarrow>
     heap_ok s \<and> ppool s \<and> nbuckets s \<noteq> 0 \<and> po_ok (pmem s) \<and>
     table_ok (po_view P (pmem s)) \<and> keys_unique (po_view P (pmem s))"

definition hash_backs :: "(string \<Rightarrow> size_t) \<Rightarrow> 'p pmemobj \<Rightarrow> 'p pmem_state \<Rightarrow> buffer \<Rightarrow> string \<Rightarrow> bool" where
  "hash_backs hash P s b key \<longleftrightarrow>
     hash_key key \<and>
     (case lookup_object (po_view P (pmem s)) (bucket_of hash s key) (key_bytes key) of
        Some ob \<Rightarrow>
          (let e = entry_at (po_view P (pmem s)) ob in b = Pmem_buffer (Object (pp_data e)) (pp_len e))
      | None \<Rightarrow> False)"

definition inserts_succeed :: "'p pmemobj \<Rightarrow> bool" where
  "inserts_succeed P \<longleftrightarrow> (\<forall>i c p. snd (po_insert P i c p) \<noteq> Inr None)"

lemma hash_find_entry:
  assumes "ppool s" and "nbuckets s \<noteq> 0" and "table_ok (po_view P (pmem s))" and "hash_key key"
  shows "PMDKHashtable_find_entry hash P s key =
    (case lookup_object (po_view P (pmem s)) (bucket_of hash s key) (key_bytes key) of
       None \<Rightarrow> Inl (throw_error PMDK_CANT_FIND_KEY [Arg_str key])
     | Some ob \<Rightarrow> Inr (bucket_of hash s key, ob, entry_at (po_view P (pmem s)) ob))"
proof -
  let ?v = "po_view P (pmem s)" and ?i = "bucket_of hash s key"
  have "\<forall>ob \<in> set (pv_buckets ?v ?i). \<exists>e. pv_entries ?v ob = Some e \<and> entry_ok ?v e"
    using table_okD(3) [OF assms(3)] by blast
  from find_entry_spec [OF this assms(4)]
  have "find_entry ?v key (pv_buckets ?v ?i) = Inr (lookup_object ?v ?i (key_bytes key))"
    by (simp add: lookup_object_def)
  moreover have "pv_entries ?v ob = Some (entry_at ?v ob)" if "lookup_object ?v ?i (key_bytes key) = Some ob" for ob
    using table_okD(3) [OF assms(3)] lookup_object_Some [OF that] by force
  ultimately show ?thesis
    using assms(1,2) by (auto simp: PMDKHashtable_find_entry_def hashfun_def bucket_of_def split: option.splits)
qed

text \<open>What the constructor makes of fresh memory.\<close>

lemma add_entry:
  assumes "hash_key key" and "length (pp_id raw) = 512"
    and "PMDKHashtable_add \<lparr>la_id_len = of_nat (length key), la_id = key, la_len = n, la_data = d\<rparr> raw = Inr e"
  shows "entry_key e = key_bytes key" and "length (pp_id e) = 512" and "unat (pp_id_len e) \<le> 512"
    and "pp_len e = n" and "pp_data e = d"
proof -
  have len: "length key \<le> 512" using assms(1) by (simp add: hash_key_def)
  then have n: "unat (of_nat (length key) :: size_t) = length key"
    by (simp add: unat_of_nat take_bit_nat_eq_self)
  have "e = raw\<lparr>pp_id_len := of_nat (length key), pp_len := n,
      pp_id := overlay (pp_id raw) 0 (key_bytes key), pp_data := d\<rparr>"
    using assms(3) by (auto simp: PMDKHashtable_add_def n bind_sum_Inr_iff mem_write_Inr_iff)
  then show "entry_key e = key_bytes key" and "length (pp_id e) = 512" and "unat (pp_id_len e) \<le> 512"
    and "pp_len e = n" and "pp_data e = d"
    using len assms(2) n by (auto simp: entry_key_def)
qed

section \<open>The library and the contract\<close>

text \<open>
  What libpmemobj promises of the operations that succeed, by their effect on the view of the
  open pool: a constructor runs on fresh memory, a closed pool that is opened again shows what
  it showed before.
\<close>

locale pmemobj_library =
  fixes P :: "'p pmemobj" and po_ok :: "'p \<Rightarrow> bool"
  assumes alloc_law: "po_ok p \<Longrightarrow> po_alloc P n c p = (p', Inr (Some ob)) \<Longrightarrow>
      po_ok p' \<and> (\<exists>raw bs. length raw = unat n \<and> c raw = Inr bs \<and> pv_bytes (po_view P p) ob = None \<and>
        po_view P p' = (po_view P p)\<lparr>pv_bytes := (pv_bytes (po_view P p))(ob := Some bs)\<rparr>)"
    and insert_law: "po_ok p \<Longrightarrow> po_insert P i ctor p = (p', Inr (Some ob)) \<Longrightarrow>
      po_ok p' \<and> (\<exists>raw e. length (pp_id raw) = 512 \<and> ctor raw = Inr e \<and> pv_entries (po_view P p) ob = None \<and>
        po_view P p' = (po_view P p)
          \<lparr>pv_entries := (pv_entries (po_view P p))(ob := Some e),
           pv_buckets := (pv_buckets (po_view P p))(i := ob # pv_buckets (po_view P p) i)\<rparr>)"
    and free_law: "po_ok p \<Longrightarrow>
      po_ok (po_free P ob p) \<and>
      po_view P (po_free P ob p) = (po_view P p)\<lparr>pv_bytes := (pv_bytes (po_view P p))(ob := None)\<rparr>"
    and remove_law: "po_ok p \<Longrightarrow> ob \<in> set (pv_buckets (po_view P p) i) \<Longrightarrow>
      po_ok (po_remove P i ob p) \<and>
      po_view P (po_remove P i ob p) = (po_view P p)
        \<lparr>pv_entries := (pv_entries (po_view P p))(ob := None),
         pv_buckets := (pv_buckets (po_view P p))(i := remove1 ob (pv_buckets (po_view P p) i))\<rparr>"
    and write_law: "po_ok p \<Longrightarrow> pv_bytes (po_view P p) ob = Some old \<Longrightarrow> length bs = length old \<Longrightarrow>
      po_ok (po_write P ob bs p) \<and>
      po_view P (po_write P ob bs p) = (po_view P p)\<lparr>pv_bytes := (pv_bytes (po_view P p))(ob := Some bs)\<rparr>"
    and create_law: "po_ok p \<Longrightarrow> po_create P path n p = (p', True) \<Longrightarrow> po_table P nb p' = (p'', True) \<Longrightarrow>
      po_ok p'' \<and> pv_path (po_view P p'') = Some path \<and> pv_nbuckets (po_view P p'') = nb \<and>
      (\<forall>i. pv_buckets (po_view P p'') i = [])"
    and reopen_exists: "po_ok p \<Longrightarrow> pv_path (po_view P p) = Some path \<Longrightarrow> po_exists P path (po_close P p)"
    and reopen_law: "po_ok p \<Longrightarrow> pv_path (po_view P p) = Some path \<Longrightarrow>
      po_open P path (po_close P p) = (p', True) \<Longrightarrow> po_ok p' \<and> po_view P p' = po_view P p"
begin

abbreviation hok :: "'p pmem_state \<Rightarrow> bool" where
  "hok \<equiv> hash_ok P po_ok"

lemma hash_find_entry_ok:
  "hok s \<Longrightarrow> hash_key key \<Longrightarrow> PMDKHashtable_find_entry hash P s key =
    (case lookup_object (po_view P (pmem s)) (bucket_of hash s key) (key_bytes key) of
       None \<Rightarrow> Inl (throw_error PMDK_CANT_FIND_KEY [Arg_str key])
     | Some ob \<Rightarrow> Inr (bucket_of hash s key, ob, entry_at (po_view P (pmem s)) ob))"
  by (rule hash_find_entry) (simp_all add: hash_ok_def)

text \<open>An allocated object and the entry inserted for it are the insertion on the table.\<close>

lemma alloc_insert_view:
  assumes "po_ok p" and "po_alloc P n c p = (p1, Inr (Some d))"
    and "po_insert P i (PMDKHashtable_add \<lparr>la_id_len = of_nat (length key), la_id = key, la_len = n, la_data = d\<rparr>) p1
      = (p2, Inr (Some ob))"
    and "hash_key key" and "table_ok (po_view P p)" and "\<And>raw bs. length raw = unat n \<Longrightarrow> c raw = Inr bs \<Longrightarrow> length bs = unat n"
  obtains e raw bs where "po_ok p2" and "po_view P p2 = inserted i ob e bs (po_view P p)" and "pp_len e = n"
    and "pp_data e = d" and "entry_key e = key_bytes key" and "length raw = unat n" and "c raw = Inr bs"
    and "length bs = unat n" and "table_ok (po_view P p2)"
    and "\<And>j kb. lookup (po_view P p2) j kb =
      (if j = i \<and> kb = key_bytes key then Some bs else lookup (po_view P p) j kb)"
proof -
  from alloc_law [OF assms(1,2)] obtain raw bs where 1: "po_ok p1" "length raw = unat n" "c raw = Inr bs"
    "pv_bytes (po_view P p) d = None"
    "po_view P p1 = (po_view P p)\<lparr>pv_bytes := (pv_bytes (po_view P p))(d := Some bs)\<rparr>" by blast
  from insert_law [OF 1(1) assms(3)] obtain raw' e where 2: "po_ok p2" "length (pp_id raw') = 512"
    "PMDKHashtable_add \<lparr>la_id_len = of_nat (length key), la_id = key, la_len = n, la_data = d\<rparr> raw' = Inr e"
    "pv_entries (po_view P p) ob = None"
    "po_view P p2 = (po_view P p1)\<lparr>pv_entries := (pv_entries (po_view P p1))(ob := Some e),
       pv_buckets := (pv_buckets (po_view P p1))(i := ob # pv_buckets (po_view P p1) i)\<rparr>"
    by (auto simp: 1(5))
  note e = add_entry [OF assms(4) 2(2,3)]
  have view: "po_view P p2 = inserted i ob e bs (po_view P p)"
    by (simp add: 2(5) 1(5) inserted_def e(5))
  have len: "length bs = unat n" using assms(6) 1(2,3) by blast
  note t = inserted_table [OF assms(5) 2(4), of e bs i] 
  show ?thesis
    by (rule that [OF 2(1) view e(4) e(5) e(1) 1(2,3) len]) (use t e 1(4) len in \<open>simp_all add: view\<close>)
qed

lemma keys_unique_inserted:
  assumes "keys_unique v" and "table_ok v" and "lookup v i (entry_key e) = None" and "pv_entries v ob = None"
  shows "keys_unique (inserted i ob e bs v)"
proof -
  have other: "map (\<lambda>a. entry_key (entry_at (inserted i ob e bs v) a)) (pv_buckets v j) =
      map (\<lambda>a. entry_key (entry_at v a)) (pv_buckets v j)" for j
    using table_okD(3) [OF assms(2)] assms(4) by (fastforce simp: inserted_def)
  have "entry_key e \<notin> (\<lambda>a. entry_key (entry_at v a)) ` set (pv_buckets v i)"
    using assms(2,3) by (auto simp: lookup_eq_None lookup_object_def find_None_iff)
  moreover have "map (\<lambda>a. entry_key (entry_at (inserted i ob e bs v) a)) (pv_buckets (inserted i ob e bs v) j) =
      (if j = i then [entry_key e] else []) @ map (\<lambda>a. entry_key (entry_at v a)) (pv_buckets v j)" for j
  proof -
    have "pv_buckets (inserted i ob e bs v) j = (if j = i then [ob] else []) @ pv_buckets v j"
      and "entry_at (inserted i ob e bs v) ob = e" by (simp_all add: inserted_def)
    then show ?thesis by (simp add: other)
  qed
  ultimately show ?thesis using assms(1) by (auto simp: keys_unique_def)
qed

lemma keys_unique_removed:
  assumes uniq: "keys_unique v" and t: "table_ok v" and ob: "ob \<in> set (pv_buckets v i)"
  shows "keys_unique (removed i ob v)"
  unfolding keys_unique_def
proof
  fix j
  have rm: "distinct (map f (remove1 x xs))" if "distinct (map f xs)" for f :: "nat \<Rightarrow> bytes" and x xs
    using that set_remove1_subset by (induction xs) fastforce+
  have bucket: "pv_buckets (removed i ob v) j = (if j = i then remove1 ob (pv_buckets v i) else pv_buckets v j)"
    by (simp add: removed_def)
  have "map (\<lambda>a. entry_key (entry_at (removed i ob v) a)) (pv_buckets (removed i ob v) j) =
      map (\<lambda>a. entry_key (entry_at v a)) (pv_buckets (removed i ob v) j)"
  proof (rule map_cong [OF refl])
    fix a
    assume "a \<in> set (pv_buckets (removed i ob v) j)"
    then have "a \<noteq> ob"
      using table_okD(1) [OF t, of i] table_okD(2) [OF t ob, of j] by (auto simp: bucket split: if_splits)
    then show "entry_key (entry_at (removed i ob v) a) = entry_key (entry_at v a)"
      by (simp add: removed_def)
  qed
  also have "distinct \<dots>"
    using uniq rm unfolding bucket keys_unique_def by auto
  finally show "distinct (map (\<lambda>a. entry_key (entry_at (removed i ob v) a)) (pv_buckets (removed i ob v) j))" .
qed

text \<open>\<open>hash_contents\<close> by the table.\<close>

lemma hash_contents_upd:
  assumes "nbuckets s' = nbuckets s" and "hash_key key"
    and "\<And>j kb. lookup (po_view P (pmem s')) j kb =
      (if j = bucket_of hash s key \<and> kb = key_bytes key then r else lookup (po_view P (pmem s)) j kb)"
  shows "hash_contents hash P s' = (hash_contents hash P s)(key := r)"
proof
  fix k
  have "bucket_of hash s' k = bucket_of hash s k" by (simp add: bucket_of_def assms(1))
  then show "hash_contents hash P s' k = ((hash_contents hash P s)(key := r)) k"
    using assms(2) by (auto simp: hash_contents_def assms(3))
qed

text \<open>\<open>alloc\<close> and \<open>store\<close> of a new key.\<close>

lemma hash_alloc_new:
  assumes "inserts_succeed P" and ok: "hok s" and key: "hash_key key" and none: "hash_contents hash P s key = None"
    and al: "PMDKHashtable_alloc hash P s key n = (s', Inr b)"
  shows "hok s' \<and> hash_backs hash P s' b key \<and> buffer_size b = n \<and>
    malloc_buffer_destroy b = (Inr :: 'p pmem_state \<Rightarrow> failure + 'p pmem_state) \<and>
    (\<exists>bs. length bs = unat n \<and> hash_contents hash P s' = (hash_contents hash P s)(key \<mapsto> bs))"
proof -
  let ?i = "bucket_of hash s key"
  note s = ok [unfolded hash_ok_def]
  obtain p1 d where a: "po_alloc P n Inr (pmem s) = (p1, Inr (Some d))"
    using al s by (auto simp: PMDKHashtable_alloc_def PMDKHashtable_stralloc_def hashfun_def
        split: prod.splits sum.splits option.splits)
  let ?info = "\<lparr>la_id_len = of_nat (length key), la_id = key, la_len = n, la_data = d\<rparr>"
  obtain p2 r where ins: "po_insert P ?i (PMDKHashtable_add ?info) p1 = (p2, r)" by fastforce
  have r: "r \<noteq> Inr None" using assms(1) ins unfolding inserts_succeed_def by (metis snd_conv)
  have "s' = s\<lparr>pmem := p2\<rparr> \<and> b = Pmem_buffer (Object d) n \<and> (\<exists>ob. r = Inr (Some ob))"
    using al s a ins r by (auto simp: PMDKHashtable_alloc_def PMDKHashtable_stralloc_def hashfun_def Let_def
        PMDKHashtable_insert_def bucket_of_def bind_out_Inr_iff split: sum.splits option.splits)
  then obtain ob where s': "s' = s\<lparr>pmem := p2\<rparr>" and b: "b = Pmem_buffer (Object d) n" and r: "r = Inr (Some ob)"
    by blast
  obtain e raw bs where new: "po_ok p2" "po_view P p2 = inserted ?i ob e bs (po_view P (pmem s))" "pp_len e = n"
    "pp_data e = d" "entry_key e = key_bytes key" "length bs = unat n" "table_ok (po_view P p2)"
    "\<And>j kb. lookup (po_view P p2) j kb =
      (if j = ?i \<and> kb = key_bytes key then Some bs else lookup (po_view P (pmem s)) j kb)"
    by (rule alloc_insert_view [OF _ a ins [unfolded r] key]) (use s in auto)
  have "pv_entries (po_view P (pmem s)) ob = None"
    using insert_law [OF _ ins [unfolded r]] alloc_law [OF _ a] s by auto
  then have uniq: "keys_unique (po_view P p2)"
    using s none key unfolding new(2) by (intro keys_unique_inserted) (auto simp: new(5) hash_contents_def)
  have "bucket_of hash s' key = ?i" by (simp add: s' bucket_of_def)
  then have "hash_backs hash P s' b key"
    using key new(3,4,5) by (simp add: hash_backs_def s' b new(2) inserted_def lookup_object_def)
  moreover have "hash_ok P po_ok s'" using s new(1,7) uniq by (auto simp: hash_ok_def s' heap_ok_def)
  moreover have "hash_contents hash P s' = (hash_contents hash P s)(key \<mapsto> bs)"
    by (rule hash_contents_upd) (simp_all add: s' key new(8))
  ultimately show ?thesis using new(6) by (auto simp: b)
qed

lemma hash_store_new:
  assumes "inserts_succeed P" and ok: "hok s" and key: "hash_key key" and none: "hash_contents hash P s key = None"
    and mem: "hash_mem P s src = Inr bs" and len: "unat (buffer_size src) = length bs"
    and st: "PMDKHashtable_store hash P s key src = (s', Inr ())"
  shows "hok s' \<and> hash_contents hash P s' = (hash_contents hash P s)(key \<mapsto> bs)"
proof -
  let ?i = "bucket_of hash s key" and ?c = "PMDKHashtable_alloc_str bs" and ?n = "buffer_size src"
  note s = ok [unfolded hash_ok_def]
  obtain p1 d where a: "po_alloc P ?n ?c (pmem s) = (p1, Inr (Some d))"
    using st s by (auto simp: PMDKHashtable_store_def PMDKHashtable_stralloc_buf_def hashfun_def mem
        split: prod.splits sum.splits option.splits)
  let ?info = "\<lparr>la_id_len = of_nat (length key), la_id = key, la_len = ?n, la_data = d\<rparr>"
  obtain p2 r where ins: "po_insert P ?i (PMDKHashtable_add ?info) p1 = (p2, r)" by fastforce
  have r: "r \<noteq> Inr None" using assms(1) ins unfolding inserts_succeed_def by (metis snd_conv)
  have "s' = s\<lparr>pmem := p2\<rparr> \<and> (\<exists>ob. r = Inr (Some ob))"
    using st s a ins r by (auto simp: PMDKHashtable_store_def PMDKHashtable_stralloc_buf_def hashfun_def Let_def mem
        PMDKHashtable_insert_def bucket_of_def bind_out_Inr_iff split: sum.splits option.splits)
  then obtain ob where s': "s' = s\<lparr>pmem := p2\<rparr>" and r: "r = Inr (Some ob)"
    by blast
  have copied: "c = bs" if "length raw = unat ?n" "?c raw = Inr c" for raw c
    using that len by (simp add: PMDKHashtable_alloc_str_def mem_write_def)
  obtain e raw c where new: "po_ok p2" "po_view P p2 = inserted ?i ob e c (po_view P (pmem s))" "pp_len e = ?n"
    "pp_data e = d" "entry_key e = key_bytes key" "length raw = unat ?n" "?c raw = Inr c" "table_ok (po_view P p2)"
    "\<And>j kb. lookup (po_view P p2) j kb =
      (if j = ?i \<and> kb = key_bytes key then Some c else lookup (po_view P (pmem s)) j kb)"
    by (rule alloc_insert_view [OF _ a ins [unfolded r] key]) (use s in \<open>auto simp: PMDKHashtable_alloc_str_def mem_write_Inr_iff len\<close>)
  have "pv_entries (po_view P (pmem s)) ob = None"
    using insert_law [OF _ ins [unfolded r]] alloc_law [OF _ a] s by auto
  then have uniq: "keys_unique (po_view P p2)"
    using s none key unfolding new(2) by (intro keys_unique_inserted) (auto simp: new(5) hash_contents_def)
  have "hash_ok P po_ok s'" using s new(1,8) uniq by (auto simp: hash_ok_def s' heap_ok_def)
  moreover have "hash_contents hash P s' = (hash_contents hash P s)(key \<mapsto> bs)"
    by (rule hash_contents_upd) (simp_all add: s' key new(9) copied [OF new(6,7)])
  ultimately show ?thesis by simp
qed

text \<open>The entry of a stored key.\<close>

lemma stored_entry:
  assumes ok: "hok s" and "hash_key key" and "hash_contents hash P s key = Some bs"
  obtains ob where "lookup_object (po_view P (pmem s)) (bucket_of hash s key) (key_bytes key) = Some ob"
    and "pv_bytes (po_view P (pmem s)) (pp_data (entry_at (po_view P (pmem s)) ob)) = Some bs"
    and "length bs = unat (pp_len (entry_at (po_view P (pmem s)) ob))"
proof -
  obtain ob where ob: "lookup_object (po_view P (pmem s)) (bucket_of hash s key) (key_bytes key) = Some ob"
    and bs: "pv_bytes (po_view P (pmem s)) (pp_data (entry_at (po_view P (pmem s)) ob)) = Some bs"
    using assms(2,3) by (auto simp: hash_contents_def lookup_def split: option.splits)
  have "table_ok (po_view P (pmem s))" using ok by (simp add: hash_ok_def)
  with that ob bs show ?thesis
    using table_okD(3) [of "po_view P (pmem s)" ob] lookup_object_Some [OF ob] by (force simp: entry_ok_def)
qed

lemma hash_find_stored:
  assumes "hok s" and "hash_key key" and "hash_contents hash P s key = Some bs"
  shows "\<exists>b. PMDKHashtable_find hash P s key = (s, Inr b) \<and> hash_backs hash P s b key \<and> unat (buffer_size b) = length bs \<and>
    malloc_buffer_destroy b = (Inr :: 'p pmem_state \<Rightarrow> failure + 'p pmem_state)"
proof (rule stored_entry [OF assms])
  fix ob
  assume ob: "lookup_object (po_view P (pmem s)) (bucket_of hash s key) (key_bytes key) = Some ob"
    and "length bs = unat (pp_len (entry_at (po_view P (pmem s)) ob))"
  then show ?thesis
    using assms(1,2) by (simp add: PMDKHashtable_find_def hash_find_entry_ok hash_backs_def Let_def)
qed

lemma hash_find_missing:
  assumes "hok s" and "hash_key key" and "hash_contents hash P s key = None"
  shows "PMDKHashtable_find hash P s key = (s, Inl (throw_error PMDK_CANT_FIND_KEY [Arg_str key]))"
    and "PMDKHashtable_load hash P s key = (s, Inl (throw_error PMDK_CANT_FIND_KEY [Arg_str key]))"
    and "PMDKHashtable_free hash P s key = (s, Inl (throw_error PMDK_CANT_FIND_KEY [Arg_str key]))"
proof -
  have "lookup_object (po_view P (pmem s)) (bucket_of hash s key) (key_bytes key) = None"
    using assms by (simp add: hash_contents_def lookup_eq_None hash_ok_def)
  then show "PMDKHashtable_find hash P s key = (s, Inl (throw_error PMDK_CANT_FIND_KEY [Arg_str key]))"
    and "PMDKHashtable_load hash P s key = (s, Inl (throw_error PMDK_CANT_FIND_KEY [Arg_str key]))"
    and "PMDKHashtable_free hash P s key = (s, Inl (throw_error PMDK_CANT_FIND_KEY [Arg_str key]))"
    using assms(1,2)
    by (simp_all add: PMDKHashtable_find_def PMDKHashtable_load_def PMDKHashtable_free_def hash_find_entry_ok)
qed

lemma hash_backed:
  assumes "hok s" and "hash_backs hash P s b key" and "hash_contents hash P s key = Some bs"
  shows "hash_mem P s b = Inr bs"
    and "length bs' = length bs \<Longrightarrow>
      hok (hash_set_mem P s b bs') \<and> hash_contents hash P (hash_set_mem P s b bs') = (hash_contents hash P s)(key \<mapsto> bs')"
proof -
  let ?v = "po_view P (pmem s)" and ?i = "bucket_of hash s key"
  note s = assms(1) [unfolded hash_ok_def]
  have key: "hash_key key" using assms(2) by (simp add: hash_backs_def)
  obtain ob where ob: "lookup_object ?v ?i (key_bytes key) = Some ob"
    and bs: "pv_bytes ?v (pp_data (entry_at ?v ob)) = Some bs" and len: "length bs = unat (pp_len (entry_at ?v ob))"
    using stored_entry [OF assms(1) key assms(3)] by blast
  have b: "b = Pmem_buffer (Object (pp_data (entry_at ?v ob))) (pp_len (entry_at ?v ob))"
    using assms(2) ob by (simp add: hash_backs_def Let_def)
  show "hash_mem P s b = Inr bs" by (simp add: hash_mem_def b bs len)
  assume len': "length bs' = length bs"
  let ?d = "pp_data (entry_at ?v ob)"
  have w: "po_ok (po_write P ?d bs' (pmem s))"
    "po_view P (po_write P ?d bs' (pmem s)) = ?v\<lparr>pv_bytes := (pv_bytes ?v)(?d := Some bs')\<rparr>"
    using write_law [OF _ bs len'] s by blast+
  have t: "table_ok ?v" using s by blast
  note written = written_table [OF t ob refl bs len']
  have same: "lookup_object ?v j k = Some ob \<longleftrightarrow> j = ?i \<and> k = key_bytes key" for j k
    using lookup_object_Some [of ?v j k ob] lookup_object_Some [OF ob] table_okD(2) [OF t] ob by auto
  have "hash_contents hash P (hash_set_mem P s b bs') = (hash_contents hash P s)(key \<mapsto> bs')"
    by (rule hash_contents_upd) (simp_all add: hash_set_mem_def b key w(2) written(2) same)
  moreover have "hok (hash_set_mem P s b bs')"
    using s w(1) written(1) by (simp add: hash_ok_def hash_set_mem_def b w(2) heap_ok_def keys_unique_def)
  ultimately show "hok (hash_set_mem P s b bs') \<and>
      hash_contents hash P (hash_set_mem P s b bs') = (hash_contents hash P s)(key \<mapsto> bs')" by blast
qed

lemma hash_load_stored:
  assumes "hok s" and "hash_key key" and "hash_contents hash P s key = Some bs"
  obtains s' b where "PMDKHashtable_load hash P s key = (s', Inr b)" and "hok s'"
    and "hash_contents hash P s' = hash_contents hash P s" and "hash_mem P s' b = Inr bs"
    and "unat (buffer_size b) = length bs" and "malloc_buffer_destroy b s' \<noteq> Inl (Crash Double_free)"
proof (rule stored_entry [OF assms])
  fix ob
  let ?v = "po_view P (pmem s)"
  let ?e = "entry_at ?v ob"
  assume ob: "lookup_object ?v (bucket_of hash s key) (key_bytes key) = Some ob"
    and bs: "pv_bytes ?v (pp_data ?e) = Some bs" and len: "length bs = unat (pp_len ?e)"
  let ?s = "s\<lparr>h_blocks := (h_blocks s)(h_next s \<mapsto> bs), h_next := Suc (h_next s)\<rparr>"
  let ?b = "Malloc_buffer (Blk (h_next s)) (pp_len ?e)"
  obtain s1 q where m: "malloc (length bs) s = (s1, q)" by fastforce
  then have q: "q = Blk (h_next s)" and s1: "pmem s1 = pmem s" by (auto simp: malloc_def)
  have "hash_mem P s1 (Pmem_buffer (Object (pp_data ?e)) (pp_len ?e)) = Inr bs"
    using bs len by (simp add: hash_mem_def s1)
  then have "PMDKHashtable_load hash P s key = (?s, Inr ?b)"
    using assms(1,2) ob m q
    by (simp add: PMDKHashtable_load_def hash_find_entry_ok len [symmetric] poke_malloc)
  moreover have "hok ?s" using assms(1) by (auto simp: hash_ok_def heap_ok_def)
  moreover have "hash_contents hash P ?s = hash_contents hash P s"
    by (simp add: hash_contents_def fun_eq_iff bucket_of_def)
  moreover have "hash_mem P ?s ?b = Inr bs"
    using len by (auto simp: hash_mem_def os_mem_def buffer_bytes_def peek_def block_at_def)
  ultimately show ?thesis using that len by (simp add: free_ptr_def)
qed

lemma hash_free_stored:
  assumes "hok s" and key: "hash_key key" and "hash_contents hash P s key = Some bs"
    and "PMDKHashtable_free hash P s key = (s', r)"
  shows "r = Inr ()" and "hok s'" and "hash_contents hash P s' = (hash_contents hash P s)(key := None)"
proof -
  let ?v = "po_view P (pmem s)" and ?i = "bucket_of hash s key"
  note s = assms(1) [unfolded hash_ok_def]
  obtain ob where ob: "lookup_object ?v ?i (key_bytes key) = Some ob"
    using stored_entry [OF assms(1-3)] by blast
  let ?p = "po_free P (pp_data (entry_at ?v ob)) (pmem s)"
  have s': "s' = s\<lparr>pmem := po_remove P ?i ob ?p\<rparr>" and "r = Inr ()"
    using assms(1,2,4) ob by (auto simp: PMDKHashtable_free_def hash_find_entry_ok)
  then show "r = Inr ()" by simp
  have in_bucket: "ob \<in> set (pv_buckets ?v ?i)" and k: "entry_key (entry_at ?v ob) = key_bytes key"
    using lookup_object_Some [OF ob] by auto
  have p: "po_ok ?p" "po_view P ?p = ?v\<lparr>pv_bytes := (pv_bytes ?v)(pp_data (entry_at ?v ob) := None)\<rparr>"
    using free_law s by blast+
  have p': "po_ok (po_remove P ?i ob ?p)" "po_view P (po_remove P ?i ob ?p) = removed ?i ob ?v"
    using remove_law [OF p(1), of ob ?i] in_bucket by (simp_all add: p(2) removed_def)
  have t: "table_ok ?v" using s by blast
  note rm = removed_table [OF t in_bucket]
  have old: "entry_at (removed ?i ob ?v) a = entry_at ?v a" if "a \<noteq> ob" for a
    using that by (simp add: removed_def)
  have uniq: "keys_unique (removed ?i ob ?v)"
    by (rule keys_unique_removed [OF _ t in_bucket]) (use s in blast)
  have "lookup_object (removed ?i ob ?v) ?i (key_bytes key) = None"
  proof -
    have "entry_key (entry_at (removed ?i ob ?v) a) \<noteq> key_bytes key" if a: "a \<in> set (pv_buckets (removed ?i ob ?v) ?i)" for a
    proof -
      have "a \<noteq> ob" "a \<in> set (pv_buckets ?v ?i)"
        using a table_okD(1) [OF t, of ?i] by (auto simp: removed_def)
      moreover have "inj_on (\<lambda>a. entry_key (entry_at ?v a)) (set (pv_buckets ?v ?i))"
        using s by (simp add: keys_unique_def distinct_map)
      ultimately show ?thesis using in_bucket k old by (metis inj_onD)
    qed
    then show ?thesis by (auto simp: lookup_object_def find_None_iff)
  qed
  then have none: "lookup (removed ?i ob ?v) ?i (key_bytes key) = None" by (simp add: lookup_def)
  show "hok s'" using s p'(1) rm(1) uniq by (simp add: s' hash_ok_def p'(2) heap_ok_def)
  show "hash_contents hash P s' = (hash_contents hash P s)(key := None)"
    by (rule hash_contents_upd) (use rm(2) none k in \<open>auto simp: s' key p'(2)\<close>)
qed

lemma hash_heap_frame:
  assumes "hok s" and "s' = s\<lparr>h_blocks := bl, h_next := n\<rparr>" and "heap_ok s'"
  shows "hok s'" and "hash_contents hash P s' = hash_contents hash P s"
  using assms by (simp_all add: hash_ok_def hash_contents_def fun_eq_iff bucket_of_def)

end

sublocale pmemobj_library \<subseteq> hashtable: storage_contract "PMDKHashtableStorage hash P" "hash_ok P po_ok" hash_key
  "hash_contents hash P" "hash_backs hash P" "inserts_succeed P" for hash
proof (unfold_locales, unfold PMDKHashtableStorage_sel)
  show "hok s' \<and> hash_backs hash P s' b key \<and> buffer_size b = n \<and>
      malloc_buffer_destroy b = (Inr :: 'p pmem_state \<Rightarrow> failure + 'p pmem_state) \<and>
      (\<exists>bs. length bs = unat n \<and> hash_contents hash P s' = (hash_contents hash P s)(key \<mapsto> bs))"
    if "inserts_succeed P" "hok s" "hash_key key" "hash_contents hash P s key = None"
      "PMDKHashtable_alloc hash P s key n = (s', Inr b)" for s s' key n b
    by (rule hash_alloc_new [OF that])
  show "hok s' \<and> hash_contents hash P s' = (hash_contents hash P s)(key \<mapsto> bs)"
    if "inserts_succeed P" "hok s" "hash_key key" "hash_contents hash P s key = None" "hash_mem P s b = Inr bs"
      "unat (buffer_size b) = length bs" "PMDKHashtable_store hash P s key b = (s', Inr ())" for s s' key b bs
    by (rule hash_store_new [OF that])
  show "\<exists>s' b. PMDKHashtable_find hash P s key = (s', Inr b) \<and> hok s' \<and>
      hash_contents hash P s' = hash_contents hash P s \<and> hash_backs hash P s' b key \<and> unat (buffer_size b) = length bs \<and>
      malloc_buffer_destroy b = (Inr :: 'p pmem_state \<Rightarrow> failure + 'p pmem_state)"
    if "hok s" "hash_key key" "hash_contents hash P s key = Some bs" for s key bs
    using hash_find_stored [OF that] that(1) by blast
  show "isl r \<and> hash_contents hash P s' = hash_contents hash P s"
    if "hok s" "hash_key key" "hash_contents hash P s key = None" "PMDKHashtable_find hash P s key = (s', r)" for s s' key r
    using hash_find_missing(1) [OF that(1-3)] that(4) by auto
  show "hok s' \<and> hash_contents hash P s' = hash_contents hash P s \<and> hash_mem P s' b = Inr bs \<and> unat (buffer_size b) = length bs"
    if ld: "hok s" "hash_key key" "hash_contents hash P s key = Some bs" "PMDKHashtable_load hash P s key = (s', Inr b)"
    for s s' key b bs
    by (rule hash_load_stored [OF ld(1-3)]) (use ld(4) in auto)
  show "\<exists>s' b s''. PMDKHashtable_load hash P s key = (s', Inr b) \<and> malloc_buffer_destroy b s' = Inr s''"
    if ld: "hok s" "hash_key key" "hash_contents hash P s key = Some bs" for s key bs
  proof (rule hash_load_stored [OF ld])
    fix s' b
    assume "PMDKHashtable_load hash P s key = (s', Inr b)" "malloc_buffer_destroy b s' \<noteq> Inl (Crash Double_free)"
    moreover have "malloc_buffer_destroy b s' = Inl (Crash Double_free) \<or> (\<exists>s''. malloc_buffer_destroy b s' = Inr s'')"
      by (cases b) (auto simp: free_ptr_def split: ptr.splits option.splits)
    ultimately show ?thesis by blast
  qed
  show "hok s' \<and> hash_contents hash P s' = hash_contents hash P s \<and> hash_mem P s' b = Inr bs \<and> unat (buffer_size b) = length bs"
    if "hok s" "malloc_buffer_copy_of bs s = Inr (s', b)" "length bs < 2 ^ 64" for s s' b bs
  proof -
    have "heap_ok s'" using that(1,2) by (auto simp: hash_ok_def intro: heap_ok_copy_of)
    moreover have "s' = s\<lparr>h_blocks := (h_blocks s)(h_next s \<mapsto> bs), h_next := Suc (h_next s)\<rparr>"
      and b: "b = Malloc_buffer (Blk (h_next s)) (of_nat (length bs))"
      using that(2) by (simp_all add: malloc_buffer_copy_of_eq)
    moreover from b have mem: "hash_mem P s' b = os_mem s' b" by (simp add: hash_mem_def)
    ultimately have "hok s' \<and> hash_contents hash P s' = hash_contents hash P s"
      using hash_heap_frame that(1) by blast
    with mem show ?thesis
      using os_mem_copy_of [OF that(2,3)] by simp
  qed
  show "hok s' \<and> hash_contents hash P s' = hash_contents hash P s"
    if "hok s" "malloc_buffer_destroy b s = Inr s'" for s s' b
    using malloc_buffer_destroy_cases [OF that(2)]
  proof
    assume "\<exists>i. s' = s\<lparr>h_blocks := (h_blocks s)(i := None)\<rparr>"
    then obtain i where s': "s' = s\<lparr>h_blocks := (h_blocks s)(i := None), h_next := h_next s\<rparr>" by auto
    moreover from s' have "heap_ok s'" using that(1) by (simp add: hash_ok_def heap_ok_def)
    ultimately show ?thesis using hash_heap_frame that(1) by blast
  qed (use that(1) in simp)
  show "hok s' \<and> hash_contents hash P s' = (hash_contents hash P s)(key := None)"
    if "hok s" "hash_key key" "hash_contents hash P s key = Some bs" "PMDKHashtable_free hash P s key = (s', Inr ())"
    for s s' key bs
    using hash_free_stored(2,3) [OF that] by blast
qed (use hash_backed in blast)+

section \<open>Beyond the contract\<close>

context pmemobj_library
begin

lemma hash_contents_cong:
  "po_view P (pmem s') = po_view P (pmem s) \<Longrightarrow> nbuckets s' = nbuckets s \<Longrightarrow>
     hash_contents hash P s' = hash_contents hash P s"
  by (simp add: hash_contents_def bucket_of_def fun_eq_iff)

lemma hashtable_contract:
  "storage_contract (PMDKHashtableStorage hash P) hok hash_key (hash_contents hash P) (hash_backs hash P) (inserts_succeed P)"
  by (rule hashtable.storage_contract_axioms)

text \<open>A new pool is an empty table of 1000 buckets.\<close>

lemma hash_create_ok:
  assumes "heap_ok s" and "po_ok (pmem s)" and "PMDKHashtable_create P s path n nb = (s', Inr ())" and "nb \<noteq> 0"
  shows "hok s'" and "nbuckets s' = nb" and "pv_path (po_view P (pmem s')) = Some path"
    and "hash_contents hash P s' = (\<lambda>_. None)"
proof -
  obtain p1 p2 where p: "po_create P path n (pmem s) = (p1, True)" "po_table P nb p1 = (p2, True)"
    and s': "s' = s\<lparr>pmem := p2, ppool := True, nbuckets := nb\<rparr>"
    using assms(3) by (auto simp: PMDKHashtable_create_def PMDKHashtable_release_def bind_out_Inr_iff
        split: prod.splits bool.splits if_splits)
  from create_law [OF assms(2) p] have v: "po_ok p2" "pv_path (po_view P p2) = Some path"
    "\<And>i. pv_buckets (po_view P p2) i = []" by auto
  show "hok s'" using assms(1,4) v by (simp add: hash_ok_def s' table_ok_def keys_unique_def heap_ok_def)
  show "nbuckets s' = nb" and "pv_path (po_view P (pmem s')) = Some path" by (simp_all add: s' v)
  show "hash_contents hash P s' = (\<lambda>_. None)"
    by (simp add: hash_contents_def fun_eq_iff s' lookup_def lookup_object_def v(3))
qed

text \<open>What was stored is there after the pool has been closed and opened again.\<close>

lemma hash_reopen:
  assumes "hok s" and "pv_path (po_view P (pmem s)) = Some path"
    and "nbuckets s = pv_nbuckets (po_view P (pmem s))"
    and "PMDKHashtable_munmap P s = (s1, Inr ())" and "PMDKHashtable_mmap P s1 path n = (s2, Inr ())"
  shows "hok s2" and "hash_contents hash P s2 = hash_contents hash P s"
proof -
  note s = assms(1) [unfolded hash_ok_def]
  have s1: "s1 = s\<lparr>pmem := po_close P (pmem s), ppool := False\<rparr>"
    using assms(4) s by (auto simp: PMDKHashtable_munmap_def)
  obtain p where p: "po_open P path (po_close P (pmem s)) = (p, True)"
    and s2: "s2 = s1\<lparr>pmem := p, ppool := True, nbuckets := pv_nbuckets (po_view P p)\<rparr>"
    using assms(5) reopen_exists [OF _ assms(2)] s
    by (auto simp: PMDKHashtable_mmap_def PMDKHashtable_open_def s1 split: prod.splits bool.splits)
  have "po_ok p" "po_view P p = po_view P (pmem s)" using reopen_law [OF _ assms(2) p] s by blast+
  then show "hok s2" and "hash_contents hash P s2 = hash_contents hash P s"
    using s assms(3) by (simp_all add: hash_ok_def s2 s1 heap_ok_def hash_contents_def bucket_of_def fun_eq_iff)
qed

text \<open>
  A second \<open>store\<close> under a key puts a new entry before the old one, which \<open>free\<close> brings back:
  the table is then exactly what it was.
\<close>

lemma hash_store_free_again:
  assumes "inserts_succeed P" and ok: "hok s" and key: "hash_key key"
    and mem: "hash_mem P s src = Inr bs" and len: "unat (buffer_size src) = length bs"
    and st: "PMDKHashtable_store hash P s key src = (s1, Inr ())"
  obtains s2 where "PMDKHashtable_free hash P s1 key = (s2, Inr ())" and "po_view P (pmem s2) = po_view P (pmem s)"
    and "hash_contents hash P s1 key = Some bs" and "hash_contents hash P s2 = hash_contents hash P s"
proof -
  let ?i = "bucket_of hash s key" and ?c = "PMDKHashtable_alloc_str bs" and ?n = "buffer_size src"
  note s = ok [unfolded hash_ok_def]
  obtain p1 d where a: "po_alloc P ?n ?c (pmem s) = (p1, Inr (Some d))"
    using st s by (auto simp: PMDKHashtable_store_def PMDKHashtable_stralloc_buf_def hashfun_def mem
        split: prod.splits sum.splits option.splits)
  let ?info = "\<lparr>la_id_len = of_nat (length key), la_id = key, la_len = ?n, la_data = d\<rparr>"
  obtain p2 r where ins: "po_insert P ?i (PMDKHashtable_add ?info) p1 = (p2, r)" by fastforce
  have r: "r \<noteq> Inr None" using assms(1) ins unfolding inserts_succeed_def by (metis snd_conv)
  have "s1 = s\<lparr>pmem := p2\<rparr> \<and> (\<exists>ob. r = Inr (Some ob))"
    using st s a ins r by (auto simp: PMDKHashtable_store_def PMDKHashtable_stralloc_buf_def hashfun_def Let_def mem
        PMDKHashtable_insert_def bucket_of_def bind_out_Inr_iff split: sum.splits option.splits)
  then obtain ob where s1: "s1 = s\<lparr>pmem := p2\<rparr>" and r: "r = Inr (Some ob)" by blast
  have copied: "c = bs" if "length raw = unat ?n" "?c raw = Inr c" for raw c
    using that len by (simp add: PMDKHashtable_alloc_str_def mem_write_def)
  obtain e raw c where new: "po_ok p2" "po_view P p2 = inserted ?i ob e c (po_view P (pmem s))" "pp_data e = d"
    "entry_key e = key_bytes key" "length raw = unat ?n" "?c raw = Inr c" "table_ok (po_view P p2)"
    "\<And>j kb. lookup (po_view P p2) j kb =
      (if j = ?i \<and> kb = key_bytes key then Some c else lookup (po_view P (pmem s)) j kb)"
    by (rule alloc_insert_view [OF _ a ins [unfolded r] key])
      (use s in \<open>auto simp: PMDKHashtable_alloc_str_def mem_write_Inr_iff len\<close>)
  have fresh: "pv_entries (po_view P (pmem s)) ob = None" "pv_bytes (po_view P (pmem s)) (pp_data e) = None"
    using insert_law [OF _ ins [unfolded r]] alloc_law [OF _ a] s by (auto simp: new(3))
  let ?v = "po_view P p2"
  have obj: "lookup_object ?v ?i (key_bytes key) = Some ob" and at: "entry_at ?v ob = e"
    and inb: "ob \<in> set (pv_buckets ?v ?i)"
    using new(4) by (simp_all add: new(2) inserted_def lookup_object_def)
  have "PMDKHashtable_find_entry hash P s1 key = Inr (?i, ob, e)"
    using s key new(7) obj at by (subst hash_find_entry) (simp_all add: s1 bucket_of_def)
  then have free: "PMDKHashtable_free hash P s1 key = (s\<lparr>pmem := po_remove P ?i ob (po_free P (pp_data e) p2)\<rparr>, Inr ())"
    by (simp add: PMDKHashtable_free_def s1)
  have "po_ok (po_free P (pp_data e) p2)"
    "po_view P (po_free P (pp_data e) p2) = ?v\<lparr>pv_bytes := (pv_bytes ?v)(pp_data e := None)\<rparr>"
    using free_law new(1) by blast+
  then have "po_view P (po_remove P ?i ob (po_free P (pp_data e) p2)) = removed ?i ob ?v"
    using remove_law [of "po_free P (pp_data e) p2" ob ?i] inb by (simp add: removed_def at)
  also have "\<dots> = po_view P (pmem s)"
    unfolding new(2) by (rule removed_inserted [OF fresh])
  finally have restored: "po_view P (po_remove P ?i ob (po_free P (pp_data e) p2)) = po_view P (pmem s)" .
  show ?thesis
  proof (rule that [OF free])
    show "hash_contents hash P s1 key = Some bs"
      using key copied [OF new(5,6)] by (simp add: hash_contents_def s1 new(8) bucket_of_def)
    show "po_view P (pmem (s\<lparr>pmem := po_remove P ?i ob (po_free P (pp_data e) p2)\<rparr>)) = po_view P (pmem s)"
      using restored by simp
    then show "hash_contents hash P (s\<lparr>pmem := po_remove P ?i ob (po_free P (pp_data e) p2)\<rparr>) = hash_contents hash P s"
      by (rule hash_contents_cong) simp
  qed
qed

end

section \<open>Errors that are formatted and dropped\<close>

lemma dec_int_uint_length: "length (dec_int (uint (n :: size_t))) \<le> 20"
proof -
  have "unat n < 2 ^ LENGTH(64)" by (rule unsigned_less)
  then have "unat n < 10 ^ Suc 19" by simp
  from length_dec_nat [OF this] show ?thesis by (simp add: dec_int_def)
qed

lemma dropped_object_error:
  assumes "length key + length m \<le> 8000"
  shows "format_and_drop PMDK_CANT_ALLOCATE_OBJ [Arg_str key, Arg_u64 n, Arg_of_cstr (Some m)] = Inr ()"
  using assms dec_int_uint_length [of n]
  by (simp add: format_and_drop_def Error_format_def PMDK_CANT_ALLOCATE_OBJ_def Error_new_def Formatter_format_spec
      within_capacity_def format_spec.simps(2) format_capacity_def Arg_of_cstr_def)

lemma dropped_size_error:
  "format_and_drop PMDK_HASH_POOL_TOO_SMALL [Arg_u64 a, Arg_u64 b, Arg_u64 c] = Inr ()"
  using dec_int_uint_length [of a] dec_int_uint_length [of b] dec_int_uint_length [of c]
  by (simp add: format_and_drop_def Error_format_def PMDK_HASH_POOL_TOO_SMALL_def Error_new_def Formatter_format_spec
      within_capacity_def format_spec.simps(2) format_capacity_def)

lemma find_entry_cong: "pv_entries v' = pv_entries v \<Longrightarrow> find_entry v' key obs = find_entry v key obs"
proof (induction obs)
  case (Cons ob obs)
  then show ?case by (simp cong: option.case_cong if_cong)
qed simp

text \<open>An insertion that libpmemobj refuses: \<open>alloc\<close> returns a buffer that no key leads to.\<close>

lemma alloc_unnoticed:
  assumes "ppool s" and "nbuckets s \<noteq> 0" and "po_alloc P n Inr (pmem s) = (p1, Inr (Some d))"
    and "po_insert P (bucket_of hash s key)
      (PMDKHashtable_add \<lparr>la_id_len = of_nat (length key), la_id = key, la_len = n, la_data = d\<rparr>) p1 = (p2, Inr None)"
    and "length key + length (po_errormsg P p2) \<le> 8000"
  shows "PMDKHashtable_alloc hash P s key n = (s\<lparr>pmem := p2\<rparr>, Inr (Pmem_buffer (Object d) n))"
  using assms
  by (simp add: PMDKHashtable_alloc_def PMDKHashtable_stralloc_def hashfun_def bucket_of_def Let_def
      PMDKHashtable_insert_def dropped_object_error)

section \<open>A reference pool\<close>

text \<open>
  Pools as values: it shows that the laws of the library can hold, and concrete runs are
  evaluated on it. Fresh memory is zero and the number of the next object counts up.
\<close>

record ref_pool =
  rp_files :: "string \<Rightarrow> pool option"
  rp_open :: pool
  rp_next :: nat

definition empty_pool :: "string option \<Rightarrow> size_t \<Rightarrow> pool" where
  "empty_pool path nb =
     \<lparr>pv_path = path, pv_nbuckets = nb, pv_buckets = (\<lambda>_. []), pv_entries = (\<lambda>_. None), pv_bytes = (\<lambda>_. None)\<rparr>"

definition ref_alloc :: "size_t \<Rightarrow> (bytes \<Rightarrow> failure + bytes) \<Rightarrow> ref_pool \<Rightarrow> ref_pool \<times> (failure + nat option)" where
  "ref_alloc n c p =
     (if n = 0 then (p, Inr None)
      else (case c (replicate (unat n) 0) of
              Inl e \<Rightarrow> (p, Inl e)
            | Inr bs \<Rightarrow>
                (p\<lparr>rp_open := (rp_open p)\<lparr>pv_bytes := (pv_bytes (rp_open p))(rp_next p := Some bs)\<rparr>,
                   rp_next := Suc (rp_next p)\<rparr>, Inr (Some (rp_next p)))))"

definition ref_insert ::
    "nat \<Rightarrow> (PMEMPointer \<Rightarrow> failure + PMEMPointer) \<Rightarrow> ref_pool \<Rightarrow> ref_pool \<times> (failure + nat option)" where
  "ref_insert i c p =
     (case c \<lparr>pp_id_len = 0, pp_id = replicate 512 0, pp_len = 0, pp_data = 0\<rparr> of
        Inl e \<Rightarrow> (p, Inl e)
      | Inr e \<Rightarrow>
          (p\<lparr>rp_open := (rp_open p)
               \<lparr>pv_entries := (pv_entries (rp_open p))(rp_next p := Some e),
                pv_buckets := (pv_buckets (rp_open p))(i := rp_next p # pv_buckets (rp_open p) i)\<rparr>,
             rp_next := Suc (rp_next p)\<rparr>, Inr (Some (rp_next p))))"

definition ref_pmemobj :: "ref_pool pmemobj" where
  "ref_pmemobj =
     \<lparr>po_view = rp_open,
      po_exists = (\<lambda>path p. rp_files p path \<noteq> None),
      po_unlink = (\<lambda>path p. p\<lparr>rp_files := (rp_files p)(path := None)\<rparr>),
      po_create = (\<lambda>path n p.
        (p\<lparr>rp_open := empty_pool (Some path) 0, rp_files := (rp_files p)(path := Some (empty_pool (Some path) 0))\<rparr>, True)),
      po_open = (\<lambda>path p. case rp_files p path of Some v \<Rightarrow> (p\<lparr>rp_open := v\<rparr>, True) | None \<Rightarrow> (p, False)),
      po_close = (\<lambda>p. case pv_path (rp_open p) of
        Some path \<Rightarrow> p\<lparr>rp_files := (rp_files p)(path := Some (rp_open p))\<rparr> | None \<Rightarrow> p),
      po_table = (\<lambda>nb p. (p\<lparr>rp_open := (rp_open p)\<lparr>pv_nbuckets := nb, pv_buckets := (\<lambda>_. [])\<rparr>\<rparr>, True)),
      po_alloc = ref_alloc,
      po_insert = ref_insert,
      po_free = (\<lambda>ob p. p\<lparr>rp_open := (rp_open p)\<lparr>pv_bytes := (pv_bytes (rp_open p))(ob := None)\<rparr>\<rparr>),
      po_remove = (\<lambda>i ob p. p\<lparr>rp_open := (rp_open p)
        \<lparr>pv_entries := (pv_entries (rp_open p))(ob := None),
         pv_buckets := (pv_buckets (rp_open p))(i := remove1 ob (pv_buckets (rp_open p) i))\<rparr>\<rparr>),
      po_write = (\<lambda>ob bs p. p\<lparr>rp_open := (rp_open p)\<lparr>pv_bytes := (pv_bytes (rp_open p))(ob := Some bs)\<rparr>\<rparr>),
      po_errormsg = (\<lambda>p. []), po_errno = (\<lambda>p. []),
      po_sizeof_header = 16, po_sizeof_list = 80, po_min_pool = 8388608\<rparr>"

definition ref_pool_ok :: "ref_pool \<Rightarrow> bool" where
  "ref_pool_ok p \<longleftrightarrow>
     (\<forall>ob \<ge> rp_next p. pv_entries (rp_open p) ob = None \<and> pv_bytes (rp_open p) ob = None)"

lemma ref_inserts_succeed [simp]: "inserts_succeed ref_pmemobj"
  by (simp add: inserts_succeed_def ref_pmemobj_def ref_insert_def split: sum.splits)

interpretation ref_pool: pmemobj_library ref_pmemobj ref_pool_ok
proof
  fix p p' p'' :: ref_pool and n nb c ob i ctor old bs path
  assume ok: "ref_pool_ok p"
  show "ref_pool_ok p' \<and> (\<exists>raw bs. length raw = unat n \<and> c raw = Inr bs \<and> pv_bytes (po_view ref_pmemobj p) ob = None \<and>
      po_view ref_pmemobj p' = (po_view ref_pmemobj p)\<lparr>pv_bytes := (pv_bytes (po_view ref_pmemobj p))(ob := Some bs)\<rparr>)"
    if "po_alloc ref_pmemobj n c p = (p', Inr (Some ob))"
  proof -
    have "n \<noteq> 0" "\<exists>x. c (replicate (unat n) 0) = Inr x \<and> ob = rp_next p \<and>
        p' = p\<lparr>rp_open := (rp_open p)\<lparr>pv_bytes := (pv_bytes (rp_open p))(rp_next p := Some x)\<rparr>, rp_next := Suc (rp_next p)\<rparr>"
      using that by (auto simp: ref_pmemobj_def ref_alloc_def split: if_splits sum.splits)
    then obtain x where x: "c (replicate (unat n) 0) = Inr x" "ob = rp_next p"
      "p' = p\<lparr>rp_open := (rp_open p)\<lparr>pv_bytes := (pv_bytes (rp_open p))(rp_next p := Some x)\<rparr>, rp_next := Suc (rp_next p)\<rparr>"
      by blast
    then show ?thesis
      using ok by (intro conjI exI [of _ "replicate (unat n) 0"] exI [of _ x]) (simp_all add: ref_pool_ok_def ref_pmemobj_def)
  qed
  show "ref_pool_ok p' \<and> (\<exists>raw e. length (pp_id raw) = 512 \<and> ctor raw = Inr e \<and> pv_entries (po_view ref_pmemobj p) ob = None \<and>
      po_view ref_pmemobj p' = (po_view ref_pmemobj p)
        \<lparr>pv_entries := (pv_entries (po_view ref_pmemobj p))(ob := Some e),
         pv_buckets := (pv_buckets (po_view ref_pmemobj p))(i := ob # pv_buckets (po_view ref_pmemobj p) i)\<rparr>)"
    if "po_insert ref_pmemobj i ctor p = (p', Inr (Some ob))"
  proof -
    let ?raw = "\<lparr>pp_id_len = 0, pp_id = replicate 512 0, pp_len = 0, pp_data = 0\<rparr>"
    have "\<exists>e. ctor ?raw = Inr e \<and> ob = rp_next p \<and> p' =
        p\<lparr>rp_open := (rp_open p)
             \<lparr>pv_entries := (pv_entries (rp_open p))(rp_next p := Some e),
              pv_buckets := (pv_buckets (rp_open p))(i := rp_next p # pv_buckets (rp_open p) i)\<rparr>,
           rp_next := Suc (rp_next p)\<rparr>"
      using that by (auto simp: ref_pmemobj_def ref_insert_def split: sum.splits)
    then obtain e where e: "ctor ?raw = Inr e" "ob = rp_next p"
      "p' = p\<lparr>rp_open := (rp_open p)
             \<lparr>pv_entries := (pv_entries (rp_open p))(rp_next p := Some e),
              pv_buckets := (pv_buckets (rp_open p))(i := rp_next p # pv_buckets (rp_open p) i)\<rparr>,
           rp_next := Suc (rp_next p)\<rparr>" by blast
    then show ?thesis
      using ok by (intro conjI exI [of _ ?raw] exI [of _ e]) (simp_all add: ref_pool_ok_def ref_pmemobj_def)
  qed
qed (auto simp: ref_pmemobj_def ref_pool_ok_def empty_pool_def split: option.splits)

end
