(* ===== verification/Factories.thy ===== *)
theory Factories
  imports Capnp Pmdk_Fs Pmdk_Hashtable
begin

text \<open>
  storage/storage_factory.h and serialize/serializer_factory.h: the two enumerations, their
  conversions from and to names, and the factories. An \<open>environment\<close> collects what the
  storages take from outside the repository.
\<close>

section \<open>Storages\<close>

datatype StorageType = PMDK_HASHTABLE | PMDK_FS | POSIX

definition StorageTypeConverter_convert :: "string \<Rightarrow> failure + StorageType" where
  "StorageTypeConverter_convert name =
     (if name = ''PMDK_HASHTABLE'' then Inr PMDK_HASHTABLE
      else if name = ''PMDK_FS'' then Inr PMDK_FS
      else if name = ''POSIX'' then Inr POSIX
      else Inl (throw_error INVALID_STORAGE_TYPE [Arg_str name]))"

fun StorageTypeConverter_name :: "StorageType \<Rightarrow> string" where
  "StorageTypeConverter_name PMDK_HASHTABLE = ''PMDK_HASHTABLE''"
| "StorageTypeConverter_name PMDK_FS = ''PMDK_FS''"
| "StorageTypeConverter_name POSIX = ''POSIX''"

record 'p environment =
  env_faults :: os_faults
  env_libpmem :: "'p pmem_state libpmem"
  env_pmemobj :: "'p pmemobj"
  env_hash :: "string \<Rightarrow> size_t"

text \<open>\<open>get\<close>: a new object of the class, and the object itself: its members as constructed.\<close>

fun StorageFactory_get :: "'p environment \<Rightarrow> StorageType \<Rightarrow> 'p pmem_state \<Rightarrow> 'p pmem_state \<times> 'p pmem_state storage" where
  "StorageFactory_get E PMDK_HASHTABLE s = (s\<lparr>ppool := False\<rparr>, PMDKHashtableStorage (env_hash E) (env_pmemobj E))"
| "StorageFactory_get E PMDK_FS s = (s\<lparr>path_prefix := []\<rparr>, FilesystemPMDKStorage (env_faults E) (env_libpmem E))"
| "StorageFactory_get E POSIX s = (s\<lparr>path_prefix := []\<rparr>, PosixStorage (env_faults E))"

section \<open>Serializers\<close>

datatype SerializerType = CAPNPROTO | CAPNPROTO_NOCOMPRESS | NO_SERIALIZER

definition SerializerTypeConverter_convert :: "string \<Rightarrow> failure + SerializerType" where
  "SerializerTypeConverter_convert name =
     (if name = ''CAPNPROTO'' then Inr CAPNPROTO
      else if name = ''CAPNPROTO_NOCOMPRESS'' then Inr CAPNPROTO_NOCOMPRESS
      else if name = ''NO_SERIALIZER'' then Inr NO_SERIALIZER
      else Inl (throw_error INVALID_SERIALIZER_TYPE [Arg_str name]))"

fun SerializerTypeConverter_name :: "SerializerType \<Rightarrow> string" where
  "SerializerTypeConverter_name CAPNPROTO = ''CAPNPROTO''"
| "SerializerTypeConverter_name CAPNPROTO_NOCOMPRESS = ''CAPNPROTO_NOCOMPRESS''"
| "SerializerTypeConverter_name NO_SERIALIZER = ''NO_SERIALIZER''"

fun SerializerFactory_get :: "capnp \<Rightarrow> prim \<Rightarrow> SerializerType \<Rightarrow> serializer" where
  "SerializerFactory_get L T CAPNPROTO = CapnProtoSerializer L T"
| "SerializerFactory_get L T CAPNPROTO_NOCOMPRESS = CapnProtoNoCompressSerializer L T"
| "SerializerFactory_get L T NO_SERIALIZER = NoSerializer T"

text \<open>
  Both conversions accept exactly the names of the enumerators; any other name is an error
  that quotes it.
\<close>

lemma StorageTypeConverter_convert_Inr:
  "StorageTypeConverter_convert name = Inr t \<longleftrightarrow> name = StorageTypeConverter_name t"
  by (cases t) (auto simp: StorageTypeConverter_convert_def)

lemma SerializerTypeConverter_convert_Inr:
  "SerializerTypeConverter_convert name = Inr t \<longleftrightarrow> name = SerializerTypeConverter_name t"
  by (cases t) (auto simp: SerializerTypeConverter_convert_def)

section \<open>The order of the enumerators\<close>

text \<open>The comparison of C++ on a scoped enumeration is that of the values, which count from 0.\<close>

primrec StorageType_value :: "StorageType \<Rightarrow> int" where
  "StorageType_value PMDK_HASHTABLE = 0"
| "StorageType_value PMDK_FS = 1"
| "StorageType_value POSIX = 2"

primrec SerializerType_value :: "SerializerType \<Rightarrow> int" where
  "SerializerType_value CAPNPROTO = 0"
| "SerializerType_value CAPNPROTO_NOCOMPRESS = 1"
| "SerializerType_value NO_SERIALIZER = 2"

lemma StorageType_value_inject: "StorageType_value t = StorageType_value u \<longleftrightarrow> t = u"
  by (cases t; cases u) simp_all

lemma SerializerType_value_inject: "SerializerType_value z = SerializerType_value y \<longleftrightarrow> z = y"
  by (cases z; cases y) simp_all

instantiation StorageType :: linorder
begin

definition less_eq_StorageType :: "StorageType \<Rightarrow> StorageType \<Rightarrow> bool" where
  "less_eq_StorageType t u \<longleftrightarrow> StorageType_value t \<le> StorageType_value u"

definition less_StorageType :: "StorageType \<Rightarrow> StorageType \<Rightarrow> bool" where
  "less_StorageType t u \<longleftrightarrow> StorageType_value t < StorageType_value u"

instance
  by standard (auto simp: less_eq_StorageType_def less_StorageType_def StorageType_value_inject [symmetric])

end

instantiation SerializerType :: linorder
begin

definition less_eq_SerializerType :: "SerializerType \<Rightarrow> SerializerType \<Rightarrow> bool" where
  "less_eq_SerializerType z y \<longleftrightarrow> SerializerType_value z \<le> SerializerType_value y"

definition less_SerializerType :: "SerializerType \<Rightarrow> SerializerType \<Rightarrow> bool" where
  "less_SerializerType z y \<longleftrightarrow> SerializerType_value z < SerializerType_value y"

instance
  by standard (auto simp: less_eq_SerializerType_def less_SerializerType_def SerializerType_value_inject [symmetric])

end

end
