(* ===== verification/Memcpy.thy ===== *)
theory Memcpy
  imports Factories
begin

text \<open>
  memcpy.h: class \<open>PMEM\<close>, which puts a serializer on a storage. With \<open>use_mmap\<close> a value is
  serialized into memory that the storage allocates and is read back where it lies; otherwise
  it is serialized into a buffer of its own that the storage copies. The clients' lemmas are
  proved once, for any storage and any serializer that meet their contracts.
\<close>

section \<open>PMEM\<close>

record 's PMEM =
  pm_serializer :: SerializerType
  pm_storage :: "'s storage"
  pm_use_mmap :: bool

definition PMEM_new ::
    "'p environment \<Rightarrow> StorageType \<Rightarrow> SerializerType \<Rightarrow> bool \<Rightarrow> 'p pmem_state \<Rightarrow> 'p pmem_state \<times> 'p pmem_state PMEM" where
  "PMEM_new E storage serializer use_mmap s =
     (case StorageFactory_get E storage s of
        (s', S) \<Rightarrow> (s', \<lparr>pm_serializer = serializer, pm_storage = S, pm_use_mmap = use_mmap\<rparr>))"

definition PMEM_default :: "'p environment \<Rightarrow> 'p pmem_state \<Rightarrow> 'p pmem_state \<times> 'p pmem_state PMEM" where
  "PMEM_default E = PMEM_new E PMDK_HASHTABLE CAPNPROTO True"

definition PMEM_mmap :: "'s PMEM \<Rightarrow> 's \<Rightarrow> string \<Rightarrow> size_t \<Rightarrow> ('s, unit) outcome" where
  "PMEM_mmap pm s path n = s_mmap (pm_storage pm) s path n"

definition PMEM_munmap :: "'s PMEM \<Rightarrow> 's \<Rightarrow> ('s, unit) outcome" where
  "PMEM_munmap pm s = s_munmap (pm_storage pm) s"

definition PMEM_release :: "'s PMEM \<Rightarrow> 's \<Rightarrow> string \<Rightarrow> ('s, unit) outcome" where
  "PMEM_release pm s path = s_release (pm_storage pm) s path"

definition PMEM_free :: "'s PMEM \<Rightarrow> 's \<Rightarrow> string \<Rightarrow> ('s, unit) outcome" where
  "PMEM_free pm s key = s_free (pm_storage pm) s key"

text \<open>The last owner of a buffer leaves its scope, normally or by an exception.\<close>

definition leave_scope :: "buffer \<Rightarrow> ('z heap_scheme, 'a) outcome \<Rightarrow> ('z heap_scheme, 'a) outcome" where
  "leave_scope b r =
     (case r of (s, x) \<Rightarrow>
        (case malloc_buffer_destroy b s of
           Inl e \<Rightarrow> (s, Inl e)
         | Inr s' \<Rightarrow> (s', x)))"

text \<open>
  Both overloads of \<open>store\<close>, for \<open>T &src\<close> and for \<open>T *src, Dimensions dims\<close>, are the cases of
  the target; the source is given by its memory.
\<close>

definition PMEM_store ::
    "capnp \<Rightarrow> 'z heap_scheme PMEM \<Rightarrow> prim \<Rightarrow> 'z heap_scheme \<Rightarrow> string \<Rightarrow> target \<Rightarrow> bytes \<Rightarrow>
       ('z heap_scheme, unit) outcome" where
  "PMEM_store L pm T s key tgt src =
     (let S = pm_storage pm; serial = SerializerFactory_get L T (pm_serializer pm)
      in if pm_use_mmap pm then
           bind_out (s_alloc S s key (est_encoded_size serial (payload_size T tgt))) (\<lambda>s1 buf.
             leave_scope buf
               (case s_mem S s1 buf of
                  Inl e \<Rightarrow> (s1, Inl e)
                | Inr mem \<Rightarrow>
                    (case serialize_into serial tgt (buffer_size buf) mem src of
                       Inl e \<Rightarrow> (s1, Inl e)
                     | Inr (mem', n) \<Rightarrow> (s_set_mem S s1 buf mem', Inr ()))))
         else
           (case serialize_new serial tgt src of
              Inl e \<Rightarrow> (s, Inl e)
            | Inr bs \<Rightarrow>
                (case malloc_buffer_copy_of bs s of
                   Inl e \<Rightarrow> (s, Inl e)
                 | Inr (s1, buf) \<Rightarrow> leave_scope buf (s_store S s1 key buf))))"

text \<open>Both overloads of \<open>load\<close>; the result is the new memory of the destination.\<close>

definition PMEM_load ::
    "capnp \<Rightarrow> 'z heap_scheme PMEM \<Rightarrow> prim \<Rightarrow> 'z heap_scheme \<Rightarrow> string \<Rightarrow> target \<Rightarrow> bytes \<Rightarrow>
       ('z heap_scheme, bytes) outcome" where
  "PMEM_load L pm T s key tgt dst =
     (let S = pm_storage pm; serial = SerializerFactory_get L T (pm_serializer pm)
      in bind_out (if pm_use_mmap pm then s_find S s key else s_load S s key) (\<lambda>s1 buf.
           leave_scope buf
             (case s_mem S s1 buf of
                Inl e \<Rightarrow> (s1, Inl e)
              | Inr mem \<Rightarrow> (s1, deserialize serial tgt dst (buffer_size buf) mem))))"

text \<open>The overloads with offsets and sizes do not look at them.\<close>

definition PMEM_store_region ::
    "capnp \<Rightarrow> 'z heap_scheme PMEM \<Rightarrow> prim \<Rightarrow> 'z heap_scheme \<Rightarrow> string \<Rightarrow> bytes \<Rightarrow> Dimensions \<Rightarrow> Dimensions \<Rightarrow>
       Dimensions \<Rightarrow> ('z heap_scheme, unit) outcome" where
  "PMEM_store_region L pm T s key src offsets sizes dims = PMEM_store L pm T s key (Array dims) src"

definition PMEM_load_region ::
    "capnp \<Rightarrow> 'z heap_scheme PMEM \<Rightarrow> prim \<Rightarrow> 'z heap_scheme \<Rightarrow> string \<Rightarrow> bytes \<Rightarrow> Dimensions \<Rightarrow> Dimensions \<Rightarrow>
       Dimensions \<Rightarrow> ('z heap_scheme, bytes) outcome" where
  "PMEM_load_region L pm T s key dst offsets sizes dims = PMEM_load L pm T s key (Array dims) dst"

section \<open>Clients of the contracts\<close>

locale pmem_client = storage_contract S wf ok_id contents backs quiet + serializer_contract Z T enc fits
  for S :: "'z heap_scheme storage" and wf ok_id contents backs quiet Z T enc fits +
  fixes L :: capnp and pm :: "'z heap_scheme PMEM"
  assumes pm_S: "pm_storage pm = S" and pm_Z: "SerializerFactory_get L T (pm_serializer pm) = Z"
begin

lemma leave_scope_Inr:
  assumes "leave_scope b (s1, Inr x) = (s', Inr y)" and "wf s1"
  shows "wf s' \<and> contents s' = contents s1 \<and> y = x"
  using assms destroy_frame [of s1 b s'] by (auto simp: leave_scope_def split: sum.splits)

text \<open>What \<open>store\<close> of a new key leaves in the storage.\<close>

lemma store_contents:
  assumes "quiet" and "wf s" and "ok_id key" and "contents s key = None" and "fits tgt v"
    and "length (enc tgt v) < 2 ^ 63" and "PMEM_store L pm T s key tgt v = (s', Inr ())"
  obtains pad where "wf s'" and "contents s' = (contents s)(key \<mapsto> enc tgt v @ pad)"
    and "pm_use_mmap pm \<Longrightarrow> length (enc tgt v @ pad) = unat (est_encoded_size Z (payload_size T tgt))"
    and "\<not> pm_use_mmap pm \<Longrightarrow> pad = []"
proof (cases "pm_use_mmap pm")
  case True
  let ?n = "est_encoded_size Z (payload_size T tgt)"
  obtain s1 buf where al: "s_alloc S s key ?n = (s1, Inr buf)"
    using assms(7) True by (auto simp: PMEM_store_def Let_def pm_S pm_Z bind_out_Inr_iff)
  obtain bs where 1: "wf s1" "backs s1 buf key" "buffer_size buf = ?n" "length bs = unat ?n"
    "contents s1 = (contents s)(key \<mapsto> bs)"
    using alloc_new [OF assms(1-4) al] by blast
  have mem: "s_mem S s1 buf = Inr bs" by (rule mem_backed [OF 1(1,2)]) (simp add: 1(5))
  have le: "length (enc tgt v) \<le> length bs" using fits_est [OF assms(5)] 1(4) by simp
  let ?bs = "enc tgt v @ drop (length (enc tgt v)) bs"
  have "serialize_into Z tgt (buffer_size buf) bs v = Inr (?bs, of_nat (length (enc tgt v)))"
    using into_enc [OF assms(5) le, of "buffer_size buf"] 1(3,4) by simp
  then have "leave_scope buf (s_set_mem S s1 buf ?bs, Inr ()) = (s', Inr ())"
    using assms(7) True al mem by (simp add: PMEM_store_def Let_def pm_S pm_Z)
  moreover have "wf (s_set_mem S s1 buf ?bs) \<and> contents (s_set_mem S s1 buf ?bs) = (contents s1)(key \<mapsto> ?bs)"
    by (rule set_mem_backed [OF 1(1,2)]) (use 1(5) le in auto)
  ultimately have "wf s' \<and> contents s' = (contents s)(key \<mapsto> ?bs)"
    using leave_scope_Inr 1(5) by fastforce
  then show ?thesis using that [of "drop (length (enc tgt v)) bs"] True le 1(4) by simp
next
  case False
  obtain s1 buf where cp: "malloc_buffer_copy_of (enc tgt v) s = Inr (s1, buf)"
    by (simp add: malloc_buffer_copy_of_eq)
  obtain s2 where st: "s_store S s1 key buf = (s2, Inr ())" and lv: "leave_scope buf (s2, Inr ()) = (s', Inr ())"
    using assms(7) False cp
    by (auto simp: PMEM_store_def Let_def pm_S pm_Z new_enc [OF assms(5)] leave_scope_def split: prod.splits sum.splits)
  have 1: "wf s1" "contents s1 = contents s" "s_mem S s1 buf = Inr (enc tgt v)"
    "unat (buffer_size buf) = length (enc tgt v)"
    using heap_buffer [OF assms(2) cp] assms(6) by auto
  have "wf s2 \<and> contents s2 = (contents s1)(key \<mapsto> enc tgt v)"
    by (rule store_new [OF assms(1) 1(1) assms(3) _ 1(3,4) assms(6) st]) (simp add: 1(2) assms(4))
  with leave_scope_Inr [OF lv] 1(2) have "wf s' \<and> contents s' = (contents s)(key \<mapsto> enc tgt v @ [])" by simp
  then show ?thesis using that [of "[]"] False by simp
qed

text \<open>
  \<open>store\<close> returns when the storage has room: when \<open>alloc\<close> gives a buffer, and when \<open>store\<close>
  takes one and leaves the heap alone.
\<close>

lemma store_returns:
  assumes "quiet" and "wf s" and "ok_id key" and "contents s key = None" and "fits tgt v"
    and "length (enc tgt v) < 2 ^ 63"
    and "pm_use_mmap pm \<Longrightarrow> \<exists>s1 b. s_alloc S s key (est_encoded_size Z (payload_size T tgt)) = (s1, Inr b)"
    and "\<And>s1 b. \<not> pm_use_mmap pm \<Longrightarrow> malloc_buffer_copy_of (enc tgt v) s = Inr (s1, b) \<Longrightarrow>
      \<exists>s2. s_store S s1 key b = (s2, Inr ()) \<and> h_blocks s2 = h_blocks s1"
  shows "\<exists>s'. PMEM_store L pm T s key tgt v = (s', Inr ())"
proof (cases "pm_use_mmap pm")
  case True
  let ?n = "est_encoded_size Z (payload_size T tgt)"
  obtain s1 buf where al: "s_alloc S s key ?n = (s1, Inr buf)" using assms(7) True by blast
  obtain bs where 1: "wf s1" "backs s1 buf key" "buffer_size buf = ?n" "length bs = unat ?n"
    "contents s1 = (contents s)(key \<mapsto> bs)" "malloc_buffer_destroy buf = (Inr :: 'z heap_scheme \<Rightarrow> failure + 'z heap_scheme)"
    using alloc_new [OF assms(1-4) al] by blast
  have mem: "s_mem S s1 buf = Inr bs" by (rule mem_backed [OF 1(1,2)]) (simp add: 1(5))
  have le: "length (enc tgt v) \<le> length bs" using fits_est [OF assms(5)] 1(4) by simp
  have "serialize_into Z tgt ?n bs v = Inr (overlay bs 0 (enc tgt v), of_nat (length (enc tgt v)))"
    by (rule into_enc [OF assms(5) le]) (simp add: 1(4))
  then show ?thesis using True al mem 1(3,6) by (simp add: PMEM_store_def Let_def pm_S pm_Z leave_scope_def)
next
  case False
  obtain s1 buf where cp: "malloc_buffer_copy_of (enc tgt v) s = Inr (s1, buf)"
    by (simp add: malloc_buffer_copy_of_eq)
  obtain s2 where st: "s_store S s1 key buf = (s2, Inr ())" "h_blocks s2 = h_blocks s1"
    using assms(8) [OF False cp] by blast
  have "\<exists>s3. malloc_buffer_destroy buf s2 = Inr s3"
    using cp st(2) by (auto simp: malloc_buffer_copy_of_eq free_ptr_def)
  then show ?thesis
    using False cp st(1) by (auto simp: PMEM_store_def Let_def pm_S pm_Z new_enc [OF assms(5)] leave_scope_def)
qed

text \<open>\<open>load\<close> of such contents returns the value.\<close>

lemma load_contents:
  assumes "quiet" and "wf s" and "ok_id key" and "contents s key = Some (enc tgt v @ pad)" and "fits tgt v"
    and "length dst = length v" and "enc tgt v @ pad \<noteq> []"
    and "pad = [] \<or> length (enc tgt v @ pad) = unat (est_encoded_size Z (payload_size T tgt))"
  shows "\<exists>s'. PMEM_load L pm T s key tgt dst = (s', Inr v) \<and> wf s' \<and> contents s' = contents s"
proof -
  let ?bs = "enc tgt v @ pad"
  obtain s1 buf s2 where get: "(if pm_use_mmap pm then s_find S s key else s_load S s key) = (s1, Inr buf)"
    and 1: "wf s1" "contents s1 = contents s" "s_mem S s1 buf = Inr ?bs" "unat (buffer_size buf) = length ?bs"
    and rel: "malloc_buffer_destroy buf s1 = Inr s2"
  proof (cases "pm_use_mmap pm")
    case True
    obtain s1 buf where f: "s_find S s key = (s1, Inr buf)" "wf s1" "contents s1 = contents s" "backs s1 buf key"
      "unat (buffer_size buf) = length ?bs" "malloc_buffer_destroy buf s1 = Inr s1"
      using find_stored [OF assms(1-4,7)] by auto
    moreover have "s_mem S s1 buf = Inr ?bs" by (rule mem_backed [OF f(2,4)]) (simp add: f(3) assms(4))
    ultimately show ?thesis using that [of s1 buf s1] True by simp
  next
    case False
    obtain s1 buf s2 where l: "s_load S s key = (s1, Inr buf)" "malloc_buffer_destroy buf s1 = Inr s2"
      using load_returns [OF assms(1-4)] by blast
    with load_stored [OF assms(2-4) l(1)] that [of s1 buf s2] False show ?thesis by simp
  qed
  have "deserialize Z tgt dst (buffer_size buf) ?bs = Inr v"
    by (rule deserialize_enc [OF assms(5,6) 1(4) assms(8)])
  then have load: "PMEM_load L pm T s key tgt dst = leave_scope buf (s1, Inr v)"
    by (simp add: PMEM_load_def Let_def pm_S pm_Z get 1(3))
  also have "\<dots> = (s2, Inr v)" by (simp add: leave_scope_def rel)
  finally show ?thesis using destroy_frame [OF 1(1) rel] 1(2) by simp
qed

text \<open>
  A stored value is loaded back, and the other keys keep their contents. In the mapped mode the
  storage must have given some memory; an empty one cannot be mapped.
\<close>

lemma store_load:
  assumes "quiet" and "wf s" and "ok_id key" and "contents s key = None" and "fits tgt v"
    and "length (enc tgt v) < 2 ^ 63" and "length dst = length v" and "enc tgt v \<noteq> []"
    and "PMEM_store L pm T s key tgt v = (s1, Inr ())"
  shows "\<exists>s2. PMEM_load L pm T s1 key tgt dst = (s2, Inr v) \<and> wf s2 \<and>
    (\<forall>k. k \<noteq> key \<longrightarrow> contents s2 k = contents s k)"
proof -
  obtain pad where 1: "wf s1" "contents s1 = (contents s)(key \<mapsto> enc tgt v @ pad)"
    "pm_use_mmap pm \<Longrightarrow> length (enc tgt v @ pad) = unat (est_encoded_size Z (payload_size T tgt))"
    "\<not> pm_use_mmap pm \<Longrightarrow> pad = []"
    using store_contents [OF assms(1-6,9)] by blast
  have "\<exists>s2. PMEM_load L pm T s1 key tgt dst = (s2, Inr v) \<and> wf s2 \<and> contents s2 = contents s1"
    by (rule load_contents [OF assms(1) 1(1) assms(3) _ assms(5,7)]) (use 1 assms(8) in auto)
  then show ?thesis using 1(2) by auto
qed

text \<open>A freed key cannot be loaded in the mapped mode.\<close>

lemma store_free_find:
  assumes "quiet" and "wf s" and "ok_id key" and "contents s key = None" and "fits tgt v"
    and "length (enc tgt v) < 2 ^ 63" and "PMEM_store L pm T s key tgt v = (s1, Inr ())"
    and "PMEM_free pm s1 key = (s2, Inr ())" and "pm_use_mmap pm"
  shows "wf s2 \<and> contents s2 = contents s \<and> (\<forall>dst. isl (snd (PMEM_load L pm T s2 key tgt dst)))"
proof -
  obtain bs where 1: "wf s1" "contents s1 = (contents s)(key \<mapsto> bs)"
    using store_contents [OF assms(1-7)] by metis
  have 2: "wf s2" "contents s2 = contents s"
    using free_stored [OF 1(1) assms(3), of bs s2] 1(2) assms(4,8) by (auto simp: PMEM_free_def pm_S fun_upd_idem)
  have "isl (snd (PMEM_load L pm T s2 key tgt dst))" for dst
  proof -
    obtain s3 r where f: "s_find S s2 key = (s3, r)" by fastforce
    then have "isl r" using find_missing [OF 2(1) assms(3) _ f] 2(2) assms(4) by simp
    then show ?thesis using f assms(9) by (auto simp: PMEM_load_def Let_def pm_S pm_Z isl_def)
  qed
  with 2 show ?thesis by simp
qed

end

end
