(* ===== verification/Sessions.thy ===== *)
theory Sessions
  imports Memcpy
begin

text \<open>
  Sequences of calls on a \<open>PMEM\<close> object as a step relation, and the map of values they are an
  implementation of. The simulation is proved for any storage and serializer that meet their
  contracts; the clients of the concrete ones are at the end.
\<close>

section \<open>Commands\<close>

datatype command =
    Store string target bytes
  | Load string target bytes bytes
  | Free string

inductive pmem_step ::
    "capnp \<Rightarrow> 'z heap_scheme PMEM \<Rightarrow> prim \<Rightarrow> 'z heap_scheme \<Rightarrow> command \<Rightarrow> 'z heap_scheme \<Rightarrow> bool"
  for L pm T where
  step_store: "PMEM_store L pm T s key tgt src = (s', Inr ()) \<Longrightarrow> pmem_step L pm T s (Store key tgt src) s'"
| step_load: "PMEM_load L pm T s key tgt dst = (s', Inr res) \<Longrightarrow> pmem_step L pm T s (Load key tgt dst res) s'"
| step_free: "PMEM_free pm s key = (s', Inr ()) \<Longrightarrow> pmem_step L pm T s (Free key) s'"

inductive_cases pmem_step_StoreE: "pmem_step L pm T s (Store key tgt src) s'"
inductive_cases pmem_step_LoadE: "pmem_step L pm T s (Load key tgt dst res) s'"
inductive_cases pmem_step_FreeE: "pmem_step L pm T s (Free key) s'"

inductive_simps pmem_step_simps:
  "pmem_step L pm T s (Store key tgt src) s'"
  "pmem_step L pm T s (Load key tgt dst res) s'"
  "pmem_step L pm T s (Free key) s'"

inductive pmem_run ::
    "capnp \<Rightarrow> 'z heap_scheme PMEM \<Rightarrow> prim \<Rightarrow> 'z heap_scheme \<Rightarrow> command list \<Rightarrow> 'z heap_scheme \<Rightarrow> bool"
  for L pm T where
  run_Nil: "pmem_run L pm T s [] s"
| run_Cons: "pmem_step L pm T s c s1 \<Longrightarrow> pmem_run L pm T s1 cs s2 \<Longrightarrow> pmem_run L pm T s (c # cs) s2"

section \<open>The map of values\<close>

type_synonym values_map = "string \<Rightarrow> (target \<times> bytes) option"

text \<open>
  What the calls mean: a value is stored under a new key, a stored value is loaded as what it
  was stored, into memory of its size, and a stored value is freed. Other calls are outside
  the specification (None).
\<close>

fun spec_command :: "values_map \<Rightarrow> command \<Rightarrow> values_map option" where
  "spec_command m (Store key tgt src) = (if m key = None then Some (m(key \<mapsto> (tgt, src))) else None)"
| "spec_command m (Load key tgt dst res) =
     (case m key of
        Some (tgt', v) \<Rightarrow> if tgt' = tgt \<and> length dst = length v then Some m else None
      | None \<Rightarrow> None)"
| "spec_command m (Free key) = (if m key = None then None else Some (m(key := None)))"

fun spec_commands :: "values_map \<Rightarrow> command list \<Rightarrow> values_map option" where
  "spec_commands m [] = Some m"
| "spec_commands m (c # cs) =
     (case spec_command m c of None \<Rightarrow> None | Some m' \<Rightarrow> spec_commands m' cs)"

text \<open>The results the map prescribes.\<close>

fun spec_result :: "values_map \<Rightarrow> command \<Rightarrow> bool" where
  "spec_result m (Load key tgt dst res) = (map_option snd (m key) = Some res)"
| "spec_result m _ = True"

fun spec_results :: "values_map \<Rightarrow> command list \<Rightarrow> bool" where
  "spec_results m [] = True"
| "spec_results m (c # cs) =
     (spec_result m c \<and> (case spec_command m c of None \<Rightarrow> True | Some m' \<Rightarrow> spec_results m' cs))"

text \<open>What a key and a value must satisfy for the contracts to speak about them.\<close>

fun admissible :: "(string \<Rightarrow> bool) \<Rightarrow> (target \<Rightarrow> bytes \<Rightarrow> bool) \<Rightarrow> command \<Rightarrow> bool" where
  "admissible ok good (Store key tgt src) = (ok key \<and> good tgt src)"
| "admissible ok good (Load key tgt dst res) = True"
| "admissible ok good (Free key) = True"

section \<open>The simulation\<close>

context pmem_client
begin

definition good :: "target \<Rightarrow> bytes \<Rightarrow> bool" where
  "good tgt v \<longleftrightarrow> fits tgt v \<and> enc tgt v \<noteq> [] \<and> length (enc tgt v) < 2 ^ 63"

definition holds :: "bytes \<Rightarrow> target \<Rightarrow> bytes \<Rightarrow> bool" where
  "holds bs tgt v \<longleftrightarrow>
     (\<exists>pad. bs = enc tgt v @ pad \<and>
        (pad = [] \<or> length bs = unat (est_encoded_size Z (payload_size T tgt))))"

definition sim :: "'z heap_scheme \<Rightarrow> values_map \<Rightarrow> bool" where
  "sim s m \<longleftrightarrow> wf s \<and>
     (\<forall>key. ok_id key \<longrightarrow> m key = None \<longrightarrow> contents s key = None) \<and>
     (\<forall>key tgt v. m key = Some (tgt, v) \<longrightarrow>
        ok_id key \<and> good tgt v \<and> (\<exists>bs. contents s key = Some bs \<and> holds bs tgt v))"

lemma simD:
  assumes "sim s m"
  shows "wf s" and "ok_id key \<Longrightarrow> m key = None \<Longrightarrow> contents s key = None"
    and "m key = Some (tgt, v) \<Longrightarrow> ok_id key \<and> good tgt v \<and> (\<exists>bs. contents s key = Some bs \<and> holds bs tgt v)"
  using assms unfolding sim_def by blast+

lemma sim_cong: "sim s m \<Longrightarrow> wf s' \<Longrightarrow> contents s' = contents s \<Longrightarrow> sim s' m"
  by (simp add: sim_def)

lemma step_sim:
  assumes "quiet" and sim: "sim s m" and step: "pmem_step L pm T s c s'"
    and spec: "spec_command m c = Some m'" and adm: "admissible ok_id good c"
  shows "sim s' m' \<and> spec_result m c"
proof (cases c)
  case (Store key tgt v)
  then have new: "m key = None" and m': "m' = m(key \<mapsto> (tgt, v))" and ok: "ok_id key" and g: "good tgt v"
    using spec adm by (auto split: if_splits)
  have st: "PMEM_store L pm T s key tgt v = (s', Inr ())" using step Store by (auto elim: pmem_step_StoreE)
  have g': "fits tgt v" "length (enc tgt v) < 2 ^ 63" using g by (simp_all add: good_def)
  obtain pad where 1: "wf s'" "contents s' = (contents s)(key \<mapsto> enc tgt v @ pad)"
    "pm_use_mmap pm \<Longrightarrow> length (enc tgt v @ pad) = unat (est_encoded_size Z (payload_size T tgt))"
    "\<not> pm_use_mmap pm \<Longrightarrow> pad = []"
    using store_contents [OF assms(1) simD(1) [OF sim] ok simD(2) [OF sim ok new] g' st] by blast
  have "holds (enc tgt v @ pad) tgt v" using 1(3,4) by (auto simp: holds_def)
  then have "sim s' m'" using sim ok g 1(1) by (auto simp: sim_def m' 1(2))
  then show ?thesis using Store by simp
next
  case (Load key tgt dst res)
  then obtain v where m: "m key = Some (tgt, v)" "length dst = length v" and m': "m' = m"
    using spec by (auto split: option.splits if_splits)
  obtain bs where ok: "ok_id key" and g: "good tgt v" and bs: "contents s key = Some bs" "holds bs tgt v"
    using simD(3) [OF sim m(1)] by blast
  then obtain pad where pad: "contents s key = Some (enc tgt v @ pad)" "enc tgt v @ pad \<noteq> []" "fits tgt v"
    "pad = [] \<or> length (enc tgt v @ pad) = unat (est_encoded_size Z (payload_size T tgt))"
    by (auto simp: holds_def good_def)
  have "PMEM_load L pm T s key tgt dst = (s', Inr res)" using step Load by (auto elim: pmem_step_LoadE)
  with load_contents [OF assms(1) simD(1) [OF sim] ok pad(1,3) m(2) pad(2,4)]
  have "res = v \<and> wf s' \<and> contents s' = contents s" by auto
  then show ?thesis using sim_cong [OF sim] m(1) by (simp add: Load m')
next
  case (Free key)
  then obtain tgt v where m: "m key = Some (tgt, v)" and m': "m' = m(key := None)"
    using spec by (auto split: if_splits)
  obtain bs where ok: "ok_id key" and bs: "contents s key = Some bs"
    using simD(3) [OF sim m] by blast
  have "s_free S s key = (s', Inr ())" using step Free by (auto elim: pmem_step_FreeE simp: PMEM_free_def pm_S)
  with free_stored [OF simD(1) [OF sim] ok bs] have "wf s'" "contents s' = (contents s)(key := None)" by auto
  then show ?thesis using sim by (auto simp: sim_def Free m')
qed

text \<open>Every run that the specification covers returns what the map prescribes.\<close>

lemma run_sim:
  assumes "quiet" and "pmem_run L pm T s cs s'" and "sim s m" and "spec_commands m cs = Some m'"
    and "\<forall>c \<in> set cs. admissible ok_id good c"
  shows "sim s' m' \<and> spec_results m cs"
  using assms(2-)
proof (induction arbitrary: m rule: pmem_run.induct)
  case (run_Nil s)
  then show ?case by simp
next
  case (run_Cons s c s1 cs s2)
  from run_Cons.prems(2) obtain m1 where m1: "spec_command m c = Some m1" "spec_commands m1 cs = Some m'"
    by (auto split: option.splits)
  from step_sim [OF assms(1) run_Cons.prems(1) run_Cons.hyps(1) m1(1)] run_Cons.prems(3)
  have "sim s1 m1" "spec_result m c" by auto
  with run_Cons.IH [of m1] run_Cons.prems(3) m1 show ?case by simp
qed

text \<open>From a storage that holds nothing.\<close>

lemma run_from_empty:
  assumes "quiet" and "wf s" and "\<And>key. ok_id key \<Longrightarrow> contents s key = None"
    and "\<forall>c \<in> set cs. admissible ok_id (\<lambda>tgt v. fits tgt v \<and> enc tgt v \<noteq> [] \<and> length (enc tgt v) < 2 ^ 63) c"
    and "pmem_run L pm T s cs s'" and "spec_commands (\<lambda>_. None) cs = Some m"
  shows "spec_results (\<lambda>_. None) cs \<and> wf s' \<and>
    (\<forall>key. ok_id key \<longrightarrow> contents s' key = None \<longleftrightarrow> m key = None)"
proof -
  have "sim s (\<lambda>_. None)" using assms(2,3) by (simp add: sim_def)
  moreover have "(\<lambda>tgt v. fits tgt v \<and> enc tgt v \<noteq> [] \<and> length (enc tgt v) < 2 ^ 63) = good"
    by (simp add: good_def fun_eq_iff)
  ultimately have sim: "sim s' m" and res: "spec_results (\<lambda>_. None) cs"
    using run_sim [OF assms(1,5) _ assms(6)] assms(4) by auto
  have "contents s' key = None \<longleftrightarrow> m key = None" if "ok_id key" for key
    using simD(2,3) [OF sim] that by (cases "m key") fastforce+
  then show ?thesis using res simD(1) [OF sim] by blast
qed

end

end
