(* ===== verification/Clients.thy ===== *)
theory Clients
  imports Sessions
begin

text \<open>
  The clients of the concrete storages and serializers: which configurations of \<open>PMEM\<close> meet
  the assumptions of \<open>pmem_client\<close>, and, for \<open>PosixStorage\<close> on a system where no call fails,
  that the calls return.
\<close>

section \<open>Serializers by their type\<close>

text \<open>What each serializer writes for a value, and for which values it is specified.\<close>

fun enc_of :: "capnp \<Rightarrow> prim \<Rightarrow> SerializerType \<Rightarrow> target \<Rightarrow> bytes \<Rightarrow> bytes" where
  "enc_of L T CAPNPROTO = encoded (write_packed L) T"
| "enc_of L T CAPNPROTO_NOCOMPRESS = encoded (write_flat L) T"
| "enc_of L T NO_SERIALIZER = (\<lambda>_ v. v)"

fun fits_of :: "capnp \<Rightarrow> prim \<Rightarrow> SerializerType \<Rightarrow> target \<Rightarrow> bytes \<Rightarrow> bool" where
  "fits_of L T CAPNPROTO = capnp_fits (write_packed L) CapnProto_est_encoded_size T"
| "fits_of L T CAPNPROTO_NOCOMPRESS = capnp_fits (write_flat L) NoCompress_est_encoded_size T"
| "fits_of L T NO_SERIALIZER = NoSerializer_fits T"

lemma factory_contract:
  assumes "capnp_library L \<or> z = NO_SERIALIZER"
  shows "serializer_contract (SerializerFactory_get L T z) T (enc_of L T z) (fits_of L T z)"
proof (cases z)
  case CAPNPROTO
  with assms have "capnp_library L" by simp
  then show ?thesis using CAPNPROTO capnp_library.packed_contract by simp
next
  case CAPNPROTO_NOCOMPRESS
  with assms have "capnp_library L" by simp
  then show ?thesis using CAPNPROTO_NOCOMPRESS capnp_library.flat_contract by simp
next
  case NO_SERIALIZER
  then show ?thesis using noser.serializer_contract_axioms by simp
qed

section \<open>Storages with any serializer\<close>

lemma posix_client:
  assumes "capnp_library L \<or> pm_serializer pm = NO_SERIALIZER" and "pm_storage pm = PosixStorage F"
  shows "pmem_client (PosixStorage F) files_ok file_key file_contents mapped_on (quiet_reads F)
    (SerializerFactory_get L T (pm_serializer pm)) T (enc_of L T (pm_serializer pm)) (fits_of L T (pm_serializer pm)) L pm"
  by (intro pmem_client.intro posix.storage_contract_axioms factory_contract pmem_client_axioms.intro)
    (use assms in simp_all)

lemma pmdk_fs_client:
  assumes "capnp_library L \<or> pm_serializer pm = NO_SERIALIZER" and "libpmem_library P"
    and "pm_storage pm = FilesystemPMDKStorage F P"
  shows "pmem_client (FilesystemPMDKStorage F P) files_ok file_key file_contents mapped_on (quiet_reads F \<and> pmem_maps P)
    (SerializerFactory_get L T (pm_serializer pm)) T (enc_of L T (pm_serializer pm)) (fits_of L T (pm_serializer pm)) L pm"
  by (intro pmem_client.intro libpmem_library.pmdk_fs_contract factory_contract pmem_client_axioms.intro)
    (use assms in simp_all)

lemma hashtable_client:
  assumes "capnp_library L \<or> pm_serializer pm = NO_SERIALIZER" and "pmemobj_library P po_ok"
    and "pm_storage pm = PMDKHashtableStorage hash P"
  shows "pmem_client (PMDKHashtableStorage hash P) (hash_ok P po_ok) hash_key (hash_contents hash P)
    (hash_backs hash P) (inserts_succeed P)
    (SerializerFactory_get L T (pm_serializer pm)) T (enc_of L T (pm_serializer pm)) (fits_of L T (pm_serializer pm)) L pm"
  by (intro pmem_client.intro pmemobj_library.hashtable_contract factory_contract pmem_client_axioms.intro)
    (use assms in simp_all)

definition posix_pmem :: "os_faults \<Rightarrow> SerializerType \<Rightarrow> bool \<Rightarrow> 'z file_storage_scheme PMEM" where
  "posix_pmem F z use_mmap = \<lparr>pm_serializer = z, pm_storage = PosixStorage F, pm_use_mmap = use_mmap\<rparr>"

interpretation posix_raw: pmem_client "PosixStorage F" files_ok file_key file_contents mapped_on "quiet_reads F"
  "NoSerializer T" T "\<lambda>_ v. v" "NoSerializer_fits T" L "posix_pmem F NO_SERIALIZER use_mmap" for F T L use_mmap
  using posix_client [of L "posix_pmem F NO_SERIALIZER use_mmap" F T] by (simp add: posix_pmem_def)

section \<open>PosixStorage on a system without failures\<close>

lemma open_new_returns:
  assumes "files_ok s" and "file_key key" and "fs_names s (key_path s key) = None"
  obtains s1 where "os_open no_faults (key_path s key) True s = (s1, Some (fs_next s))"
  using assms parent_exists_key [OF assms(1,2)] by (simp add: os_open_def no_faults_def)

lemma Posix_alloc_returns:
  assumes "files_ok s" and "file_key key" and "fs_names s (key_path s key) = None"
    and "0 < n" and "unat n < 2 ^ 63"
  shows "\<exists>s' b. Posix_alloc no_faults s key n = (s', Inr b)"
proof -
  obtain s1 where o: "os_open no_faults (key_path s key) True s = (s1, Some (fs_next s))"
    using open_new_returns [OF assms(1-3)] .
  have "\<exists>s2. os_ftruncate no_faults (fs_next s) (unat n) s1 = (s2, True)"
    using assms(5) by (simp add: os_ftruncate_def no_faults_def)
  then obtain s2 where t: "os_ftruncate no_faults (fs_next s) (unat n) s1 = (s2, True)" ..
  have "unat n \<noteq> 0" using assms(4) by (simp add: unat_eq_0)
  then have "mmap_buffer_alloc no_faults (fs_next s) n s2 =
      (s2, Inr (Mmap_buffer (Mapping (fs_next s) (unat n)) n (sint (fd_number no_faults))))"
    by (simp add: mmap_buffer_alloc_def os_mmap_def no_faults_def)
  then show ?thesis by (simp add: Posix_alloc_def o t)
qed

lemma Posix_store_returns:
  assumes "files_ok s" and "file_key key" and "fs_names s (key_path s key) = None"
    and "os_mem s src = Inr bs" and "unat (buffer_size src) = length bs" and "length bs < 2 ^ 63"
  shows "\<exists>s'. Posix_store no_faults s key src = (s', Inr ()) \<and> h_blocks s' = h_blocks s"
proof -
  obtain s1 where o: "os_open no_faults (key_path s key) True s = (s1, Some (fs_next s))"
    using open_new_returns [OF assms(1-3)] .
  have none: "file_contents s key = None" using assms(1,3) by (simp add: file_contents_None)
  have mem: "os_mem s1 src = Inr bs" using open_mem [OF assms(1) o] assms(4) by simp
  obtain s2 where w: "os_write no_faults (fs_next s) bs s1 = (s2, int (length bs))" and "h_blocks s2 = h_blocks s1"
    using assms(6) by (simp add: os_write_def no_faults_def Let_def)
  moreover have "h_blocks s1 = h_blocks s" by (rule open_new(7) [OF assms(1) none o])
  moreover have "buffer_size src = word_of_int (int (length bs))"
    using word_of_length [OF assms(5) [symmetric]] by simp
  ultimately show ?thesis using assms(5) by (auto simp: Posix_store_def o mem w)
qed

lemma posix_store_returns:
  assumes "capnp_library L \<or> z = NO_SERIALIZER" and "files_ok s" and "file_key key"
    and "fs_names s (key_path s key) = None"
    and "fits_of L T z tgt v" and "length (enc_of L T z tgt v) < 2 ^ 63"
    and "0 < est_encoded_size (SerializerFactory_get L T z) (payload_size T tgt)"
    and "unat (est_encoded_size (SerializerFactory_get L T z) (payload_size T tgt)) < 2 ^ 63"
  shows "\<exists>s1. PMEM_store L (posix_pmem no_faults z use_mmap) T s key tgt v = (s1, Inr ())"
proof -
  let ?pm = "posix_pmem no_faults z use_mmap :: 'a file_storage_scheme PMEM"
  have "pmem_client (PosixStorage no_faults) files_ok file_key file_contents mapped_on (quiet_reads no_faults)
    (SerializerFactory_get L T z) T (enc_of L T z) (fits_of L T z) L ?pm"
    using posix_client [of L ?pm no_faults T] assms(1) by (simp add: posix_pmem_def)
  then show ?thesis
  proof (rule pmem_client.store_returns)
    show "file_contents s key = None" using assms(2,4) by (simp add: file_contents_None)
    show "\<exists>s1 b. s_alloc (PosixStorage no_faults) s key (est_encoded_size (SerializerFactory_get L T z) (payload_size T tgt)) =
        (s1, Inr b)"
      using Posix_alloc_returns [OF assms(2-4,7,8)] by simp
    show "\<exists>s2. s_store (PosixStorage no_faults) s1 key b = (s2, Inr ()) \<and> h_blocks s2 = h_blocks s1"
      if cp: "malloc_buffer_copy_of (enc_of L T z tgt v) s = Inr (s1, b)" for s1 b
    proof -
      have "length (enc_of L T z tgt v) < 2 ^ 64" using assms(6) by simp
      note c = copy_of_frame [OF assms(2) cp this]
      have "fs_names s1 (key_path s1 key) = None"
        using assms(4) cp by (auto simp: malloc_buffer_copy_of_eq key_path_def)
      from Posix_store_returns [OF c(1) assms(3) this c(3,4) assms(6)] show ?thesis by simp
    qed
  qed (use assms in simp_all)
qed

section \<open>The hash table in a pool with room\<close>

text \<open>Allocations whose constructors succeed do not fail.\<close>

definition allocs_succeed :: "'p pmemobj \<Rightarrow> bool" where
  "allocs_succeed P \<longleftrightarrow>
     (\<forall>n c p. n \<noteq> 0 \<and> (\<forall>raw. length raw = unat n \<longrightarrow> \<not> isl (c raw)) \<longrightarrow>
        (\<exists>p' ob. po_alloc P n c p = (p', Inr (Some ob)))) \<and>
     (\<forall>i c p. (\<forall>raw. length (pp_id raw) = 512 \<longrightarrow> \<not> isl (c raw)) \<longrightarrow>
        (\<exists>p' ob. po_insert P i c p = (p', Inr (Some ob))))"

lemma ref_allocs_succeed [simp]: "allocs_succeed ref_pmemobj"
  by (auto simp: allocs_succeed_def ref_pmemobj_def ref_alloc_def ref_insert_def isl_def split: sum.splits)

lemma hash_insert_returns:
  assumes "allocs_succeed P" and "hash_key key"
  shows "\<exists>p'. PMDKHashtable_insert P s i \<lparr>la_id_len = of_nat (length key), la_id = key, la_len = n, la_data = d\<rparr> x =
    (s\<lparr>pmem := p'\<rparr>, Inr ())"
proof -
  let ?c = "PMDKHashtable_add \<lparr>la_id_len = of_nat (length key), la_id = key, la_len = n, la_data = d\<rparr>"
  have "\<not> isl (?c raw)" if "length (pp_id raw) = 512" for raw
    using assms(2) that by (simp add: PMDKHashtable_add_def hash_key_def mem_write_def)
  then obtain p' ob where "po_insert P i ?c (pmem s) = (p', Inr (Some ob))"
    using assms(1) unfolding allocs_succeed_def by blast
  then show ?thesis by (auto simp: PMDKHashtable_insert_def)
qed

lemma hash_alloc_returns:
  assumes "allocs_succeed P" and "hash_ok P po_ok s" and "hash_key key" and "n \<noteq> 0"
  shows "\<exists>s1 b. PMDKHashtable_alloc hash P s key n = (s1, Inr b)"
proof -
  obtain p d where a: "po_alloc P n Inr (pmem s) = (p, Inr (Some d))"
    using assms(1,4) unfolding allocs_succeed_def by (metis isl_def sum.distinct(1))
  obtain p' where "PMDKHashtable_insert P (s\<lparr>pmem := p\<rparr>) (unat (hash key mod nbuckets s))
      \<lparr>la_id_len = of_nat (length key), la_id = key, la_len = n, la_data = d\<rparr> (Arg_u64 n) =
      (s\<lparr>pmem := p, pmem := p'\<rparr>, Inr ())"
    using hash_insert_returns [OF assms(1,3)] by blast
  then show ?thesis
    using assms(2) a by (simp add: PMDKHashtable_alloc_def PMDKHashtable_stralloc_def hashfun_def hash_ok_def Let_def)
qed

lemma hash_store_returns:
  assumes "allocs_succeed P" and "hash_ok P po_ok s" and "hash_key key" and "hash_mem P s src = Inr bs"
    and "unat (buffer_size src) = length bs" and "bs \<noteq> []"
  shows "\<exists>s1. PMDKHashtable_store hash P s key src = (s1, Inr ()) \<and> h_blocks s1 = h_blocks s"
proof -
  have "\<not> isl (PMDKHashtable_alloc_str bs raw)" if "length raw = unat (buffer_size src)" for raw
    using that assms(5) by (simp add: PMDKHashtable_alloc_str_def mem_write_def)
  moreover have "buffer_size src \<noteq> 0" using assms(5,6) by auto
  ultimately obtain p d where a: "po_alloc P (buffer_size src) (PMDKHashtable_alloc_str bs) (pmem s) = (p, Inr (Some d))"
    using assms(1) unfolding allocs_succeed_def by blast
  obtain p' where "PMDKHashtable_insert P (s\<lparr>pmem := p\<rparr>) (unat (hash key mod nbuckets s))
      \<lparr>la_id_len = of_nat (length key), la_id = key, la_len = buffer_size src, la_data = d\<rparr> (mb_arg (buffer_size src)) =
      (s\<lparr>pmem := p, pmem := p'\<rparr>, Inr ())"
    using hash_insert_returns [OF assms(1,3)] by blast
  then show ?thesis
    using assms(2,4) a by (simp add: PMDKHashtable_store_def PMDKHashtable_stralloc_buf_def hashfun_def hash_ok_def Let_def)
qed

lemma hashtable_store_returns:
  assumes "capnp_library L \<or> pm_serializer pm = NO_SERIALIZER" and lib: "pmemobj_library P po_ok"
    and "pm_storage pm = PMDKHashtableStorage hash P"
    and "allocs_succeed P" and "inserts_succeed P"
    and s: "hash_ok P po_ok s" "hash_key key" "hash_contents hash P s key = None"
    and "fits_of L T (pm_serializer pm) tgt v" and "length (enc_of L T (pm_serializer pm) tgt v) < 2 ^ 63"
    and "enc_of L T (pm_serializer pm) tgt v \<noteq> []"
  shows "\<exists>s1. PMEM_store L pm T s key tgt v = (s1, Inr ())"
proof -
  let ?Z = "SerializerFactory_get L T (pm_serializer pm)" and ?e = "enc_of L T (pm_serializer pm) tgt v"
  have client: "pmem_client (PMDKHashtableStorage hash P) (hash_ok P po_ok) hash_key (hash_contents hash P)
    (hash_backs hash P) (inserts_succeed P) ?Z T (enc_of L T (pm_serializer pm)) (fits_of L T (pm_serializer pm)) L pm"
    by (rule hashtable_client [OF assms(1-3)])
  have Z: "serializer_contract ?Z T (enc_of L T (pm_serializer pm)) (fits_of L T (pm_serializer pm))"
    by (rule factory_contract) (use assms(1) in blast)
  have est: "est_encoded_size ?Z (payload_size T tgt) \<noteq> 0"
    using serializer_contract.fits_est [OF Z assms(9)] assms(11) by auto
  from client show ?thesis
  proof (rule pmem_client.store_returns)
    show "\<exists>s1 b. s_alloc (PMDKHashtableStorage hash P) s key (est_encoded_size ?Z (payload_size T tgt)) = (s1, Inr b)"
      using hash_alloc_returns [OF assms(4) s(1,2) est] by simp
    show "\<exists>s2. s_store (PMDKHashtableStorage hash P) s1 key b = (s2, Inr ()) \<and> h_blocks s2 = h_blocks s1"
      if cp: "malloc_buffer_copy_of ?e s = Inr (s1, b)" for s1 b
    proof -
      have "length ?e < 2 ^ 64" using assms(10) by simp
      from storage_contract.heap_buffer [OF pmemobj_library.hashtable_contract [OF lib] s(1) cp this]
      have "hash_ok P po_ok s1" "hash_mem P s1 b = Inr ?e" "unat (buffer_size b) = length ?e" by simp_all
      from hash_store_returns [OF assms(4) this(1) s(2) this(2,3) assms(11)] show ?thesis by simp
    qed
  qed (use assms in simp_all)
qed

end
