(* ===== verification/Samples.thy ===== *)
theory Samples
  imports Clients
begin

text \<open>
  A process that has just started, on the reference instances of the libraries, and the
  states after \<open>mmap\<close>: the concrete inputs on which the properties are run.
\<close>

definition ref_env :: "ref_pool environment" where
  "ref_env = \<lparr>env_faults = no_faults, env_libpmem = ref_libpmem, env_pmemobj = ref_pmemobj, env_hash = (\<lambda>key. of_nat (length key))\<rparr>"

lemma ref_env_sel [simp]:
  "env_faults ref_env = no_faults" "env_libpmem ref_env = ref_libpmem" "env_pmemobj ref_env = ref_pmemobj"
  by (simp_all add: ref_env_def)

definition init_state :: "ref_pool pmem_state" where
  "init_state =
     \<lparr>h_blocks = (\<lambda>_. None), h_next = 0, h_fill = (\<lambda>_ _. 0),
      fs_names = (\<lambda>_. None), fs_inodes = (\<lambda>_. None), fs_next = 0, fs_errno = [], open_fds = 0,
      path_prefix = [],
      ppool = False, nbuckets = 0,
      pmem = \<lparr>rp_files = (\<lambda>_. None), rp_open = empty_pool None 0, rp_next = 0\<rparr>\<rparr>"

text \<open>After \<open>mmap(''d'')\<close> of a file storage.\<close>

definition dir_state :: "ref_pool pmem_state" where
  "dir_state = fst (Posix_mmap no_faults init_state ''d'' 0)"

lemma dir_state_eq: "dir_state = init_state\<lparr>fs_names := (\<lambda>_. None)(''d'' := Some Dir), path_prefix := ''d''\<rparr>"
  by (simp add: dir_state_def Posix_mmap_def fs_exists_def os_mkdir_def no_faults_def init_state_def
      parent_exists_def fs_is_directory_def)

lemma files_ok_dir_state [simp]: "files_ok dir_state"
  by (simp add: dir_state_eq init_state_def files_ok_def os_ok_def heap_ok_def)

lemma dir_state_empty [simp]:
  "fs_names dir_state (key_path dir_state key) = None" "file_contents dir_state key = None"
  by (simp_all add: dir_state_eq init_state_def key_path_def file_contents_def)

text \<open>After \<open>mmap(''pool'')\<close> of the hash table.\<close>

definition pool_state :: "ref_pool pmem_state" where
  "pool_state = fst (PMDKHashtable_mmap ref_pmemobj init_state ''pool'' 0)"

lemma pool_created: "PMDKHashtable_create ref_pmemobj init_state ''pool'' 8388608 1000 = (pool_state, Inr ())"
proof -
  have "PMDKHashtable_create ref_pmemobj init_state ''pool'' 8388608 1000 =
      (fst (PMDKHashtable_create ref_pmemobj init_state ''pool'' 8388608 1000), Inr ())"
    by (simp add: PMDKHashtable_create_def min_pool_size_def ref_pmemobj_def)
  moreover have "PMDKHashtable_mmap ref_pmemobj init_state ''pool'' 0 =
      PMDKHashtable_create ref_pmemobj init_state ''pool'' 8388608 1000"
    by (simp add: PMDKHashtable_mmap_def init_state_def ref_pmemobj_def)
  ultimately show ?thesis by (simp add: pool_state_def)
qed

lemma pool_state_ok [simp]:
  "hash_ok ref_pmemobj ref_pool_ok pool_state" "nbuckets pool_state = 1000"
  "pv_path (po_view ref_pmemobj (pmem pool_state)) = Some ''pool''"
  "hash_contents hash ref_pmemobj pool_state key = None"
proof -
  have 1: "heap_ok init_state" "ref_pool_ok (pmem init_state)"
    by (simp_all add: init_state_def heap_ok_def ref_pool_ok_def empty_pool_def)
  note c = ref_pool.hash_create_ok [OF 1 pool_created]
  show "hash_ok ref_pmemobj ref_pool_ok pool_state" "nbuckets pool_state = 1000"
    "pv_path (po_view ref_pmemobj (pmem pool_state)) = Some ''pool''"
    "hash_contents hash ref_pmemobj pool_state key = None"
    using c by simp_all
qed

text \<open>The sizes of arrays.\<close>

definition dims_of :: "nat \<Rightarrow> Dimensions" where
  "dims_of n = Dimensions_new (int n) []"

end
