(* ===== verification/Legacy.thy ===== *)
theory Legacy
  imports Serialization Buffers
begin

text \<open>
  The serializers that no factory makes: serialize/msgpack.h, serialize/cereal.h and
  serialize/boost.h, and the allocator of util/vector_ptr.h through which a vector lies on
  memory of the caller. The archive libraries are not in the repository: what they write and
  read is the record \<open>archive\<close>, an argument of the definitions, with the locale
  \<open>archive_library\<close> for what they promise.
\<close>

section \<open>util/vector_ptr.h\<close>

record NoAllocator =
  na_ptr :: ptr
  na_count :: size_t

definition NoAllocator_default :: NoAllocator where
  "NoAllocator_default = \<lparr>na_ptr = Null, na_count = 0\<rparr>"

definition NoAllocator_new :: "ptr \<Rightarrow> size_t \<Rightarrow> NoAllocator" where
  "NoAllocator_new p n = \<lparr>na_ptr = p, na_count = n\<rparr>"

definition NoAllocator_get_ptr :: "NoAllocator \<Rightarrow> ptr \<times> size_t" where
  "NoAllocator_get_ptr a = (na_ptr a, na_count a)"

definition NoAllocator_set_ptr :: "NoAllocator \<Rightarrow> ptr \<Rightarrow> size_t \<Rightarrow> NoAllocator" where
  "NoAllocator_set_ptr a p n = a\<lparr>na_ptr := p, na_count := n\<rparr>"

definition NoAllocator_max_size :: "NoAllocator \<Rightarrow> size_t" where
  "NoAllocator_max_size a = na_count a"

text \<open>\<open>allocate\<close> gives the memory of the caller, however much is asked for.\<close>

definition NoAllocator_allocate :: "NoAllocator \<Rightarrow> size_t \<Rightarrow> ptr" where
  "NoAllocator_allocate a n = na_ptr a"

definition NoAllocator_deallocate :: "NoAllocator \<Rightarrow> ptr \<Rightarrow> size_t \<Rightarrow> NoAllocator" where
  "NoAllocator_deallocate a p n = a"

text \<open>
  A vector with this allocator. \<open>resize\<close> throws when the length is above \<open>max_size\<close>, and else
  constructs nothing: the vector has the bytes that lie in the memory of the caller, and what
  is assigned to its elements is written there.
\<close>

definition vector_resize :: "NoAllocator \<Rightarrow> prim \<Rightarrow> nat \<Rightarrow> bytes \<Rightarrow> failure + bytes" where
  "vector_resize a T n mem =
     (if unat (NoAllocator_max_size a) < n then Inl (Foreign_exn ''std::length_error'')
      else mem_read mem 0 (n * size_of T))"

definition vector_over :: "prim \<Rightarrow> size_t \<Rightarrow> bytes \<Rightarrow> failure + bytes" where
  "vector_over T n mem = vector_resize (NoAllocator_new Null n) T (unat n) mem"

definition vector_assign :: "prim \<Rightarrow> size_t \<Rightarrow> bytes \<Rightarrow> bytes \<Rightarrow> failure + bytes" where
  "vector_assign T n mem v =
     bind_sum (vector_resize (NoAllocator_new Null n) T (length v div size_of T) mem) (\<lambda>_. mem_write mem 0 v)"

lemma vector_over_eq: "vector_over T n mem = mem_read mem 0 (unat n * size_of T)"
  by (simp add: vector_over_def vector_resize_def NoAllocator_max_size_def NoAllocator_new_def)

lemma vector_assign_same: "length v = unat n * size_of T \<Longrightarrow> length mem = length v \<Longrightarrow> vector_assign T n mem v = Inr v"
  by (simp add: vector_assign_def vector_resize_def NoAllocator_max_size_def NoAllocator_new_def mem_read_def mem_write_def)

section \<open>Archives\<close>

text \<open>
  What a library writes for an object, for a vector (msgpack, boost) or for raw data (cereal),
  and what it reads from it. The loads get all the bytes of the stream.
\<close>

record archive =
  ar_save :: "prim \<Rightarrow> bytes \<Rightarrow> bytes"
  ar_load :: "prim \<Rightarrow> bytes \<Rightarrow> failure + bytes"
  ar_save_vector :: "prim \<Rightarrow> bytes \<Rightarrow> bytes"
  ar_load_vector :: "prim \<Rightarrow> bytes \<Rightarrow> failure + bytes"
  ar_save_binary :: "bytes \<Rightarrow> bytes"
  ar_load_binary :: "nat \<Rightarrow> bytes \<Rightarrow> failure + bytes"

text \<open>The functions for a buffer of the storage are the same in all three, and do nothing.\<close>

definition Legacy_est_encoded_size :: "size_t \<Rightarrow> size_t" where
  "Legacy_est_encoded_size sz = 0"

definition Legacy_serialize_into :: "target \<Rightarrow> size_t \<Rightarrow> bytes \<Rightarrow> bytes \<Rightarrow> failure + bytes \<times> size_t" where
  "Legacy_serialize_into tgt sz buf src = Inr (buf, 0)"

section \<open>serialize/msgpack.h\<close>

definition Msgpack_serialize_new :: "archive \<Rightarrow> prim \<Rightarrow> target \<Rightarrow> bytes \<Rightarrow> failure + bytes" where
  "Msgpack_serialize_new A T tgt src =
     (case tgt of
        Single \<Rightarrow> bind_sum (mem_read src 0 (size_of T)) (\<lambda>v. Inr (ar_save A T v))
      | Array dims \<Rightarrow> bind_sum (vector_over T (Dimensions_count dims) src) (\<lambda>temp. Inr (ar_save_vector A T temp)))"

text \<open>An array is read into a vector over the destination.\<close>

definition Msgpack_deserialize :: "archive \<Rightarrow> prim \<Rightarrow> target \<Rightarrow> bytes \<Rightarrow> size_t \<Rightarrow> bytes \<Rightarrow> failure + bytes" where
  "Msgpack_deserialize A T tgt dst sz src =
     bind_sum (mem_read src 0 (unat sz)) (\<lambda>packed.
       (case tgt of
          Single \<Rightarrow> bind_sum (ar_load A T packed) (mem_write dst 0)
        | Array dims \<Rightarrow>
            bind_sum (vector_over T (Dimensions_count dims) dst) (\<lambda>_.
            bind_sum (ar_load_vector A T packed) (vector_assign T (Dimensions_count dims) dst))))"

definition MsgpackSerializer :: "archive \<Rightarrow> prim \<Rightarrow> serializer" where
  "MsgpackSerializer A T =
     \<lparr>est_encoded_size = Legacy_est_encoded_size, serialize_into = Legacy_serialize_into,
      serialize_new = Msgpack_serialize_new A T, deserialize = Msgpack_deserialize A T\<rparr>"

section \<open>serialize/boost.h\<close>

definition Boost_serialize_new :: "archive \<Rightarrow> prim \<Rightarrow> target \<Rightarrow> bytes \<Rightarrow> failure + bytes" where
  "Boost_serialize_new A T tgt src =
     (case tgt of
        Single \<Rightarrow> bind_sum (mem_read src 0 (size_of T)) (\<lambda>v. Inr (ar_save A T v))
      | Array dims \<Rightarrow> bind_sum (vector_over T (Dimensions_count dims) src) (\<lambda>temp. Inr (ar_save_vector A T temp)))"

text \<open>The stream is made of \<open>c_str()\<close> without the size, so it ends at the first NUL.\<close>

definition Boost_deserialize :: "archive \<Rightarrow> prim \<Rightarrow> target \<Rightarrow> bytes \<Rightarrow> size_t \<Rightarrow> bytes \<Rightarrow> failure + bytes" where
  "Boost_deserialize A T tgt dst sz src =
     (case tgt of
        Single \<Rightarrow> bind_sum (c_string src) (\<lambda>ss. bind_sum (ar_load A T ss) (mem_write dst 0))
      | Array dims \<Rightarrow>
          bind_sum (vector_over T (Dimensions_count dims) dst) (\<lambda>_.
          bind_sum (c_string src) (\<lambda>ss. bind_sum (ar_load_vector A T ss) (vector_assign T (Dimensions_count dims) dst))))"

definition BoostSerializer :: "archive \<Rightarrow> prim \<Rightarrow> serializer" where
  "BoostSerializer A T =
     \<lparr>est_encoded_size = Legacy_est_encoded_size, serialize_into = Legacy_serialize_into,
      serialize_new = Boost_serialize_new A T, deserialize = Boost_deserialize A T\<rparr>"

section \<open>serialize/cereal.h\<close>

definition Cereal_serialize_new :: "archive \<Rightarrow> prim \<Rightarrow> target \<Rightarrow> bytes \<Rightarrow> failure + bytes" where
  "Cereal_serialize_new A T tgt src =
     (case tgt of
        Single \<Rightarrow> bind_sum (mem_read src 0 (size_of T)) (\<lambda>v. Inr (ar_save A T v))
      | Array dims \<Rightarrow> bind_sum (mem_read src 0 (unat (payload_size T tgt))) (\<lambda>v. Inr (ar_save_binary A v)))"

definition Cereal_deserialize :: "archive \<Rightarrow> prim \<Rightarrow> target \<Rightarrow> bytes \<Rightarrow> size_t \<Rightarrow> bytes \<Rightarrow> failure + bytes" where
  "Cereal_deserialize A T tgt dst sz src =
     bind_sum (c_string src) (\<lambda>ss.
       bind_sum (case tgt of Single \<Rightarrow> ar_load A T ss | Array dims \<Rightarrow> ar_load_binary A (unat (payload_size T tgt)) ss)
         (mem_write dst 0))"

definition CerealSerializer :: "archive \<Rightarrow> prim \<Rightarrow> serializer" where
  "CerealSerializer A T =
     \<lparr>est_encoded_size = Legacy_est_encoded_size, serialize_into = Legacy_serialize_into,
      serialize_new = Cereal_serialize_new A T, deserialize = Cereal_deserialize A T\<rparr>"

lemmas Legacy_sel [simp] = MsgpackSerializer_def BoostSerializer_def CerealSerializer_def

section \<open>What they do\<close>

lemma takeWhile_stops: "\<not> P y \<Longrightarrow> takeWhile P (xs @ y # ys) = takeWhile P xs"
  by (induction xs) simp_all

text \<open>A library reads back what it has written, whatever follows in the stream.\<close>

locale archive_library =
  fixes A :: archive
  assumes load_save: "length v = size_of T \<Longrightarrow> ar_load A T (ar_save A T v @ rest) = Inr v"
    and load_vector: "length v mod size_of T = 0 \<Longrightarrow> ar_load_vector A T (ar_save_vector A T v @ rest) = Inr v"
    and load_binary: "ar_load_binary A (length v) (ar_save_binary A v @ rest) = Inr v"
begin

text \<open>Msgpack reads a value back from a buffer of its own, if the destination is as large.\<close>

lemma msgpack_roundtrip:
  assumes "length v = (case tgt of Single \<Rightarrow> size_of T | Array dims \<Rightarrow> unat (Dimensions_count dims) * size_of T)"
    and "length dst = length v" and "serialize_new (MsgpackSerializer A T) tgt v = Inr b" and "length b < 2 ^ 64"
  shows "deserialize (MsgpackSerializer A T) tgt dst (of_nat (length b)) b = Inr v"
proof -
  have n: "mem_read b 0 (unat (of_nat (length b) :: size_t)) = Inr b"
    using assms(4) by (simp add: unat_of_nat mem_read_def)
  show ?thesis
  proof (cases tgt)
    case Single
    then have "b = ar_save A T v" "length v = size_of T" using assms(1,3) by (auto simp: Msgpack_serialize_new_def mem_read_def)
    then show ?thesis using n assms(2) Single load_save [of v T "[]"] by (simp add: Msgpack_deserialize_def mem_write_def)
  next
    case (Array dims)
    then have "b = ar_save_vector A T v" "length v = unat (Dimensions_count dims) * size_of T"
      using assms(1,3) by (auto simp: Msgpack_serialize_new_def vector_over_eq mem_read_def)
    then show ?thesis using n assms(2) Array load_vector [of v T "[]"]
      by (simp add: Msgpack_deserialize_def vector_over_eq vector_assign_same mem_read_def mem_write_def)
  qed
qed

text \<open>A vector that is longer than the destination is refused, and nothing is written.\<close>

lemma msgpack_too_long:
  assumes "length v mod size_of T = 0" and "length dst = unat (Dimensions_count dims) * size_of T" and "length dst < length v"
    and "b = ar_save_vector A T v" and "length b < 2 ^ 64"
  shows "deserialize (MsgpackSerializer A T) (Array dims) dst (of_nat (length b)) b = Inl (Foreign_exn ''std::length_error'')"
proof -
  have n: "mem_read b 0 (unat (of_nat (length b) :: size_t)) = Inr b" using assms(5) by (simp add: unat_of_nat mem_read_def)
  have "unat (Dimensions_count dims) < length v div size_of T"
  proof -
    have "length v = length v div size_of T * size_of T" using assms(1) by (metis add.right_neutral div_mult_mod_eq)
    with assms(2,3) show ?thesis by (metis mult_less_cancel2)
  qed
  then have "vector_assign T (Dimensions_count dims) dst v = Inl (Foreign_exn ''std::length_error'')"
    by (simp add: vector_assign_def vector_resize_def NoAllocator_max_size_def NoAllocator_new_def)
  then show ?thesis
    using n assms(2,4) load_vector [OF assms(1), of "[]"] by (simp add: Msgpack_deserialize_def vector_over_eq mem_read_def)
qed

text \<open>
  Boost and cereal read a value back only if its encoding has no zero byte and the buffer is
  one that ends in one, as the characters of a string do; other encodings are cut.
\<close>

lemma boost_reads_prefix:
  "deserialize (BoostSerializer A T) Single dst sz (ar_save A T v @ 0 # rest) =
     bind_sum (ar_load A T (takeWhile (\<lambda>x. x \<noteq> 0) (ar_save A T v))) (mem_write dst 0)"
  "deserialize (CerealSerializer A T) Single dst sz (ar_save A T v @ 0 # rest) =
     bind_sum (ar_load A T (takeWhile (\<lambda>x. x \<noteq> 0) (ar_save A T v))) (mem_write dst 0)"
proof -
  have "takeWhile (\<lambda>x. x \<noteq> 0) (ar_save A T v @ 0 # rest) = takeWhile (\<lambda>x. x \<noteq> 0) (ar_save A T v)"
    by (rule takeWhile_stops) simp
  then show "deserialize (BoostSerializer A T) Single dst sz (ar_save A T v @ 0 # rest) =
      bind_sum (ar_load A T (takeWhile (\<lambda>x. x \<noteq> 0) (ar_save A T v))) (mem_write dst 0)"
    and "deserialize (CerealSerializer A T) Single dst sz (ar_save A T v @ 0 # rest) =
      bind_sum (ar_load A T (takeWhile (\<lambda>x. x \<noteq> 0) (ar_save A T v))) (mem_write dst 0)"
    by (simp_all add: Boost_deserialize_def Cereal_deserialize_def c_string_def)
qed

lemma boost_roundtrip:
  assumes "0 \<notin> set (ar_save A T v)" and "length v = size_of T" and "length dst = length v"
  shows "deserialize (BoostSerializer A T) Single dst sz (ar_save A T v @ 0 # rest) = Inr v"
    and "deserialize (CerealSerializer A T) Single dst sz (ar_save A T v @ 0 # rest) = Inr v"
proof -
  have tw: "takeWhile (\<lambda>x. x \<noteq> 0) (ar_save A T v) = ar_save A T v" using assms(1) by (intro takeWhile_eq_all_conv [THEN iffD2] ballI) auto
  show "deserialize (BoostSerializer A T) Single dst sz (ar_save A T v @ 0 # rest) = Inr v"
    and "deserialize (CerealSerializer A T) Single dst sz (ar_save A T v @ 0 # rest) = Inr v"
    unfolding boost_reads_prefix tw using load_save [OF assms(2), of "[]"] assms(3) by (simp_all add: mem_write_def)
qed

end

text \<open>On a storage that maps, a value of these serializers is never written.\<close>

lemma legacy_into_writes_nothing:
  assumes "Z \<in> {MsgpackSerializer A T, BoostSerializer A T, CerealSerializer A T}"
  shows "est_encoded_size Z n = 0 \<and> serialize_into Z tgt sz mem src = Inr (mem, 0)"
  using assms by (auto simp: Legacy_est_encoded_size_def Legacy_serialize_into_def)

text \<open>The allocator says how much memory there is, but gives it for any length.\<close>

lemma NoAllocator_ignores_length:
  "NoAllocator_max_size (NoAllocator_set_ptr a p n) = n \<and> NoAllocator_allocate (NoAllocator_set_ptr a p n) k = p \<and>
     NoAllocator_get_ptr (NoAllocator_set_ptr a p n) = (p, n)"
  by (simp add: NoAllocator_max_size_def NoAllocator_set_ptr_def NoAllocator_allocate_def NoAllocator_get_ptr_def)

section \<open>A reference archive\<close>

text \<open>A value is written as it is; a vector behind the number of its bytes in unary.\<close>

fun ref_frame :: "bytes \<Rightarrow> bytes" where
  "ref_frame [] = [0]"
| "ref_frame (b # bs) = 1 # b # ref_frame bs"

fun ref_unframe :: "bytes \<Rightarrow> failure + bytes" where
  "ref_unframe (m # b # bs) = (if m = 1 then bind_sum (ref_unframe bs) (\<lambda>v. Inr (b # v)) else Inr [])"
| "ref_unframe [m] = (if m = 0 then Inr [] else Inl (Foreign_exn ''input stream error''))"
| "ref_unframe [] = Inl (Foreign_exn ''input stream error'')"

definition ref_archive :: archive where
  "ref_archive = \<lparr>ar_save = (\<lambda>_ v. v), ar_load = (\<lambda>T bs. mem_read bs 0 (size_of T)),
     ar_save_vector = (\<lambda>_. ref_frame), ar_load_vector = (\<lambda>_. ref_unframe),
     ar_save_binary = (\<lambda>v. v), ar_load_binary = (\<lambda>n bs. mem_read bs 0 n)\<rparr>"

lemma ref_unframe_frame: "ref_unframe (ref_frame v @ rest) = Inr v"
proof (induction v)
  case Nil
  then show ?case by (cases rest) simp_all
qed simp

interpretation ref_archive: archive_library ref_archive
  by unfold_locales (simp_all add: ref_archive_def mem_read_def chunk_def ref_unframe_frame)

text \<open>The number 1, four bytes of which three are zero, is not read back by boost or cereal.\<close>

lemma boost_cuts_one:
  "deserialize (BoostSerializer ref_archive Int32) Single [9, 9, 9, 9] 4 ([1, 0, 0, 0] @ [0]) = Inl (Crash Out_of_bounds)"
  by (simp add: Boost_deserialize_def c_string_def ref_archive_def mem_read_def)

end
