(* ===== verification/Tracing.thy ===== *)
theory Tracing
  imports Formatting
begin

text \<open>
  util/trace.h: in a DEBUG build \<open>AUTO_TRACE\<close> declares an object of class \<open>AutoTrace\<close>, which
  prints a line when it is made and one when it goes out of scope; in other builds it is
  nothing. The clock, the process and the thread are arguments.
\<close>

section \<open>AutoTrace\<close>

text \<open>The clock tells nanoseconds, the n-th time it is asked; a thread is given by the hash of its id.\<close>

record trace_env =
  tv_now :: "nat \<Rightarrow> int"
  tv_pid :: int
  tv_tid :: size_t

text \<open>What \<open>printf\<close> printed, a string for each call, and how often the clock was asked.\<close>

record trace_state =
  tr_out :: "string list"
  tr_ticks :: nat

record AutoTrace =
  at_fmt :: string
  at_start_time :: int

text \<open>\<open>%s\<close> of \<open>c_str ()\<close> ends at a NUL.\<close>

definition c_chars :: "string \<Rightarrow> string" where
  "c_chars s = takeWhile (\<lambda>c. c \<noteq> CHR 0x00) s"

definition start_line :: "trace_env \<Rightarrow> string \<Rightarrow> string" where
  "start_line E msg = ''START: '' @ c_chars msg @ '', pid='' @ dec_int (tv_pid E) @ '', tid='' @ dec_nat (unat (tv_tid E)) @ [CHR 0x0A]"

definition end_line :: "trace_env \<Rightarrow> string \<Rightarrow> int \<Rightarrow> string" where
  "end_line E msg net_time =
     ''END: '' @ c_chars msg @ '', pid='' @ dec_int (tv_pid E) @ '', tid='' @ dec_nat (unat (tv_tid E)) @
     '', runtime='' @ fp_to_string (fp_of_int net_time) @ [CHR 0x0A]"

definition printf_line :: "string \<Rightarrow> 'z trace_state_scheme \<Rightarrow> 'z trace_state_scheme" where
  "printf_line l s = s\<lparr>tr_out := tr_out s @ [l]\<rparr>"

definition AutoTrace_new :: "trace_env \<Rightarrow> string \<Rightarrow> Arg list \<Rightarrow> 'z trace_state_scheme \<Rightarrow> ('z trace_state_scheme, AutoTrace) outcome" where
  "AutoTrace_new E fmt args s =
     (case Formatter_format fmt args of
        Inl e \<Rightarrow> (s, Inl e)
      | Inr msg \<Rightarrow>
          (let s = printf_line (start_line E msg) s
           in (s\<lparr>tr_ticks := tr_ticks s + 1\<rparr>, Inr \<lparr>at_fmt = msg, at_start_time = tv_now E (tr_ticks s)\<rparr>)))"

text \<open>\<open>duration_cast\<close> to milliseconds rounds towards zero.\<close>

definition milliseconds :: "int \<Rightarrow> int" where
  "milliseconds ns = sgn ns * (\<bar>ns\<bar> div 1000000)"

definition AutoTrace_destroy :: "trace_env \<Rightarrow> AutoTrace \<Rightarrow> 'z trace_state_scheme \<Rightarrow> 'z trace_state_scheme" where
  "AutoTrace_destroy E t s =
     (let net_time = milliseconds (tv_now E (tr_ticks s) - at_start_time t)
      in printf_line (end_line E (at_fmt t) net_time) (s\<lparr>tr_ticks := tr_ticks s + 1\<rparr>))"

text \<open>
  The rest of a scope that starts with \<open>AUTO_TRACE\<close>: the object is destroyed when the scope is
  left, by an exception too; not when the process ends by a signal.
\<close>

definition AUTO_TRACE ::
    "bool \<Rightarrow> trace_env \<Rightarrow> string \<Rightarrow> Arg list \<Rightarrow> ('z trace_state_scheme \<Rightarrow> ('z trace_state_scheme, 'a) outcome) \<Rightarrow>
       'z trace_state_scheme \<Rightarrow> ('z trace_state_scheme, 'a) outcome" where
  "AUTO_TRACE debug E fmt args body s =
     (if debug then
        bind_out (AutoTrace_new E fmt args s) (\<lambda>s t.
          (case body s of
             (s, Inl (Crash f)) \<Rightarrow> (s, Inl (Crash f))
           | (s, r) \<Rightarrow> (AutoTrace_destroy E t s, r)))
      else body s)"

section \<open>Nested scopes\<close>

text \<open>Scopes as the functions of the program have them: a trace, the traced calls, and how the function ends.\<close>

datatype scope = Scope string "Arg list" scopes "failure option"
  and scopes = No_call | Call scope scopes

primrec run_scope :: "bool \<Rightarrow> trace_env \<Rightarrow> scope \<Rightarrow> 'z trace_state_scheme \<Rightarrow> ('z trace_state_scheme, unit) outcome"
  and run_scopes :: "bool \<Rightarrow> trace_env \<Rightarrow> scopes \<Rightarrow> 'z trace_state_scheme \<Rightarrow> ('z trace_state_scheme, unit) outcome" where
  "run_scope debug E (Scope fmt args calls failed) =
     AUTO_TRACE debug E fmt args (\<lambda>s. bind_out (run_scopes debug E calls s)
       (\<lambda>s _. (s, case failed of None \<Rightarrow> Inr () | Some e \<Rightarrow> Inl e)))"
| "run_scopes debug E No_call = (\<lambda>s. (s, Inr ()))"
| "run_scopes debug E (Call c cs) = (\<lambda>s. bind_out (run_scope debug E c s) (\<lambda>s _. run_scopes debug E cs s))"

text \<open>The messages can be formatted, and no function ends the process.\<close>

primrec scope_ok :: "scope \<Rightarrow> bool" and scopes_ok :: "scopes \<Rightarrow> bool" where
  "scope_ok (Scope fmt args calls failed) \<longleftrightarrow>
     (\<exists>msg. Formatter_format fmt args = Inr msg) \<and> scopes_ok calls \<and> (\<forall>f. failed \<noteq> Some (Crash f))"
| "scopes_ok No_call \<longleftrightarrow> True"
| "scopes_ok (Call c cs) \<longleftrightarrow> scope_ok c \<and> scopes_ok cs"

text \<open>Every line of a start has its line of an end, and they are nested.\<close>

inductive nested :: "trace_env \<Rightarrow> string list \<Rightarrow> bool" for E where
  nested_Nil: "nested E []"
| nested_scope: "nested E inner \<Longrightarrow> nested E after \<Longrightarrow> nested E (start_line E msg # inner @ end_line E msg net_time # after)"

lemma nested_append: "nested E xs \<Longrightarrow> nested E ys \<Longrightarrow> nested E (xs @ ys)"
  by (induction rule: nested.induct) (simp_all add: nested_scope)

text \<open>What tracing may change: it prints nested lines and asks the clock.\<close>

definition only_traced :: "trace_env \<Rightarrow> 'z trace_state_scheme \<Rightarrow> 'z trace_state_scheme \<Rightarrow> bool" where
  "only_traced E s s' \<longleftrightarrow>
     trace_state.more s' = trace_state.more s \<and> (\<exists>ls. tr_out s' = tr_out s @ ls \<and> nested E ls)"

lemma only_traced_refl: "only_traced E s s"
  by (simp add: only_traced_def nested_Nil)

lemma only_traced_trans: "only_traced E s s' \<Longrightarrow> only_traced E s' s'' \<Longrightarrow> only_traced E s s''"
  by (auto simp: only_traced_def nested_append)

lemma AUTO_TRACE_scope:
  assumes "Formatter_format fmt args = Inr msg" and "\<And>s. only_traced E s (fst (body s))" and "\<And>s f. snd (body s) \<noteq> Inl (Crash f)"
    and "\<And>s s'. snd (body s) = snd (body s')"
  shows "only_traced E s (fst (AUTO_TRACE True E fmt args body s)) \<and> snd (AUTO_TRACE True E fmt args body s) = snd (body s)"
proof -
  let ?s = "(printf_line (start_line E msg) s)\<lparr>tr_ticks := tr_ticks s + 1\<rparr>" and ?t = "\<lparr>at_fmt = msg, at_start_time = tv_now E (tr_ticks s)\<rparr>"
  obtain s' r where body: "body ?s = (s', r)" by fastforce
  have "AUTO_TRACE True E fmt args body s = (AutoTrace_destroy E ?t s', r)"
  proof (cases r)
    case (Inl e)
    then show ?thesis using assms(3) [of ?s] body
      by (cases e) (auto simp: AUTO_TRACE_def AutoTrace_new_def assms(1) printf_line_def Let_def)
  next
    case (Inr x)
    then show ?thesis using body by (simp add: AUTO_TRACE_def AutoTrace_new_def assms(1) printf_line_def Let_def)
  qed
  moreover have "only_traced E s (AutoTrace_destroy E ?t s')"
  proof -
    obtain ls where ls: "tr_out s' = tr_out ?s @ ls" "nested E ls" "trace_state.more s' = trace_state.more ?s"
      using assms(2) [of ?s] body by (auto simp: only_traced_def)
    have "nested E (start_line E msg # ls @ [end_line E msg n])" for n
      using nested_scope [OF ls(2) nested_Nil] by simp
    then show ?thesis using ls(1,3) by (simp add: only_traced_def AutoTrace_destroy_def printf_line_def Let_def)
  qed
  moreover have "snd (body s) = r" using assms(4) [of s ?s] body by simp
  ultimately show ?thesis by simp
qed

text \<open>How a scope ends, with no state at all.\<close>

primrec scope_end :: "scope \<Rightarrow> failure + unit" and scopes_end :: "scopes \<Rightarrow> failure + unit" where
  "scope_end (Scope fmt args calls failed) =
     bind_sum (scopes_end calls) (\<lambda>_. case failed of None \<Rightarrow> Inr () | Some e \<Rightarrow> Inl e)"
| "scopes_end No_call = Inr ()"
| "scopes_end (Call c cs) = bind_sum (scope_end c) (\<lambda>_. scopes_end cs)"

lemma scope_end_no_crash:
  "scope_ok c \<Longrightarrow> scope_end c \<noteq> Inl (Crash f)" "scopes_ok cs \<Longrightarrow> scopes_end cs \<noteq> Inl (Crash f)"
  by (induction c and cs) (auto simp: bind_sum_def split: sum.splits option.splits)

lemma run_untraced: "run_scope False E c s = (s, scope_end c)" "run_scopes False E cs s = (s, scopes_end cs)"
  by (induction c and cs arbitrary: s and s)
    (auto simp: AUTO_TRACE_def bind_out_def bind_sum_def split: sum.splits option.splits)

lemma run_traced:
  fixes s :: "'z trace_state_scheme"
  shows
  "scope_ok c \<Longrightarrow> only_traced E s (fst (run_scope True E c s)) \<and> snd (run_scope True E c s) = scope_end c"
  "scopes_ok cs \<Longrightarrow> only_traced E s (fst (run_scopes True E cs s)) \<and> snd (run_scopes True E cs s) = scopes_end cs"
proof (induction c and cs arbitrary: s and s)
  case (Scope fmt args calls failed)
  let ?body = "\<lambda>s :: 'z trace_state_scheme. bind_out (run_scopes True E calls s) (\<lambda>s _. (s, case failed of None \<Rightarrow> Inr () | Some e \<Rightarrow> Inl e))"
  obtain msg where msg: "Formatter_format fmt args = Inr msg" and ok: "scopes_ok calls"
    using Scope.prems by auto
  have body: "only_traced E s (fst (?body s)) \<and> snd (?body s) = scope_end (Scope fmt args calls failed)" for s
    using Scope.IH [OF ok, of s] by (cases "run_scopes True E calls s") (auto simp: bind_out_def bind_sum_def split: sum.splits)
  show ?case
    using AUTO_TRACE_scope [where body = ?body and E = E and s = s, OF msg] body scope_end_no_crash(1) [OF Scope.prems]
    by simp
next
  case (Call c cs)
  have ok: "scope_ok c" "scopes_ok cs" using Call.prems by auto
  obtain s1 r where run: "run_scope True E c s = (s1, r)" by fastforce
  show ?case
    using Call.IH(1) [OF ok(1), of s] Call.IH(2) [OF ok(2), of s1] run
    by (auto simp: bind_out_def bind_sum_def only_traced_trans split: sum.splits)
qed (simp_all add: only_traced_refl)

end
