(* ===== verification/Emulation.thy ===== *)
theory Emulation
  imports Memcpy
begin

text \<open>
  memcpy.h in a PMEMULATION build: after a \<open>store\<close> or a \<open>load\<close> in place the process sleeps for as
  long as persistent memory would have been slower. \<open>nsleep\<close> sets \<open>tv_nsec\<close> only, so what
  \<open>tv_sec\<close> holds is an argument of the model; \<open>nanosleep\<close> is that of POSIX, with no signal.
\<close>

unbundle bit_operations_syntax

section \<open>The delays\<close>

definition DRAM_BW :: size_t where "DRAM_BW = 68"

definition DRAM_LATENCY :: int where "DRAM_LATENCY = 100"

definition PMEM_READ_BW :: size_t where "PMEM_READ_BW = 30"

definition PMEM_WRITE_BW :: size_t where "PMEM_WRITE_BW = 8"

definition PMEM_READ_LATENCY :: int where "PMEM_READ_LATENCY = 300"

definition PMEM_WRITE_LATENCY :: int where "PMEM_WRITE_LATENCY = 125"

text \<open>The sums are of type \<open>size_t\<close>, and are converted to \<open>long\<close> at the end.\<close>

definition READ_PENALTY :: "size_t \<Rightarrow> int" where
  "READ_PENALTY n = sint (of_int (PMEM_READ_LATENCY - DRAM_LATENCY) + (n div PMEM_READ_BW - n div DRAM_BW))"

definition WRITE_PENALTY :: "size_t \<Rightarrow> int" where
  "WRITE_PENALTY n = sint (of_int (PMEM_WRITE_LATENCY - DRAM_LATENCY) + (n div PMEM_WRITE_BW - n div DRAM_BW))"

text \<open>A call of \<open>nanosleep\<close> sleeps for some nanoseconds, or is refused with \<open>EINVAL\<close>.\<close>

datatype sleep = Sleeps int | Refused

definition nanosleep :: "int \<Rightarrow> int \<Rightarrow> sleep" where
  "nanosleep tv_sec tv_nsec =
     (if tv_sec < 0 \<or> tv_nsec < 0 \<or> tv_nsec > 999999999 then Refused else Sleeps (tv_sec * 10 ^ 9 + tv_nsec))"

definition nsleep :: "int \<Rightarrow> int \<Rightarrow> sleep" where
  "nsleep indeterminate delay = nanosleep indeterminate delay"

section \<open>store and load with the delays\<close>

text \<open>The result tells the sleep of the call, if there was one.\<close>

definition PMEM_store_emulated ::
    "int \<Rightarrow> capnp \<Rightarrow> 'z heap_scheme PMEM \<Rightarrow> prim \<Rightarrow> 'z heap_scheme \<Rightarrow> string \<Rightarrow> target \<Rightarrow> bytes \<Rightarrow>
       ('z heap_scheme, sleep option) outcome" where
  "PMEM_store_emulated tv_sec L pm T s key tgt src =
     (let S = pm_storage pm; serial = SerializerFactory_get L T (pm_serializer pm)
      in if pm_use_mmap pm then
           bind_out (s_alloc S s key (est_encoded_size serial (payload_size T tgt))) (\<lambda>s1 buf.
             leave_scope buf
               (case s_mem S s1 buf of
                  Inl e \<Rightarrow> (s1, Inl e)
                | Inr mem \<Rightarrow>
                    (case serialize_into serial tgt (buffer_size buf) mem src of
                       Inl e \<Rightarrow> (s1, Inl e)
                     | Inr (mem', n) \<Rightarrow> (s_set_mem S s1 buf mem', Inr (Some (nsleep tv_sec (WRITE_PENALTY n)))))))
         else
           (case serialize_new serial tgt src of
              Inl e \<Rightarrow> (s, Inl e)
            | Inr bs \<Rightarrow>
                (case malloc_buffer_copy_of bs s of
                   Inl e \<Rightarrow> (s, Inl e)
                 | Inr (s1, buf) \<Rightarrow> bind_out (leave_scope buf (s_store S s1 key buf)) (\<lambda>s _. (s, Inr None)))))"

definition PMEM_load_emulated ::
    "int \<Rightarrow> capnp \<Rightarrow> 'z heap_scheme PMEM \<Rightarrow> prim \<Rightarrow> 'z heap_scheme \<Rightarrow> string \<Rightarrow> target \<Rightarrow> bytes \<Rightarrow>
       ('z heap_scheme, bytes \<times> sleep option) outcome" where
  "PMEM_load_emulated tv_sec L pm T s key tgt dst =
     (let S = pm_storage pm; serial = SerializerFactory_get L T (pm_serializer pm)
      in bind_out (if pm_use_mmap pm then s_find S s key else s_load S s key) (\<lambda>s1 buf.
           leave_scope buf
             (case s_mem S s1 buf of
                Inl e \<Rightarrow> (s1, Inl e)
              | Inr mem \<Rightarrow>
                  (s1, bind_sum (deserialize serial tgt dst (buffer_size buf) mem) (\<lambda>d.
                     Inr (d, if pm_use_mmap pm then Some (nsleep tv_sec (READ_PENALTY (buffer_size buf))) else None))))))"

section \<open>What the delays are\<close>

text \<open>Forgetting the delay.\<close>

definition result_of :: "('s, 'a \<times> 'b) outcome \<Rightarrow> ('s, 'a) outcome" where
  "result_of r = bind_out r (\<lambda>s x. (s, Inr (fst x)))"

lemma store_emulated:
  "bind_out (PMEM_store_emulated tv_sec L pm T s key tgt src) (\<lambda>s _. (s, Inr ())) = PMEM_store L pm T s key tgt src"
  by (auto simp: PMEM_store_emulated_def PMEM_store_def leave_scope_def bind_out_def Let_def split: prod.splits sum.splits)

lemma load_emulated: "result_of (PMEM_load_emulated tv_sec L pm T s key tgt dst) = PMEM_load L pm T s key tgt dst"
  by (auto simp: result_of_def PMEM_load_emulated_def PMEM_load_def leave_scope_def bind_out_def bind_sum_def Let_def
      split: prod.splits sum.splits)

text \<open>The bandwidths' quotients, on numbers.\<close>

lemma uint_quotients:
  fixes n :: size_t
  shows "uint (n div PMEM_WRITE_BW) = uint n div 8" "uint (n div PMEM_READ_BW) = uint n div 30" "uint (n div DRAM_BW) = uint n div 68"
  by (simp_all add: PMEM_WRITE_BW_def PMEM_READ_BW_def DRAM_BW_def uint_div_distrib)

lemma sint_of_small: "0 \<le> k \<Longrightarrow> k < 2 ^ 63 \<Longrightarrow> sint (of_int k :: size_t) = k"
  by (simp add: sint_sbintrunc' signed_take_bit_int_eq_self)

lemma quotient_le: "0 \<le> a \<Longrightarrow> 0 < c \<Longrightarrow> c \<le> 68 \<Longrightarrow> a div 68 \<le> a div (c :: int)"
  by (rule zdiv_mono2)

lemma WRITE_PENALTY_eq: "WRITE_PENALTY n = 25 + uint n div 8 - uint n div 68"
proof -
  have "uint n < 2 ^ 64" using uint_lt2p [of n] by simp
  then have "0 \<le> 25 + uint n div 8 - uint n div 68" "25 + uint n div 8 - uint n div 68 < 2 ^ 63"
    using quotient_le [of "uint n" 8] zdiv_mono1 [of "uint n" "2 ^ 64" 8] pos_imp_zdiv_nonneg_iff [of 68 "uint n"] uint_ge_0 [of n] by simp_all
  moreover have "n div PMEM_WRITE_BW = of_int (uint n div 8)" "n div DRAM_BW = of_int (uint n div 68)"
    using uint_quotients [of n] by (metis word_of_int_uint of_int_uint)+
  ultimately show ?thesis
    using sint_of_small [of "25 + uint n div 8 - uint n div 68"]
    by (simp add: WRITE_PENALTY_def PMEM_WRITE_LATENCY_def DRAM_LATENCY_def algebra_simps)
qed

lemma READ_PENALTY_eq: "READ_PENALTY n = 200 + uint n div 30 - uint n div 68"
proof -
  have "uint n < 2 ^ 64" using uint_lt2p [of n] by simp
  then have "0 \<le> 200 + uint n div 30 - uint n div 68" "200 + uint n div 30 - uint n div 68 < 2 ^ 63"
    using quotient_le [of "uint n" 30] zdiv_mono1 [of "uint n" "2 ^ 64" 30] pos_imp_zdiv_nonneg_iff [of 68 "uint n"] uint_ge_0 [of n] by simp_all
  moreover have "n div PMEM_READ_BW = of_int (uint n div 30)" "n div DRAM_BW = of_int (uint n div 68)"
    using uint_quotients [of n] by (metis word_of_int_uint of_int_uint)+
  ultimately show ?thesis
    using sint_of_small [of "200 + uint n div 30 - uint n div 68"]
    by (simp add: READ_PENALTY_def PMEM_READ_LATENCY_def DRAM_LATENCY_def algebra_simps)
qed

text \<open>The sizes at which the delay leaves the range of \<open>tv_nsec\<close>, rounded.\<close>

lemma WRITE_PENALTY_bounds:
  "25 \<le> WRITE_PENALTY n" "uint n \<le> 9000000000 \<Longrightarrow> WRITE_PENALTY n \<le> 999999999"
  "9100000000 \<le> uint n \<Longrightarrow> 999999999 < WRITE_PENALTY n"
proof -
  let ?q = "uint n div 8" and ?r = "uint n div 68"
  have "8 * ?q \<le> uint n" "uint n < 8 * ?q + 8" "68 * ?r \<le> uint n" "uint n < 68 * ?r + 68"
    using div_mult_mod_eq [of "uint n" 8] div_mult_mod_eq [of "uint n" 68] pos_mod_bound [of 8 "uint n"]
      pos_mod_bound [of 68 "uint n"] pos_mod_sign [of 8 "uint n"] pos_mod_sign [of 68 "uint n"] by linarith+
  then show "25 \<le> WRITE_PENALTY n" "uint n \<le> 9000000000 \<Longrightarrow> WRITE_PENALTY n \<le> 999999999"
    "9100000000 \<le> uint n \<Longrightarrow> 999999999 < WRITE_PENALTY n"
    using quotient_le [of "uint n" 8] unfolding WRITE_PENALTY_eq by simp_all
qed

lemma READ_PENALTY_bounds:
  "200 \<le> READ_PENALTY n" "uint n \<le> 53000000000 \<Longrightarrow> READ_PENALTY n \<le> 999999999"
  "54000000000 \<le> uint n \<Longrightarrow> 999999999 < READ_PENALTY n"
proof -
  let ?q = "uint n div 30" and ?r = "uint n div 68"
  have "30 * ?q \<le> uint n" "uint n < 30 * ?q + 30" "68 * ?r \<le> uint n" "uint n < 68 * ?r + 68"
    using div_mult_mod_eq [of "uint n" 30] div_mult_mod_eq [of "uint n" 68] pos_mod_bound [of 30 "uint n"]
      pos_mod_bound [of 68 "uint n"] pos_mod_sign [of 30 "uint n"] pos_mod_sign [of 68 "uint n"] by linarith+
  then show "200 \<le> READ_PENALTY n" "uint n \<le> 53000000000 \<Longrightarrow> READ_PENALTY n \<le> 999999999"
    "54000000000 \<le> uint n \<Longrightarrow> 999999999 < READ_PENALTY n"
    using quotient_le [of "uint n" 30] unfolding READ_PENALTY_eq by simp_all
qed

end
