(* ===== verification/Bp4_Bytes.thy ===== *)
theory Bp4_Bytes
  imports Formatting
begin

text \<open>
  What the BP4 format code uses of ADIOS2, which is not part of the repository: the helpers
  that copy values into a buffer and read them back, the name records of \<open>BPBase\<close>, and
  \<open>BufferSTL\<close>. They are a record of functions, an argument of the definitions; what their
  documentation promises is the locale \<open>bp_library\<close>. The theory also has the bytes of a
  number on a host of either byte order.
\<close>

section \<open>Numbers as bytes\<close>

fun le_bytes :: "nat \<Rightarrow> nat \<Rightarrow> bytes" where
  "le_bytes 0 n = []"
| "le_bytes (Suc w) n = of_nat (n mod 256) # le_bytes w (n div 256)"

fun of_le :: "bytes \<Rightarrow> nat" where
  "of_le [] = 0"
| "of_le (b # bs) = unat b + 256 * of_le bs"

definition num_bytes :: "bool \<Rightarrow> nat \<Rightarrow> nat \<Rightarrow> bytes" where
  "num_bytes little w n = (if little then le_bytes w n else rev (le_bytes w n))"

definition num_of :: "bool \<Rightarrow> bytes \<Rightarrow> nat" where
  "num_of little bs = of_le (if little then bs else rev bs)"

lemma length_le_bytes [simp]: "length (le_bytes w n) = w"
  by (induction w arbitrary: n) auto

lemma length_num_bytes [simp]: "length (num_bytes little w n) = w"
  by (simp add: num_bytes_def)

lemma of_le_le_bytes: "of_le (le_bytes w n) = n mod 256 ^ w"
proof (induction w arbitrary: n)
  case (Suc w)
  have "unat (of_nat (n mod 256) :: byte) = n mod 256" by (simp add: unat_of_nat take_bit_nat_eq_self)
  then show ?case by (simp add: Suc.IH mod_mult2_eq)
qed simp

lemma num_of_num_bytes [simp]: "num_of little (num_bytes little w n) = n mod 256 ^ w"
  by (simp add: num_of_def num_bytes_def of_le_le_bytes)

lemma of_le_less: "of_le bs < 256 ^ length bs"
proof (induction bs)
  case (Cons b bs)
  have "unat b < 256" using unsigned_less [of b] by simp
  with Cons.IH show ?case by simp
qed simp

lemma num_of_less: "num_of little bs < 256 ^ length bs"
  using of_le_less [of bs] of_le_less [of "rev bs"] by (auto simp: num_of_def)

lemma num_of_mod [simp]: "length bs = w \<Longrightarrow> num_of little bs mod 256 ^ w = num_of little bs"
  using num_of_less [of little bs] by simp

lemma u64_mod [simp]: "unat (x :: size_t) mod 256 ^ 8 = unat x" "unat (x :: size_t) mod 18446744073709551616 = unat x"
  using unsigned_less [of x, where 'a = nat] by simp_all

section \<open>Bytes at a place\<close>

definition holds_at :: "bytes \<Rightarrow> nat \<Rightarrow> bytes \<Rightarrow> bool" where
  "holds_at buf pos bs \<longleftrightarrow> chunk pos (length bs) buf = bs"

lemma holds_at_Nil [simp]: "holds_at buf pos []"
  by (simp add: holds_at_def chunk_def)

lemma holds_at_append [simp]:
  "holds_at buf pos (xs @ ys) \<longleftrightarrow> holds_at buf pos xs \<and> holds_at buf (pos + length xs) ys"
proof -
  have "take (length xs + length ys) (drop pos buf) = xs @ ys \<longleftrightarrow>
      take (length xs) (drop pos buf) = xs \<and> take (length ys) (drop (length xs) (drop pos buf)) = ys" (is "?l = ?r")
  proof
    assume l: ?l
    have "length (take (length xs + length ys) (drop pos buf)) = length xs + length ys" by (simp only: l length_append)
    then have "length xs + length ys \<le> length (drop pos buf)" by simp
    then show ?r using l by (simp add: take_add append_eq_append_conv)
  qed (simp add: take_add)
  then show ?thesis by (simp add: holds_at_def chunk_def add.commute)
qed

lemma holds_at_Cons: "holds_at buf pos (x # xs) \<longleftrightarrow> holds_at buf pos [x] \<and> holds_at buf (Suc pos) xs"
  using holds_at_append [of buf pos "[x]" xs] by simp

lemma holds_at_fits:
  assumes "holds_at buf pos bs" and "bs \<noteq> []"
  shows "pos + length bs \<le> length buf"
proof -
  have "min (length bs) (length buf - pos) = length bs"
    using arg_cong [OF assms(1) [unfolded holds_at_def], of length] by simp
  moreover have "0 < length bs" using assms(2) by simp
  ultimately show ?thesis by linarith
qed

lemma holds_at_fits_le: "holds_at buf pos bs \<Longrightarrow> pos \<le> length buf \<Longrightarrow> pos + length bs \<le> length buf"
  using holds_at_fits by fastforce

lemma holds_at_overlay_same [simp]: "pos + length bs \<le> length buf \<Longrightarrow> holds_at (overlay buf pos bs) pos bs"
  by (simp add: holds_at_def)

lemma holds_at_overlay_other:
  assumes "pos + length bs \<le> length buf" and "p + length xs \<le> pos \<or> pos + length bs \<le> p"
  shows "holds_at (overlay buf pos bs) p xs \<longleftrightarrow> holds_at buf p xs"
  using assms by (auto simp: holds_at_def chunk_overlay_before chunk_overlay_after)

lemma holds_at_resized: "q + length xs \<le> length b \<Longrightarrow> length b \<le> n \<Longrightarrow> holds_at (resized n b) q xs \<longleftrightarrow> holds_at b q xs"
  by (simp add: holds_at_def chunk_def resized_def)

lemma holds_at_prefix: "holds_at (xs @ bs @ ys) (length xs) bs"
  by (simp add: holds_at_def chunk_def)

lemma overlay_middle: "length ys' = length ys \<Longrightarrow> pos = length xs \<Longrightarrow> overlay (xs @ ys @ zs) pos ys' = xs @ ys' @ zs"
  by (simp add: overlay_def)

lemma take_overlay: "n \<le> pos \<Longrightarrow> pos \<le> length buf \<Longrightarrow> take n (overlay buf pos bs) = take n buf"
  by (simp add: overlay_def min_def)

lemma le_bytes_mod: "le_bytes w (n mod 256 ^ w) = le_bytes w n"
proof (induction w arbitrary: n)
  case (Suc w)
  have "(n mod 256 ^ Suc w) mod 256 = n mod 256" by (simp add: mod_mod_cancel)
  moreover have "(n mod 256 ^ Suc w) div 256 = (n div 256) mod 256 ^ w"
    by (simp add: mod_mult2_eq)
  ultimately show ?case by (simp only: le_bytes.simps Suc.IH)
qed simp

lemma le_bytes_0: "le_bytes w 0 = replicate w 0"
  by (induction w) simp_all

section \<open>The library\<close>

text \<open>\<open>BufferSTL\<close>.\<close>

record BufferSTL =
  m_Buffer :: bytes
  m_Position :: nat
  m_AbsolutePosition :: size_t

text \<open>
  \<open>CopyToBuffer (buffer, position, source, elements)\<close> of the elements' bytes, \<open>InsertToBuffer\<close>,
  \<open>ReadValue<T>\<close> of a type of w bytes, \<open>IsLittleEndian\<close>, \<open>RemoveTrailingSlash\<close>,
  \<open>PathSeparator\<close>, \<open>GetTotalSize\<close>, \<open>IsRowMajor\<close>, \<open>BufferSTL::GetAvailableSize\<close> and \<open>Resize\<close>; and of \<open>BPBase\<close>:
  \<open>PutNameRecord\<close> into a vector and at a position, \<open>ReadBPString\<close>, \<open>GetTransportIDs\<close>,
  \<open>PutMinifooter\<close> and the size it needs. \<open>adios_version\<close> are the macros \<open>ADIOS2_VERSION_MAJOR\<close>, \<open>_MINOR\<close> and
  \<open>_PATCH\<close>; \<open>has_endian_reverse\<close> says whether \<open>ADIOS2_HAVE_ENDIAN_REVERSE\<close> is defined.
\<close>

record bp_lib =
  CopyToBuffer :: "bytes \<Rightarrow> nat \<Rightarrow> bytes \<Rightarrow> failure + bytes \<times> nat"
  InsertToBuffer :: "bytes \<Rightarrow> bytes \<Rightarrow> bytes"
  ReadValue :: "nat \<Rightarrow> bytes \<Rightarrow> nat \<Rightarrow> bool \<Rightarrow> failure + nat \<times> nat"
  IsLittleEndian :: bool
  RemoveTrailingSlash :: "string \<Rightarrow> string"
  PathSeparator :: string
  GetTotalSize :: "size_t list \<Rightarrow> size_t"
  IsRowMajor :: "string \<Rightarrow> bool"
  GetAvailableSize :: "bytes \<Rightarrow> nat \<Rightarrow> nat"
  Resize :: "bytes \<Rightarrow> nat \<Rightarrow> string \<Rightarrow> failure + bytes"
  PutNameRecord_end :: "string \<Rightarrow> bytes \<Rightarrow> bytes"
  PutNameRecord :: "string \<Rightarrow> bytes \<Rightarrow> nat \<Rightarrow> failure + bytes \<times> nat"
  ReadBPString :: "bytes \<Rightarrow> nat \<Rightarrow> bool \<Rightarrow> failure + string \<times> nat"
  GetTransportIDs :: "string list \<Rightarrow> byte list"
  PutMinifooter :: "size_t \<Rightarrow> size_t \<Rightarrow> size_t \<Rightarrow> bytes \<Rightarrow> nat \<Rightarrow> failure + bytes \<times> nat"
  MiniFooterSize :: nat
  adios_version :: "nat \<times> nat \<times> nat"
  has_endian_reverse :: bool

text \<open>The bytes of a value of w bytes in the memory of the host, and of a name record.\<close>

definition host :: "bp_lib \<Rightarrow> nat \<Rightarrow> nat \<Rightarrow> bytes" where
  "host L w n = num_bytes (IsLittleEndian L) w n"

definition str_bytes :: "string \<Rightarrow> bytes" where
  "str_bytes s = map of_char s"

definition bytes_str :: "bytes \<Rightarrow> string" where
  "bytes_str bs = map (\<lambda>b. char_of (unat b)) bs"

definition name_record :: "bp_lib \<Rightarrow> string \<Rightarrow> bytes" where
  "name_record L s = host L 2 (length s) @ str_bytes s"

lemma length_host [simp]: "length (host L w n) = w"
  by (simp add: host_def)

lemma length_str_bytes [simp]: "length (str_bytes s) = length s"
  by (simp add: str_bytes_def)

lemma unat_of_char [simp]: "unat (of_char c :: byte) = of_char c"
proof -
  have "(of_char c :: nat) < 2 ^ LENGTH(8)" by simp
  then have "unat (of_nat (of_char c) :: byte) = of_char c" by (simp only: unat_of_nat mod_less)
  then show ?thesis by (simp only: of_nat_of_char)
qed

lemma bytes_str_bytes [simp]: "bytes_str (str_bytes s) = s"
  by (induction s) (simp_all add: bytes_str_def str_bytes_def)

lemma length_name_record [simp]: "length (name_record L s) = 2 + length s"
  by (simp add: name_record_def)

lemma host_mod: "host L w (n mod 256 ^ w) = host L w n"
  by (simp add: host_def num_bytes_def le_bytes_mod)

lemma host_4_word: "host L 4 (unat (x + of_nat k :: 32 word)) = host L 4 (unat x + k)"
  using host_mod [of L 4 "unat x + k"] by (simp add: unat_word_ariths unat_of_nat mod_add_right_eq)

lemma host_4_of_nat: "host L 4 (unat (of_nat k :: 32 word)) = host L 4 k"
  using host_mod [of L 4 k] by (simp add: unat_of_nat)

lemma host_8_of_nat: "host L 8 (unat (of_nat k :: size_t)) = host L 8 k"
  using host_mod [of L 8 k] by (simp add: unat_of_nat)

lemma host_0 [simp]: "host L w 0 = replicate w 0"
  by (simp add: host_def num_bytes_def le_bytes_0)

lemma num_of_host [simp]: "num_of (IsLittleEndian L) (host L w n) = n mod 256 ^ w"
  by (simp add: host_def)

text \<open>
  A sequence of calls that each advance the position: \<open>CopyToBuffer\<close> of some bytes, a number
  of bytes that is stepped over, \<open>PutNameRecord\<close>.
\<close>

datatype put = Put bytes | Skip nat | Name string

fun puts :: "bp_lib \<Rightarrow> put list \<Rightarrow> bytes \<times> nat \<Rightarrow> failure + bytes \<times> nat" where
  "puts L [] (buf, pos) = Inr (buf, pos)"
| "puts L (Put bs # ps) (buf, pos) = bind_sum (CopyToBuffer L buf pos bs) (puts L ps)"
| "puts L (Skip n # ps) (buf, pos) = puts L ps (buf, pos + n)"
| "puts L (Name s # ps) (buf, pos) = bind_sum (PutNameRecord L s buf pos) (puts L ps)"

fun put_size :: "put \<Rightarrow> nat" where
  "put_size (Put bs) = length bs"
| "put_size (Skip n) = n"
| "put_size (Name s) = 2 + length s"

abbreviation puts_size :: "put list \<Rightarrow> nat" where
  "puts_size ps \<equiv> sum_list (map put_size ps)"

text \<open>What the sequence leaves at its place: the bytes that are stepped over stay.\<close>

fun put_image :: "bp_lib \<Rightarrow> put list \<Rightarrow> bytes \<Rightarrow> bytes" where
  "put_image L [] old = []"
| "put_image L (Put bs # ps) old = bs @ put_image L ps (drop (length bs) old)"
| "put_image L (Skip n # ps) old = take n old @ put_image L ps (drop n old)"
| "put_image L (Name s # ps) old = name_record L s @ put_image L ps (drop (2 + length s) old)"

lemma puts_append: "puts L (ps @ qs) bp = bind_sum (puts L ps bp) (puts L qs)"
  by (induction L ps bp rule: puts.induct) (simp_all add: bind_sum_def split: sum.splits)

lemma length_put_image: "puts_size ps \<le> length old \<Longrightarrow> length (put_image L ps old) = puts_size ps"
  by (induction L ps old rule: put_image.induct) auto

text \<open>
  The laws. A copy that fits replaces the bytes at the position; a value that lies in the
  buffer is read in the given byte order; \<open>Resize\<close> keeps the bytes and adds zeros; a name
  record is a length of 2 bytes and the characters, and \<open>ReadBPString\<close> reads one.
\<close>

locale bp_library =
  fixes L :: bp_lib
  assumes copy_fits: "pos + length bs \<le> length buf \<Longrightarrow> CopyToBuffer L buf pos bs = Inr (overlay buf pos bs, pos + length bs)"
    and insert_end: "InsertToBuffer L buf bs = buf @ bs"
    and read_value: "pos + w \<le> length buf \<Longrightarrow> ReadValue L w buf pos little = Inr (num_of little (chunk pos w buf), pos + w)"
    and available: "GetAvailableSize L buf pos = length buf - pos"
    and resize_zeros: "Resize L buf n hint = Inr (resized n buf)"
    and minifooter_fits: "pos + MiniFooterSize L \<le> length buf \<Longrightarrow> \<exists>m. length m = MiniFooterSize L \<and>
      PutMinifooter L pgs vars attrs buf pos = Inr (overlay buf pos m, pos + MiniFooterSize L)"
    and name_end: "PutNameRecord_end L s buf = buf @ name_record L s"
    and name_fits: "pos + 2 + length s \<le> length buf \<Longrightarrow> PutNameRecord L s buf pos = Inr (overlay buf pos (name_record L s), pos + 2 + length s)"
    and read_name: "holds_at buf pos (name_record L s) \<Longrightarrow> length s < 2 ^ 16 \<Longrightarrow>
      ReadBPString L buf pos (IsLittleEndian L) = Inr (s, pos + 2 + length s)"
begin

lemma puts_fits:
  assumes "pos + puts_size ps \<le> length buf"
  shows "puts L ps (buf, pos) = Inr (overlay buf pos (put_image L ps (drop pos buf)), pos + puts_size ps)"
  using assms
proof (induction ps arbitrary: buf pos)
  case Nil
  then show ?case by (simp add: overlay_def)
next
  case (Cons p ps)
  have step: "overlay (overlay buf pos bs) (pos + length bs) (put_image L ps (drop (pos + length bs) (overlay buf pos bs))) =
      overlay buf pos (bs @ put_image L ps (drop (length bs) (drop pos buf)))"
    if "pos + (length bs + puts_size ps) \<le> length buf" for bs
    using that by (simp add: overlay_def length_put_image ac_simps)
  show ?case
  proof (cases p)
    case (Put bs)
    have "puts L (p # ps) (buf, pos) = puts L ps (overlay buf pos bs, pos + length bs)"
      using Cons.prems Put by (simp add: copy_fits)
    also have "\<dots> = Inr (overlay (overlay buf pos bs) (pos + length bs)
        (put_image L ps (drop (pos + length bs) (overlay buf pos bs))), pos + length bs + puts_size ps)"
      using Cons.prems Put by (intro Cons.IH) simp
    finally show ?thesis using step [of bs] Cons.prems Put by (simp add: add.assoc)
  next
    case (Skip n)
    have "puts L (p # ps) (buf, pos) = Inr (overlay buf (pos + n) (put_image L ps (drop (pos + n) buf)), pos + n + puts_size ps)"
      using Cons.prems Skip Cons.IH [of "pos + n" buf] by (simp add: add.assoc)
    moreover have "overlay buf (pos + n) (put_image L ps (drop (pos + n) buf)) =
        overlay buf pos (take n (drop pos buf) @ put_image L ps (drop n (drop pos buf)))"
      using Cons.prems Skip take_add [of pos n buf]
      by (simp add: overlay_def length_put_image add.assoc add.commute [of _ pos])
    ultimately show ?thesis using Skip by (simp add: add.assoc)
  next
    case (Name s)
    let ?bs = "name_record L s"
    have "puts L (p # ps) (buf, pos) = puts L ps (overlay buf pos ?bs, pos + length ?bs)"
      using Cons.prems Name by (simp add: name_fits add.assoc)
    also have "\<dots> = Inr (overlay (overlay buf pos ?bs) (pos + length ?bs)
        (put_image L ps (drop (pos + length ?bs) (overlay buf pos ?bs))), pos + length ?bs + puts_size ps)"
      using Cons.prems Name by (intro Cons.IH) simp
    finally show ?thesis using step [of ?bs] Cons.prems Name by (simp add: add.assoc)
  qed
qed

text \<open>A value that was written is read back, modulo the width of its type.\<close>

lemma read_written:
  assumes "holds_at buf pos (host L w n)" and "0 < w"
  shows "ReadValue L w buf pos (IsLittleEndian L) = Inr (n mod 256 ^ w, pos + w)"
proof -
  have "host L w n \<noteq> []" using assms(2) length_host [of L w n] by (metis list.size(3) less_numeral_extra(3))
  then have "pos + w \<le> length buf" using holds_at_fits [OF assms(1)] by simp
  then show ?thesis using assms(1) by (simp add: read_value holds_at_def)
qed

lemma read_byte:
  assumes "holds_at buf pos [b]"
  shows "ReadValue L 1 buf pos little = Inr (unat b, pos + 1)"
proof -
  have "pos + 1 \<le> length buf" using holds_at_fits [OF assms] by simp
  from read_value [OF this] show ?thesis using assms by (simp add: holds_at_def num_of_def)
qed

end

section \<open>A reference instance\<close>

text \<open>A little-endian host that reverses bytes; everything that is not documented is simple.\<close>

definition ref_copy :: "bytes \<Rightarrow> nat \<Rightarrow> bytes \<Rightarrow> failure + bytes \<times> nat" where
  "ref_copy buf pos bs = bind_sum (mem_write buf pos bs) (\<lambda>buf'. Inr (buf', pos + length bs))"

definition ref_value :: "nat \<Rightarrow> bytes \<Rightarrow> nat \<Rightarrow> bool \<Rightarrow> failure + nat \<times> nat" where
  "ref_value w buf pos little = bind_sum (mem_read buf pos w) (\<lambda>bs. Inr (num_of little bs, pos + w))"

definition ref_string :: "bytes \<Rightarrow> nat \<Rightarrow> bool \<Rightarrow> failure + string \<times> nat" where
  "ref_string buf pos little =
     bind_sum (ref_value 2 buf pos little) (\<lambda>(n, pos1).
     bind_sum (mem_read buf pos1 n) (\<lambda>bs. Inr (bytes_str bs, pos1 + n)))"

definition ref_name :: "string \<Rightarrow> bytes" where
  "ref_name s = num_bytes True 2 (length s) @ str_bytes s"

definition ref_bp :: bp_lib where
  "ref_bp =
     \<lparr>CopyToBuffer = ref_copy, InsertToBuffer = (@), ReadValue = ref_value, IsLittleEndian = True,
      RemoveTrailingSlash = (\<lambda>s. rev (dropWhile (\<lambda>c. c = CHR ''/'') (rev s))), PathSeparator = ''/'',
      GetTotalSize = prod_list, IsRowMajor = (\<lambda>lang. lang = ''C++''),
      GetAvailableSize = (\<lambda>buf pos. length buf - pos), Resize = (\<lambda>buf n hint. Inr (resized n buf)), PutNameRecord_end = (\<lambda>s buf. buf @ ref_name s),
      PutNameRecord = (\<lambda>s buf pos. ref_copy buf pos (ref_name s)), ReadBPString = ref_string,
      GetTransportIDs = map (\<lambda>_. 2),
      PutMinifooter = (\<lambda>a b c buf pos. ref_copy buf pos (concat (map (\<lambda>x. num_bytes True 8 (unat x)) [a, b, c]))),
      MiniFooterSize = 24, adios_version = (2, 6, 0), has_endian_reverse = True\<rparr>"

lemma ref_bp_sel [simp]:
  "CopyToBuffer ref_bp = ref_copy" "InsertToBuffer ref_bp = (@)" "ReadValue ref_bp = ref_value" "IsLittleEndian ref_bp = True"
  "GetAvailableSize ref_bp buf pos = length buf - pos" "Resize ref_bp buf n hint = Inr (resized n buf)" "PutNameRecord_end ref_bp s buf = buf @ ref_name s"
  "PutNameRecord ref_bp s buf pos = ref_copy buf pos (ref_name s)" "ReadBPString ref_bp = ref_string"
  "GetTransportIDs ref_bp = map (\<lambda>_. 2)" "adios_version ref_bp = (2, 6, 0)" "has_endian_reverse ref_bp"
  by (simp_all add: ref_bp_def)

lemma length_ref_name [simp]: "length (ref_name s) = 2 + length s"
  by (simp add: ref_name_def)

lemma name_record_ref: "name_record ref_bp = ref_name"
  by (rule ext) (simp add: name_record_def ref_name_def host_def)

lemma ref_string_name:
  assumes "holds_at buf pos (ref_name s)" and "length s < 2 ^ 16"
  shows "ref_string buf pos True = Inr (s, pos + 2 + length s)"
proof -
  have "ref_name s \<noteq> []" using length_ref_name [of s] by (metis list.size(3) add_is_0 zero_neq_numeral)
  then have le: "pos + (2 + length s) \<le> length buf" using holds_at_fits [OF assms(1)] by simp
  have "chunk pos 2 buf = num_bytes True 2 (length s)" and "chunk (pos + 2) (length s) buf = str_bytes s"
    using assms(1) by (simp_all add: ref_name_def holds_at_def [of _ _ "num_bytes _ _ _"] holds_at_def [of _ _ "str_bytes _"])
  moreover have "length s mod 256 ^ 2 = length s" using assms(2) by simp
  ultimately show ?thesis using le by (simp add: ref_string_def ref_value_def mem_read_def)
qed

interpretation ref_bp: bp_library ref_bp
proof
  show "ReadBPString ref_bp buf pos (IsLittleEndian ref_bp) = Inr (s, pos + 2 + length s)"
    if "holds_at buf pos (name_record ref_bp s)" "length s < 2 ^ 16" for pos s buf
    using ref_string_name [of buf pos s] that by (simp add: name_record_ref)
  show "\<exists>m. length m = MiniFooterSize ref_bp \<and>
      PutMinifooter ref_bp a b c buf pos = Inr (overlay buf pos m, pos + MiniFooterSize ref_bp)"
    if "pos + MiniFooterSize ref_bp \<le> length buf" for a b c buf pos
    using that by (intro exI [of _ "concat (map (\<lambda>x. num_bytes True 8 (unat x)) [a, b, c])"])
      (simp add: ref_bp_def ref_copy_def mem_write_def)
qed (simp_all add: name_record_ref ref_copy_def ref_value_def mem_write_def mem_read_def)

end
