(* ===== verification/Bp4_Base.thy ===== *)
theory Bp4_Base
  imports Bp4_Bytes
begin

text \<open>
  serialize/bp4/BP4Base.cpp and BP4Base.h: the names of the files of a BP4 data set, the
  estimate of the size of a variable's index, and the header of a variable or attribute
  in the metadata.
\<close>

section \<open>Constants\<close>

definition m_IndexHeaderSize :: nat where "m_IndexHeaderSize = 64"
definition m_IndexRecordSize :: nat where "m_IndexRecordSize = 64"
definition m_EndianFlagPosition :: nat where "m_EndianFlagPosition = 36"
definition m_BPVersionPosition :: nat where "m_BPVersionPosition = 37"
definition m_ActiveFlagPosition :: nat where "m_ActiveFlagPosition = 38"
definition m_VersionTagPosition :: nat where "m_VersionTagPosition = 0"
definition m_VersionTagLength :: nat where "m_VersionTagLength = 32"

lemmas header_positions =
  m_IndexHeaderSize_def m_IndexRecordSize_def m_EndianFlagPosition_def m_BPVersionPosition_def
  m_ActiveFlagPosition_def m_VersionTagPosition_def m_VersionTagLength_def

section \<open>File names\<close>

text \<open>
  The members the names depend on: \<open>m_RankMPI\<close>, and whether the aggregator is active with its
  sub-stream. \<open>std::to_string\<close> of a size is \<open>dec_nat\<close>.
\<close>

record bp4_base =
  m_RankMPI :: int
  m_IsActive :: bool
  m_SubStreamIndex :: size_t

definition GetBPBaseNames :: "bp_lib \<Rightarrow> string list \<Rightarrow> string list" where
  "GetBPBaseNames L names = map (RemoveTrailingSlash L) names"

definition GetBPMetadataFileName :: "bp_lib \<Rightarrow> string \<Rightarrow> string" where
  "GetBPMetadataFileName L name =
     (let bpName = RemoveTrailingSlash L name; index = 0 in bpName @ PathSeparator L @ ''md.'' @ dec_nat index)"

definition GetBPMetadataFileNames :: "bp_lib \<Rightarrow> string list \<Rightarrow> string list" where
  "GetBPMetadataFileNames L names = map (GetBPMetadataFileName L) names"

definition GetBPMetadataIndexFileName :: "bp_lib \<Rightarrow> string \<Rightarrow> string" where
  "GetBPMetadataIndexFileName L name =
     (let bpName = RemoveTrailingSlash L name in bpName @ PathSeparator L @ ''md.idx'')"

definition GetBPMetadataIndexFileNames :: "bp_lib \<Rightarrow> string list \<Rightarrow> string list" where
  "GetBPMetadataIndexFileNames L names = map (GetBPMetadataIndexFileName L) names"

definition GetBPActiveFlagFileName :: "bp_lib \<Rightarrow> string \<Rightarrow> string" where
  "GetBPActiveFlagFileName L name =
     (let bpName = RemoveTrailingSlash L name in bpName @ PathSeparator L @ ''active'')"

definition GetBPActiveFlagFileNames :: "bp_lib \<Rightarrow> string list \<Rightarrow> string list" where
  "GetBPActiveFlagFileNames L names = map (GetBPActiveFlagFileName L) names"

definition GetBPSubStreamName :: "bp_lib \<Rightarrow> bp4_base \<Rightarrow> string \<Rightarrow> size_t \<Rightarrow> bool \<Rightarrow> bool \<Rightarrow> string" where
  "GetBPSubStreamName L B name i hasSubFiles isReader =
     (if \<not> hasSubFiles then name
      else
        (let bpName = RemoveTrailingSlash L name;
             index = (if isReader then i else if m_IsActive B then m_SubStreamIndex B else i)
         in bpName @ PathSeparator L @ ''data.'' @ dec_nat (unat index)))"

text \<open>The rank is cast to \<open>unsigned int\<close>.\<close>

definition GetBPSubStreamNames :: "bp_lib \<Rightarrow> bp4_base \<Rightarrow> string list \<Rightarrow> string list" where
  "GetBPSubStreamNames L B names =
     map (\<lambda>name. GetBPSubStreamName L B name (of_int (m_RankMPI B mod 2 ^ 32)) True False) names"

definition GetBPSubFileName :: "bp_lib \<Rightarrow> bp4_base \<Rightarrow> string \<Rightarrow> size_t \<Rightarrow> bool \<Rightarrow> bool \<Rightarrow> string" where
  "GetBPSubFileName L B name subFileIndex hasSubFiles isReader =
     GetBPSubStreamName L B name subFileIndex hasSubFiles isReader"

text \<open>No two files of a data set have the same name.\<close>

lemma data_names_inject:
  "GetBPSubFileName L B name i True True = GetBPSubFileName L B name j True True \<longleftrightarrow> i = j"
  by (simp add: dec_nat_inject word_unat_eq_iff [symmetric] GetBPSubFileName_def GetBPSubStreamName_def Let_def)

lemma file_names_distinct:
  "distinct [GetBPMetadataFileName L name, GetBPMetadataIndexFileName L name, GetBPActiveFlagFileName L name,
     GetBPSubFileName L B name i True isReader]"
  by (simp add: GetBPMetadataFileName_def GetBPMetadataIndexFileName_def GetBPActiveFlagFileName_def
      GetBPSubFileName_def GetBPSubStreamName_def Let_def dec_nat.simps [of 0])

section \<open>The estimate of an index size\<close>

definition GetBPIndexSizeInData :: "bp_lib \<Rightarrow> int \<Rightarrow> size_t \<Rightarrow> string \<Rightarrow> size_t list \<Rightarrow> failure + size_t" where
  "GetBPIndexSizeInData L StatsLevel StatsBlockSize variableName Count =
     (let indexSize = 23;
          indexSize = indexSize + (4 + 32);
          indexSize = indexSize + of_nat (length variableName);
          dimensions = of_nat (length Count);
          indexSize = indexSize + 28 * dimensions;
          indexSize = indexSize + 1;
          indexSize = indexSize + 2 * (1 + 8);
          indexSize = (if dimensions = 1 then indexSize + 2 * 8 + 1 + 1 else indexSize);
          indexSize = indexSize + 5
      in bind_sum
           (if StatsLevel = 1 then
              (if StatsBlockSize = 0 then Inl (Crash Division_by_zero)
               else
                 (let nElems = GetTotalSize L Count;
                      nSubblocks = nElems div StatsBlockSize;
                      indexSize = indexSize + 2 * (nSubblocks + 1) * (2 * 8 + 1);
                      indexSize = indexSize + dimensions * 2
                  in Inr (indexSize + (1 + 2))))
            else Inr indexSize)
           (\<lambda>indexSize.
              (let indexSize = indexSize + (28 * dimensions + 1)
               in Inr (indexSize + 12 + 4))))"

section \<open>The header of an element\<close>

text \<open>\<open>ElementIndexHeader\<close>; \<open>DataType\<close> and \<open>Order\<close> are its bytes.\<close>

record ElementIndexHeader =
  eh_Length :: nat
  eh_MemberID :: nat
  eh_GroupName :: string
  eh_Name :: string
  eh_Path :: string
  eh_Order :: byte
  eh_DataType :: byte
  eh_CharacteristicsSetsCount :: nat

definition ReadElementIndexHeader :: "bp_lib \<Rightarrow> bytes \<Rightarrow> nat \<Rightarrow> bool \<Rightarrow> failure + ElementIndexHeader \<times> nat" where
  "ReadElementIndexHeader L buffer position isLittleEndian =
     bind_sum (ReadValue L 4 buffer position isLittleEndian) (\<lambda>(len, position).
     bind_sum (ReadValue L 4 buffer position isLittleEndian) (\<lambda>(mid, position).
     bind_sum (ReadBPString L buffer position isLittleEndian) (\<lambda>(group, position).
     bind_sum (ReadBPString L buffer position isLittleEndian) (\<lambda>(name, position).
     bind_sum (ReadValue L 1 buffer position isLittleEndian) (\<lambda>(order, position).
     bind_sum (ReadValue L 1 buffer position isLittleEndian) (\<lambda>(unused, position).
     bind_sum (ReadValue L 1 buffer position isLittleEndian) (\<lambda>(dataType, position).
     bind_sum (ReadValue L 8 buffer position isLittleEndian) (\<lambda>(sets, position).
       Inr (\<lparr>eh_Length = len, eh_MemberID = mid, eh_GroupName = group, eh_Name = name, eh_Path = [], eh_Order = of_nat order,
         eh_DataType = of_nat dataType, eh_CharacteristicsSetsCount = sets\<rparr>, position)))))))))"

text \<open>The bytes of a header, and that they are read back.\<close>

definition element_header :: "bp_lib \<Rightarrow> ElementIndexHeader \<Rightarrow> bytes" where
  "element_header L h =
     host L 4 (eh_Length h) @ host L 4 (eh_MemberID h) @ name_record L (eh_GroupName h) @ name_record L (eh_Name h) @
     [eh_Order h] @ [0] @ [eh_DataType h] @ host L 8 (eh_CharacteristicsSetsCount h)"

definition header_ok :: "ElementIndexHeader \<Rightarrow> bool" where
  "header_ok h \<longleftrightarrow> eh_Length h < 2 ^ 32 \<and> eh_MemberID h < 2 ^ 32 \<and> length (eh_GroupName h) < 2 ^ 16 \<and>
     length (eh_Name h) < 2 ^ 16 \<and> eh_Path h = [] \<and> eh_CharacteristicsSetsCount h < 2 ^ 64"

lemma length_element_header [simp]:
  "length (element_header L h) = 23 + length (eh_GroupName h) + length (eh_Name h)"
  by (simp add: element_header_def)

context bp_library
begin

lemma read_header:
  assumes "holds_at buf pos (element_header L h)" and "header_ok h"
  shows "ReadElementIndexHeader L buf pos (IsLittleEndian L) = Inr (h, pos + length (element_header L h))"
proof -
  define p1 where "p1 = pos + 4"
  define p2 where "p2 = p1 + 4"
  define p3 where "p3 = p2 + 2 + length (eh_GroupName h)"
  define p4 where "p4 = p3 + 2 + length (eh_Name h)"
  define p5 where "p5 = p4 + 1"
  define p6 where "p6 = p5 + 1"
  define p7 where "p7 = p6 + 1"
  note p = p1_def p2_def p3_def p4_def p5_def p6_def p7_def
  have at: "holds_at buf pos (host L 4 (eh_Length h))" "holds_at buf p1 (host L 4 (eh_MemberID h))"
    "holds_at buf p2 (name_record L (eh_GroupName h))" "holds_at buf p3 (name_record L (eh_Name h))"
    "holds_at buf p4 [eh_Order h]" "holds_at buf p5 [0]" "holds_at buf p6 [eh_DataType h]"
    "holds_at buf p7 (host L 8 (eh_CharacteristicsSetsCount h))"
    using assms(1) unfolding element_header_def holds_at_append by (simp_all add: p ac_simps)
  have small: "length (eh_GroupName h) < 2 ^ 16" "length (eh_Name h) < 2 ^ 16" using assms(2) by (simp_all add: header_ok_def)
  have "pos + length (element_header L h) = p7 + 8" by (simp add: p)
  then show ?thesis
    using assms(2)
    by (simp add: ReadElementIndexHeader_def read_written [OF at(1), folded p1_def] read_written [OF at(2), folded p2_def]
        read_name [OF at(3) small(1), folded p3_def] read_name [OF at(4) small(2), folded p4_def]
        read_byte [OF at(5), folded p5_def, simplified] read_byte [OF at(6), folded p6_def, simplified]
        read_byte [OF at(7), folded p7_def, simplified] read_written [OF at(8)] header_ok_def)
qed

end

end
