(* ===== verification/Bp4_Header.thy ===== *)
theory Bp4_Header
  imports Bp4_Base "HOL-Library.AList"
begin

text \<open>
  The index file of the metadata: \<open>BP4Serializer::MakeHeader\<close> (BP4Serializer.cpp) writes its
  header of 64 bytes, \<open>BP4Deserializer::ParseMetadataIndex\<close> and \<open>ReadActiveFlag\<close>
  (BP4Deserializer.cpp) read it and the records of 64 bytes behind it into the table of
  positions.
\<close>

section \<open>MakeHeader\<close>

text \<open>The readable tag; the room for the file type is a difference of sizes.\<close>

definition version_tag :: "bp_lib \<Rightarrow> string \<Rightarrow> string" where
  "version_tag L fileType =
     (case adios_version L of (major, minor, patch) \<Rightarrow>
        (let versionLongTag = ''ADIOS-BP v'' @ dec_nat major @ ''.'' @ dec_nat minor @ ''.'' @ dec_nat patch @ '' '';
             maxTypeLen = (of_nat m_VersionTagLength - of_nat (length versionLongTag) :: size_t)
         in versionLongTag @ take (unat maxTypeLen) fileType))"

definition MakeHeader :: "bp_lib \<Rightarrow> BufferSTL \<Rightarrow> string \<Rightarrow> bool \<Rightarrow> failure + BufferSTL" where
  "MakeHeader L b fileType isActive =
     (let buffer = m_Buffer b; position = m_Position b
      in if position > 0 then
           Inl (Foreign_exn (''ERROR: BP4Serializer::MakeHeader can only be called for an empty buffer. This one for '' @
             fileType @ '' already has content of '' @ dec_nat position @ '' bytes.''))
         else
           bind_sum
             (if GetAvailableSize L buffer position < 64
              then Resize L buffer (position + 64) (''BP4Serializer::MakeHeader '' @ fileType)
              else Inr buffer) (\<lambda>buffer.
           if position \<noteq> m_VersionTagPosition then
             Inl (Foreign_exn ''ADIOS Coding ERROR in BP4Serializer::MakeHeader. Version Tag position mismatch'')
           else
             (case adios_version L of (major, minor, patch) \<Rightarrow>
               (let tag = str_bytes (version_tag L fileType)
                in bind_sum
                     (puts L (if length tag < m_VersionTagLength
                              then [Put tag, Skip (m_VersionTagLength - length tag)]
                              else [Put (take m_VersionTagLength tag)]) (buffer, position)) (\<lambda>bp.
                   bind_sum
                     (puts L [Put (take 1 (str_bytes (dec_nat major))), Put (take 1 (str_bytes (dec_nat minor))),
                              Put (take 1 (str_bytes (dec_nat patch))), Skip 1] bp) (\<lambda>(buffer, position).
                   if position \<noteq> m_EndianFlagPosition then
                     Inl (Foreign_exn ''ADIOS Coding ERROR in BP4Serializer::MakeHeader. Endian Flag position mismatch'')
                   else bind_sum (puts L [Put [if IsLittleEndian L then 0 else 1]] (buffer, position)) (\<lambda>(buffer, position).
                   if position \<noteq> m_BPVersionPosition then
                     Inl (Foreign_exn ''ADIOS Coding ERROR in BP4Serializer::MakeHeader. Active Flag position mismatch'')
                   else bind_sum (puts L [Put [4]] (buffer, position)) (\<lambda>(buffer, position).
                   if position \<noteq> m_ActiveFlagPosition then
                     Inl (Foreign_exn ''ADIOS Coding ERROR in BP4Serializer::MakeHeader. Active Flag position mismatch'')
                   else bind_sum (puts L [Put [if isActive then 1 else 0], Skip 1, Skip 24] (buffer, position))
                     (\<lambda>(buffer, position).
                       Inr \<lparr>m_Buffer = buffer, m_Position = position, m_AbsolutePosition = of_nat position\<rparr>)))))))))"

section \<open>ParseMetadataIndex\<close>

text \<open>
  \<open>m_MetadataIndexTable\<close>: for a rank and a step the positions of the step's metadata. The two
  levels are association lists; \<open>operator[]\<close> of an absent key makes an empty entry.
\<close>

type_synonym index_table = "(size_t \<times> (size_t \<times> size_t list) list) list"

definition al_at :: "'k \<Rightarrow> 'v \<Rightarrow> ('k \<times> 'v) list \<Rightarrow> 'v" where
  "al_at k d m = (case map_of m k of None \<Rightarrow> d | Some v \<Rightarrow> v)"

definition table_put :: "size_t \<Rightarrow> size_t \<Rightarrow> size_t list \<Rightarrow> index_table \<Rightarrow> index_table" where
  "table_put rank step ptrs t = AList.update rank (AList.update step ptrs (al_at rank [] t)) t"

definition table_at :: "size_t \<Rightarrow> size_t \<Rightarrow> index_table \<Rightarrow> size_t list" where
  "table_at rank step t = al_at step [] (al_at rank [] t)"

lemma al_at_update [simp]: "al_at k d (AList.update k' v m) = (if k = k' then v else al_at k d m)"
  by (simp add: al_at_def update_conv')

lemma table_at_put:
  "table_at rank step (table_put rank' step' ptrs t) =
     (if rank = rank' \<and> step = step' then ptrs else table_at rank step t)"
  by (simp add: table_at_def table_put_def)

text \<open>The members that the parser sets.\<close>

record bp4_reader =
  mf_VersionTag :: bytes
  mf_IsLittleEndian :: bool
  mf_HasSubFiles :: bool
  mf_Version :: byte
  m_WriterIsActive :: bool
  m_MetadataIndexTable :: index_table

definition read_index_header :: "bp_lib \<Rightarrow> bp4_reader \<Rightarrow> bytes \<Rightarrow> failure + bp4_reader" where
  "read_index_header L R buffer =
     bind_sum (mem_read buffer m_VersionTagPosition m_VersionTagLength) (\<lambda>tag.
     bind_sum (ReadValue L 1 buffer m_EndianFlagPosition True) (\<lambda>(endianness, _).
       (let little = (endianness = 0)
        in if \<not> has_endian_reverse L \<and> IsLittleEndian L \<noteq> little then
             Inl (Foreign_exn (''ERROR: reader found BigEndian bp file, this version of ADIOS2 wasn't compiled with the cmake flag -DADIOS2_USE_Endian_Reverse=ON explicitly, in call to Open'' @ [CHR 0x0A]))
           else
             bind_sum (ReadValue L 1 buffer m_BPVersionPosition little) (\<lambda>(version, _).
             if version \<noteq> 4 then
               Inl (Foreign_exn (''ERROR: ADIOS2 BP4 Engine only supports bp format version 4, found '' @ dec_nat version @ '' version '' @ [CHR 0x0A]))
             else
               bind_sum (ReadValue L 1 buffer m_ActiveFlagPosition little) (\<lambda>(active, _).
                 Inr (R\<lparr>mf_VersionTag := tag, mf_IsLittleEndian := little, mf_HasSubFiles := True, mf_Version := of_nat version,
                   m_WriterIsActive := (active = 1)\<rparr>))))))"

definition read_index_record ::
    "bp_lib \<Rightarrow> bool \<Rightarrow> bytes \<Rightarrow> size_t \<Rightarrow> nat \<Rightarrow> failure + (size_t \<times> size_t \<times> size_t list) \<times> nat" where
  "read_index_record L little buffer absoluteStartPos position =
     bind_sum (ReadValue L 8 buffer position little) (\<lambda>(currentStep, position).
     bind_sum (ReadValue L 8 buffer position little) (\<lambda>(mpiRank, position).
     bind_sum (ReadValue L 8 buffer position little) (\<lambda>(pgIndexStart, position).
     bind_sum (ReadValue L 8 buffer position little) (\<lambda>(variablesIndexStart, position).
     bind_sum (ReadValue L 8 buffer position little) (\<lambda>(attributesIndexStart, position).
     bind_sum (ReadValue L 8 buffer position little) (\<lambda>(currentStepEndPos, position).
     bind_sum (ReadValue L 8 buffer position little) (\<lambda>(currentTimeStamp, position).
       Inr ((of_nat mpiRank, of_nat currentStep,
         [of_nat pgIndexStart - absoluteStartPos, of_nat variablesIndexStart - absoluteStartPos,
          of_nat attributesIndexStart - absoluteStartPos, of_nat currentStepEndPos - absoluteStartPos,
          of_nat currentTimeStamp]), position + 8))))))))"

text \<open>The loop reads one record before it looks at the size.\<close>

partial_function (option) parse_records ::
    "bp_lib \<Rightarrow> bool \<Rightarrow> bytes \<Rightarrow> size_t \<Rightarrow> bool \<Rightarrow> index_table \<Rightarrow> nat \<Rightarrow> (failure + index_table \<times> nat) option" where
  "parse_records L little buffer absoluteStartPos oneStepOnly table position =
     (case read_index_record L little buffer absoluteStartPos position of
        Inl e \<Rightarrow> Some (Inl e)
      | Inr ((rank, step, ptrs), position) \<Rightarrow>
          (let table = table_put rank step ptrs table
           in if \<not> oneStepOnly \<and> position < length buffer
              then parse_records L little buffer absoluteStartPos oneStepOnly table position
              else Some (Inr (table, position))))"

definition ParseMetadataIndex ::
    "bp_lib \<Rightarrow> bp4_reader \<Rightarrow> BufferSTL \<Rightarrow> size_t \<Rightarrow> bool \<Rightarrow> bool \<Rightarrow> (failure + bp4_reader \<times> BufferSTL) option" where
  "ParseMetadataIndex L R b absoluteStartPos hasHeader oneStepOnly =
     (case (if hasHeader then bind_sum (read_index_header L R (m_Buffer b)) (\<lambda>R. Inr (R, 64)) else Inr (R, m_Position b)) of
        Inl e \<Rightarrow> Some (Inl e)
      | Inr (R, position) \<Rightarrow>
          map_option (\<lambda>r. bind_sum r (\<lambda>(table, position).
              Inr (R\<lparr>m_MetadataIndexTable := table\<rparr>, b\<lparr>m_Position := position\<rparr>)))
            (parse_records L (mf_IsLittleEndian R) (m_Buffer b) absoluteStartPos oneStepOnly (m_MetadataIndexTable R) position))"

section \<open>ReadActiveFlag\<close>

definition ReadActiveFlag :: "bp_lib \<Rightarrow> bp4_reader \<Rightarrow> bytes \<Rightarrow> failure + bp4_reader \<times> bool" where
  "ReadActiveFlag L R buffer =
     (if length buffer < m_ActiveFlagPosition then
        Inl (Foreign_exn ''BP4Deserializer::ReadActiveFlag() is called with a buffer smaller than required'')
      else
        bind_sum (ReadValue L 1 buffer m_ActiveFlagPosition (mf_IsLittleEndian R)) (\<lambda>(active, _).
          Inr (R\<lparr>m_WriterIsActive := (active = 1)\<rparr>, active = 1)))"

text \<open>
  If a read succeeds only inside the buffer and moves the position by the width, the loop ends
  on every buffer.
\<close>

definition bounded_reads :: "bp_lib \<Rightarrow> bool" where
  "bounded_reads L \<longleftrightarrow> (\<forall>w buf pos little v p. ReadValue L w buf pos little = Inr (v, p) \<longrightarrow> p = pos + w \<and> p \<le> length buf)"

lemma bounded_readsD: "bounded_reads L \<Longrightarrow> ReadValue L w buf pos little = Inr (v, p) \<Longrightarrow> p = pos + w \<and> p \<le> length buf"
  by (auto simp: bounded_reads_def)

lemma read_index_record_position:
  assumes "bounded_reads L" and "read_index_record L little buf a pos = Inr (r, p)"
  shows "p = pos + 64 \<and> pos + 56 \<le> length buf"
proof -
  obtain v1 p1 v2 p2 v3 p3 v4 p4 v5 p5 v6 p6 v7 p7 where rds: "ReadValue L 8 buf pos little = Inr (v1, p1)"
    "ReadValue L 8 buf p1 little = Inr (v2, p2)" "ReadValue L 8 buf p2 little = Inr (v3, p3)" "ReadValue L 8 buf p3 little = Inr (v4, p4)"
    "ReadValue L 8 buf p4 little = Inr (v5, p5)" "ReadValue L 8 buf p5 little = Inr (v6, p6)" "ReadValue L 8 buf p6 little = Inr (v7, p7)"
    and "p = p7 + 8"
    using assms(2) by (auto simp: read_index_record_def bind_sum_Inr_iff)
  then show ?thesis using rds [THEN bounded_readsD [OF assms(1)]] by linarith
qed

lemma parse_records_returns:
  assumes "bounded_reads L"
  shows "\<exists>r. parse_records L little buf a oneStepOnly table pos = Some r"
proof (induction "length buf - pos" arbitrary: table pos rule: less_induct)
  case less
  show ?case
  proof (cases "read_index_record L little buf a pos")
    case (Inl e)
    then show ?thesis by (subst parse_records.simps) simp
  next
    case (Inr x)
    obtain rank step ptrs p where x: "x = ((rank, step, ptrs), p)" by (metis prod_cases3 surj_pair)
    have p: "p = pos + 64" "pos + 56 \<le> length buf" using read_index_record_position [OF assms, of little buf a pos] Inr x by auto
    show ?thesis
    proof (cases "\<not> oneStepOnly \<and> p < length buf")
      case True
      then have "length buf - p < length buf - pos" using p by linarith
      from less [OF this, of "table_put rank step ptrs table"] True show ?thesis
        by (subst parse_records.simps) (simp add: Inr x)
    next
      case False
      then show ?thesis by (subst parse_records.simps) (auto simp: Inr x Let_def)
    qed
  qed
qed

section \<open>What was written is read\<close>

text \<open>The 64 bytes of a header, and of a record of the index.\<close>

definition header_image :: "bp_lib \<Rightarrow> string \<Rightarrow> bool \<Rightarrow> bytes" where
  "header_image L fileType isActive =
     (case adios_version L of (major, minor, patch) \<Rightarrow>
        resized 32 (str_bytes (version_tag L fileType)) @
        take 1 (str_bytes (dec_nat major)) @ take 1 (str_bytes (dec_nat minor)) @ take 1 (str_bytes (dec_nat patch)) @ [0] @
        [if IsLittleEndian L then 0 else 1] @ [4] @ [if isActive then 1 else 0] @ replicate 25 0)"

definition index_record :: "bp_lib \<Rightarrow> size_t \<Rightarrow> size_t \<times> size_t \<times> size_t list \<Rightarrow> bytes" where
  "index_record L absoluteStartPos r =
     (case r of (rank, step, ptrs) \<Rightarrow>
        host L 8 (unat step) @ host L 8 (unat rank) @
        host L 8 (unat (ptrs ! 0 + absoluteStartPos)) @ host L 8 (unat (ptrs ! 1 + absoluteStartPos)) @
        host L 8 (unat (ptrs ! 2 + absoluteStartPos)) @ host L 8 (unat (ptrs ! 3 + absoluteStartPos)) @
        host L 8 (unat (ptrs ! 4)) @ replicate 8 0)"

lemma length_index_record [simp]: "length (index_record L a r) = 64"
  by (simp add: index_record_def split: prod.split)

lemma length_take_dec [simp]: "length (take 1 (str_bytes (dec_nat n))) = 1"
  by (cases "dec_nat n") auto

lemma length_header_image [simp]: "length (header_image L ft act) = 64"
  unfolding header_image_def by (simp only: length_append length_take_dec length_resized split: prod.split) simp

definition table_of :: "(size_t \<times> size_t \<times> size_t list) list \<Rightarrow> index_table \<Rightarrow> index_table" where
  "table_of rs t = foldl (\<lambda>t (rank, step, ptrs). table_put rank step ptrs t) t rs"

context bp_library
begin

text \<open>Writing on into a buffer of zeros.\<close>

lemma puts_zeros:
  assumes "puts_size ps \<le> m" and "pos = length xs"
  shows "puts L ps (xs @ replicate m 0, pos) =
    Inr (xs @ put_image L ps (replicate m 0) @ replicate (m - puts_size ps) 0, length xs + puts_size ps)"
  using puts_fits [of pos ps "xs @ replicate m 0"] assms by (simp add: overlay_def length_put_image)

lemma MakeHeader_image:
  assumes "length (version_tag L fileType) \<le> 32"
  shows "MakeHeader L \<lparr>m_Buffer = [], m_Position = 0, m_AbsolutePosition = a\<rparr> fileType isActive =
    Inr \<lparr>m_Buffer = header_image L fileType isActive, m_Position = 64, m_AbsolutePosition = 64\<rparr>"
proof -
  obtain major minor patch where v: "adios_version L = (major, minor, patch)" by (metis prod_cases3)
  define tag where "tag = str_bytes (version_tag L fileType)"
  define h1 where "h1 = resized 32 tag"
  have "\<exists>c. take 1 (str_bytes (dec_nat n)) = [c]" for n by (cases "dec_nat n") (auto simp: str_bytes_def)
  then obtain c1 c2 c3 where c: "take 1 (str_bytes (dec_nat major)) = [c1]" "take 1 (str_bytes (dec_nat minor)) = [c2]"
    "take 1 (str_bytes (dec_nat patch)) = [c3]"
    by blast
  have tag: "length tag \<le> 32" using assms by (simp add: tag_def)
  have h: "length h1 = 32" by (simp add: h1_def)
  have s1: "puts L (if length tag < 32 then [Put tag, Skip (32 - length tag)] else [Put (take 32 tag)])
      (replicate (32 + 32) 0, 0) = Inr (h1 @ replicate 32 0, 32)"
    using tag puts_zeros [of _ "32 + 32" 0 "[]"] by (auto simp: h1_def resized_def)
  have s2: "puts L [Put [x], Put [y], Put [z], Skip 1] (hs @ replicate (4 + m) 0, length hs) =
      Inr ((hs @ [x, y, z, 0]) @ replicate m 0, length hs + 4)" for hs m x y z
    using puts_zeros [of "[Put [x], Put [y], Put [z], Skip 1]" "4 + m" "length hs" hs] by simp
  have s3: "puts L [Put [x]] (hs @ replicate (1 + m) 0, length hs) = Inr ((hs @ [x]) @ replicate m 0, length hs + 1)" for x hs m
    using puts_zeros [of "[Put [x]]" "1 + m" "length hs" hs] by simp
  have zeros: "replicate 25 (0 :: byte) = 0 # replicate 24 0" by (simp add: numeral_eq_Suc)
  have s4: "puts L [Put [x], Skip 1, Skip 24] (hs @ replicate (1 + 25) 0, length hs) = Inr (hs @ [x] @ replicate 25 0, length hs + 26)"
    for x hs
    using puts_zeros [of "[Put [x], Skip 1, Skip 24]" "1 + 25" "length hs" hs] by (simp add: zeros)
  define h2 h3 h4 where "h2 = h1 @ [c1, c2, c3, 0]" and "h3 = h2 @ [if IsLittleEndian L then 0 else 1]" and "h4 = h3 @ [4]"
  have h': "length h2 = 36" "length h3 = 37" "length h4 = 38" by (simp_all add: h2_def h3_def h4_def h)
  have r2: "puts L [Put [c1], Put [c2], Put [c3], Skip 1] (h1 @ replicate 32 0, 32) = Inr (h2 @ replicate 28 0, 36)"
    using s2 [of c1 c2 c3 h1 28] by (simp add: h h2_def)
  have r3: "puts L [Put [if IsLittleEndian L then 0 else 1]] (h2 @ replicate 28 0, 36) = Inr (h3 @ replicate 27 0, 37)"
    using s3 [of _ h2 27] by (simp add: h' h3_def)
  have r4: "puts L [Put [4]] (h3 @ replicate 27 0, 37) = Inr (h4 @ replicate 26 0, 38)"
    using s3 [of 4 h3 26] by (simp add: h' h4_def)
  have r5: "puts L [Put [x], Skip 1, Skip 24] (h4 @ replicate 26 0, 38) = Inr (h4 @ [x] @ replicate 25 0, 64)" for x
    using s4 [of x h4] by (simp add: h')
  have r1: "puts L (if length tag < 32 then [Put tag, Skip (32 - length tag)] else [Put (take 32 tag)]) (replicate 64 0, 0) =
      Inr (h1 @ replicate 32 0, 32)"
    using s1 by simp
  have img: "header_image L fileType isActive = h4 @ [if isActive then 1 else 0] @ replicate 25 0"
    by (simp only: header_image_def v prod.case c h4_def h3_def h2_def h1_def tag_def append_assoc append.simps)
  show ?thesis
    unfolding MakeHeader_def BufferSTL.simps Let_def available list.size resize_zeros resized_Nil img
    by (simp only: header_positions tag_def [symmetric] v prod.case c bind_sum_simps r1 r2 r3 r4 r5 simp_thms if_True if_False
        less_irrefl zero_less_numeral diff_0_eq_0 add_0 BufferSTL.simps) simp
qed

lemma header_image_at:
  assumes "holds_at buf 0 (header_image L fileType isActive)"
  shows "holds_at buf 0 (resized 32 (str_bytes (version_tag L fileType)))"
    and "holds_at buf 36 [if IsLittleEndian L then 0 else 1]" and "holds_at buf 37 [4]"
    and "holds_at buf 38 [if isActive then 1 else 0]" and "64 \<le> length buf"
proof -
  obtain major minor patch where v: "adios_version L = (major, minor, patch)" by (metis prod_cases3)
  define tag where "tag = resized 32 (str_bytes (version_tag L fileType))"
  have tag: "length tag = 32" by (simp add: tag_def)
  show "holds_at buf 0 (resized 32 (str_bytes (version_tag L fileType)))"
    and "holds_at buf 36 [if IsLittleEndian L then 0 else 1]" and "holds_at buf 37 [4]"
    and "holds_at buf 38 [if isActive then 1 else 0]"
    using assms unfolding header_image_def v prod.case holds_at_append tag_def [symmetric] length_take_dec tag by simp_all
  have "header_image L fileType isActive \<noteq> []" using length_header_image [of L fileType isActive] by (metis list.size(3) zero_neq_numeral)
  then show "64 \<le> length buf" using holds_at_fits [OF assms] by simp
qed

lemma read_index_header_image:
  assumes "holds_at buf 0 (header_image L fileType isActive)"
  shows "read_index_header L R buf =
    Inr (R\<lparr>mf_VersionTag := resized 32 (str_bytes (version_tag L fileType)), mf_IsLittleEndian := IsLittleEndian L,
      mf_HasSubFiles := True, mf_Version := 4, m_WriterIsActive := isActive\<rparr>)"
proof -
  note at = header_image_at [OF assms]
  define tag where "tag = resized 32 (str_bytes (version_tag L fileType))"
  have "mem_read buf 0 32 = Inr tag"
    using at(1,5) by (simp add: mem_read_def holds_at_def tag_def)
  then show ?thesis
    by (simp add: read_index_header_def header_positions read_byte [OF at(2), simplified] read_byte [OF at(3), simplified]
        read_byte [OF at(4), simplified] tag_def)
qed

lemma read_index_record_image:
  assumes "holds_at buf pos (index_record L a (rank, step, ptrs))" and "length ptrs = 5"
  shows "read_index_record L (IsLittleEndian L) buf a pos = Inr ((rank, step, ptrs), pos + 64)"
proof -
  obtain p0 p1 p2 p3 p4 where ptrs: "ptrs = [p0, p1, p2, p3, p4]"
    using assms(2) by (auto simp: numeral_eq_Suc length_Suc_conv)
  have at: "holds_at buf pos (host L 8 (unat step))" "holds_at buf (pos + 8) (host L 8 (unat rank))"
    "holds_at buf (16 + pos) (host L 8 (unat (p0 + a)))" "holds_at buf (24 + pos) (host L 8 (unat (p1 + a)))"
    "holds_at buf (32 + pos) (host L 8 (unat (p2 + a)))" "holds_at buf (40 + pos) (host L 8 (unat (p3 + a)))"
    "holds_at buf (48 + pos) (host L 8 (unat p4))"
    using assms(1) unfolding index_record_def prod.case ptrs holds_at_append by simp_all
  have small: "unat (x :: size_t) mod 256 ^ 8 = unat x" for x
    using unsigned_less [of x, where 'a = nat] by simp
  show ?thesis
    by (simp add: read_index_record_def ptrs small [simplified] read_written [OF at(1), simplified] read_written [OF at(2), simplified]
        read_written [OF at(3), simplified] read_written [OF at(4), simplified] read_written [OF at(5), simplified]
        read_written [OF at(6), simplified] read_written [OF at(7), simplified])
qed

lemma parse_records_image:
  assumes "rs \<noteq> []" and "holds_at buf pos (concat (map (index_record L a) rs))" and "length buf = pos + 64 * length rs"
    and "\<forall>(rank, step, ptrs) \<in> set rs. length ptrs = 5"
  shows "parse_records L (IsLittleEndian L) buf a False t pos = Some (Inr (table_of rs t, length buf))"
  using assms
proof (induction rs arbitrary: pos t)
  case (Cons r rs)
  obtain rank step ptrs where r: "r = (rank, step, ptrs)" by (metis prod_cases3)
  have rd: "read_index_record L (IsLittleEndian L) buf a pos = Inr ((rank, step, ptrs), pos + 64)"
    using Cons.prems by (intro read_index_record_image) (auto simp: r)
  show ?case
  proof (cases "rs = []")
    case True
    then show ?thesis using Cons.prems by (subst parse_records.simps) (simp add: rd r table_of_def)
  next
    case False
    have "parse_records L (IsLittleEndian L) buf a False (table_put rank step ptrs t) (pos + 64) =
        Some (Inr (table_of rs (table_put rank step ptrs t), length buf))"
      using Cons.prems False by (intro Cons.IH) auto
    then show ?thesis
      using Cons.prems False by (subst parse_records.simps) (simp add: rd r table_of_def)
  qed
qed simp

text \<open>The whole index file.\<close>

lemma ParseMetadataIndex_image:
  assumes "rs \<noteq> []" and "\<forall>(rank, step, ptrs) \<in> set rs. length ptrs = 5"
    and "buf = header_image L fileType isActive @ concat (map (index_record L a) rs)"
  shows "ParseMetadataIndex L R \<lparr>m_Buffer = buf, m_Position = p, m_AbsolutePosition = q\<rparr> a True False =
    Some (Inr (R\<lparr>mf_VersionTag := resized 32 (str_bytes (version_tag L fileType)), mf_IsLittleEndian := IsLittleEndian L,
        mf_HasSubFiles := True, mf_Version := 4, m_WriterIsActive := isActive,
        m_MetadataIndexTable := table_of rs (m_MetadataIndexTable R)\<rparr>,
      \<lparr>m_Buffer = buf, m_Position = length buf, m_AbsolutePosition = q\<rparr>))"
proof -
  have len: "length (concat (map (index_record L a) rs)) = 64 * length rs" by (induction rs) simp_all
  have at: "holds_at buf 0 (header_image L fileType isActive)" "holds_at buf 64 (concat (map (index_record L a) rs))"
    using holds_at_prefix [of "[]" "header_image L fileType isActive"]
      holds_at_prefix [of "header_image L fileType isActive" _ "[]"] by (simp_all add: assms(3))
  have "length buf = 64 + 64 * length rs" by (simp add: assms(3) len)
  from parse_records_image [OF assms(1) at(2) this assms(2)] show ?thesis
    by (simp add: ParseMetadataIndex_def read_index_header_image [OF at(1)])
qed

text \<open>A buffer that ends where the flag should be passes the test of \<open>ReadActiveFlag\<close>.\<close>

lemma ReadActiveFlag_image:
  assumes "holds_at buf 0 (header_image L fileType isActive)"
  shows "ReadActiveFlag L R buf = Inr (R\<lparr>m_WriterIsActive := isActive\<rparr>, isActive)"
proof -
  note at = header_image_at(4,5) [OF assms]
  have "ReadValue L (Suc 0) buf 38 little = Inr (unat (if isActive then 1 else 0 :: byte), 39)" for little
    using read_byte [OF at(1)] by simp
  then show ?thesis using at(2) by (simp add: ReadActiveFlag_def header_positions)
qed

end

end
