(* ===== verification/Bp4_Index.thy ===== *)
theory Bp4_Index
  imports Bp4_Base
begin

text \<open>
  The metadata index of a variable (BP4Serializer.tcc): one header per variable and step,
  followed by the characteristics of each block that is put in the step. \<open>PutBoundsRecord\<close>,
  \<open>PutVariableCharacteristics\<close> and \<open>PutVariableMetadataInIndex\<close>.
\<close>

section \<open>Variables, blocks and statistics\<close>

text \<open>
  The members of \<open>core::Variable<T>\<close>, \<open>BPInfo\<close>, \<open>Span\<close>, \<open>Stats<T>\<close> and \<open>SerialElementIndex\<close>
  that the code uses. A value of type \<open>T\<close> is given by its bytes; \<open>type_enum\<close> and \<open>type_size\<close>
  are \<open>TypeTraits<T>::type_enum\<close> and \<open>sizeof(T)\<close>. \<open>Data\<close> is None for a null pointer.
\<close>

record Variable =
  v_Name :: string
  v_SingleValue :: bool
  v_Shape :: "size_t list"
  v_Start :: "size_t list"
  v_Count :: "size_t list"
  type_enum :: byte
  type_size :: nat

record BPInfo =
  bi_Shape :: "size_t list"
  bi_Start :: "size_t list"
  bi_Count :: "size_t list"
  bi_MemoryStart :: "size_t list"
  bi_MemoryCount :: "size_t list"
  bi_Data :: "bytes option"
  bi_Operations :: "string list"

record Span =
  sp_Value :: bytes
  sp_PayloadPosition :: nat
  sp_MinMaxMetadataPositions :: "nat \<times> nat"

record SubBlockInfo =
  sb_Div :: "bytes list"
  sb_SubBlockSize :: size_t
  sb_DivisionMethod :: byte

record Stats =
  st_Step :: "32 word"
  st_FileIndex :: "32 word"
  st_MemberID :: "32 word"
  st_Offset :: size_t
  st_PayloadOffset :: size_t
  st_Value :: bytes
  st_Min :: bytes
  st_Max :: bytes
  st_MinMaxs :: "bytes list"
  st_SubBlockInfo :: SubBlockInfo

record SerialElementIndex =
  ix_Buffer :: bytes
  ix_MemberID :: "32 word"
  ix_Count :: size_t
  ix_CurrentStep :: "32 word"
  ix_CurrentHeaderPosition :: nat
  ix_LastUpdatedPosition :: nat
  ix_Valid :: bool

text \<open>
  \<open>BPSerializer\<close>, which is not part of the repository either: \<open>PutCharacteristicRecord\<close> and
  \<open>PutDimensionsRecord\<close> at the end of a vector and at a position,
  \<open>PutCharacteristicOperation\<close>, and the numbers of the characteristics.
\<close>

record bp_serial =
  PutCharacteristicRecord_end :: "byte \<Rightarrow> bytes \<Rightarrow> bytes \<times> byte \<Rightarrow> bytes \<times> byte"
  PutCharacteristicRecord :: "byte \<Rightarrow> bytes \<Rightarrow> bytes \<times> nat \<times> byte \<Rightarrow> failure + bytes \<times> nat \<times> byte"
  PutDimensionsRecord_end :: "size_t list \<Rightarrow> size_t list \<Rightarrow> size_t list \<Rightarrow> bytes \<Rightarrow> bytes"
  PutDimensionsRecord :: "size_t list \<Rightarrow> size_t list \<Rightarrow> size_t list \<Rightarrow> bytes \<times> nat \<Rightarrow> failure + bytes \<times> nat"
  PutCharacteristicOperation :: "Variable \<Rightarrow> BPInfo \<Rightarrow> bytes \<Rightarrow> bytes"
  characteristic_value :: byte
  characteristic_minmax :: byte
  characteristic_dimensions :: byte
  characteristic_offset :: byte
  characteristic_payload_offset :: byte
  characteristic_time_index :: byte
  characteristic_file_index :: byte
  characteristic_transform_type :: byte

text \<open>The dimensions of a block: one of each per dimension, or no start and shape of a local array.\<close>

definition dims_ok :: "size_t list \<Rightarrow> size_t list \<Rightarrow> size_t list \<Rightarrow> bool" where
  "dims_ok c s t \<longleftrightarrow> t = [] \<or> (length s = length c \<and> length t = length c)"

locale bp_serial_library = bp_library L for L :: bp_lib +
  fixes Z :: bp_serial
  assumes characteristic_end: "PutCharacteristicRecord_end Z i v (buf, n) = (buf @ i # v, n + 1)"
    and characteristic_fits: "pos + 1 + length v \<le> length buf \<Longrightarrow>
      PutCharacteristicRecord Z i v (buf, pos, n) = Inr (overlay buf pos (i # v), pos + 1 + length v, n + 1)"
    and dimensions_end: "\<exists>d. \<forall>buf. PutDimensionsRecord_end Z c s t buf = buf @ d"
    and dimensions_fits: "dims_ok c s t \<Longrightarrow> pos + 27 * length c \<le> length buf \<Longrightarrow>
      \<exists>d. length d = 27 * length c \<and> PutDimensionsRecord Z c s t (buf, pos) = Inr (overlay buf pos d, pos + 27 * length c)"
    and operation_end: "\<exists>d. \<forall>buf. PutCharacteristicOperation Z variable block buf = buf @ d"

section \<open>PutBoundsRecord\<close>

definition inserts :: "bp_lib \<Rightarrow> bytes list \<Rightarrow> bytes \<Rightarrow> bytes" where
  "inserts L xs buf = foldl (InsertToBuffer L) buf xs"

text \<open>The number of sub-blocks, a \<open>uint16_t\<close>, at least 1.\<close>

definition sub_blocks :: "Stats \<Rightarrow> 16 word" where
  "sub_blocks stats = (let M = of_nat (length (st_MinMaxs stats) div 2) in if M = 0 then 1 else M)"

definition PutBoundsRecord_end ::
    "bp_lib \<Rightarrow> bp_serial \<Rightarrow> int \<Rightarrow> bool \<Rightarrow> Stats \<Rightarrow> bytes \<times> byte \<Rightarrow> bytes \<times> byte" where
  "PutBoundsRecord_end L Z StatsLevel singleValue stats bc =
     (if singleValue then PutCharacteristicRecord_end Z (characteristic_value Z) (st_Min stats) bc
      else if StatsLevel > 0 then
        (case bc of (buffer, characteristicsCounter) \<Rightarrow>
          (let M = sub_blocks stats;
               buffer = inserts L [[characteristic_minmax Z], host L 2 (unat M), st_Min stats, st_Max stats] buffer;
               buffer = (if M > 1 then
                   inserts L ([[sb_DivisionMethod (st_SubBlockInfo stats)], host L 8 (unat (sb_SubBlockSize (st_SubBlockInfo stats)))] @
                     sb_Div (st_SubBlockInfo stats) @ st_MinMaxs stats) buffer
                 else buffer)
           in (buffer, characteristicsCounter + 1)))
      else bc)"

definition PutBoundsRecord ::
    "bp_lib \<Rightarrow> bp_serial \<Rightarrow> int \<Rightarrow> bool \<Rightarrow> Stats \<Rightarrow> bytes \<times> nat \<times> byte \<Rightarrow> failure + bytes \<times> nat \<times> byte" where
  "PutBoundsRecord L Z StatsLevel singleValue stats bpc =
     (if singleValue then PutCharacteristicRecord Z (characteristic_value Z) (st_Min stats) bpc
      else if StatsLevel > 0 then
        (case bpc of (buffer, position, characteristicsCounter) \<Rightarrow>
          (let M = sub_blocks stats
           in bind_sum (puts L [Put [characteristic_minmax Z], Put (host L 2 (unat M)), Put (st_Min stats), Put (st_Max stats)]
                (buffer, position)) (\<lambda>bp.
              bind_sum
                (if M > 1 then
                   puts L ([Put [sb_DivisionMethod (st_SubBlockInfo stats)], Put (host L 8 (unat (sb_SubBlockSize (st_SubBlockInfo stats))))] @
                     map Put (sb_Div (st_SubBlockInfo stats)) @ map Put (st_MinMaxs stats)) bp
                 else Inr bp) (\<lambda>(buffer, position).
              Inr (buffer, position, characteristicsCounter + 1)))))
      else Inr bpc)"

section \<open>PutVariableCharacteristics\<close>

text \<open>The count and the length are filled in behind the characteristics.\<close>

definition finish_characteristics :: "bp_lib \<Rightarrow> nat \<Rightarrow> byte \<Rightarrow> bytes \<Rightarrow> failure + bytes" where
  "finish_characteristics L characteristicsCountPosition characteristicsCounter buffer =
     bind_sum (puts L [Put [characteristicsCounter], Put (host L 4 (length buffer - characteristicsCountPosition - 4 - 1))]
       (buffer, characteristicsCountPosition)) (\<lambda>(buffer, _). Inr buffer)"

text \<open>The dimensions: number, length of the record, and the record.\<close>

definition put_dimensions :: "bp_lib \<Rightarrow> bp_serial \<Rightarrow> BPInfo \<Rightarrow> bytes \<times> byte \<Rightarrow> bytes \<times> byte" where
  "put_dimensions L Z blockInfo bc =
     (case bc of (buffer, characteristicsCounter) \<Rightarrow>
       (let dimensions = (of_nat (length (bi_Count blockInfo)) :: byte);
            buffer = inserts L [[characteristic_dimensions Z], [dimensions], host L 2 (24 * unat dimensions)] buffer
        in (PutDimensionsRecord_end Z (bi_Count blockInfo) (bi_Shape blockInfo) (bi_Start blockInfo) buffer,
            characteristicsCounter + 1)))"

definition PutVariableCharacteristics ::
    "bp_lib \<Rightarrow> bp_serial \<Rightarrow> int \<Rightarrow> Variable \<Rightarrow> BPInfo \<Rightarrow> Stats \<Rightarrow> bytes \<Rightarrow> Span option \<Rightarrow> failure + bytes \<times> Span option" where
  "PutVariableCharacteristics L Z StatsLevel variable blockInfo stats buffer span =
     (let characteristicsCountPosition = length buffer;
          bc = (buffer @ replicate 5 0, 0);
          bc = PutCharacteristicRecord_end Z (characteristic_time_index Z) (host L 4 (unat (st_Step stats))) bc;
          bc = PutCharacteristicRecord_end Z (characteristic_file_index Z) (host L 4 (unat (st_FileIndex stats))) bc;
          bc = put_dimensions L Z blockInfo bc;
          has_bounds = (bi_Data blockInfo \<noteq> None \<or> span \<noteq> None);
          span = (if has_bounds \<and> StatsLevel > 0
            then map_option (\<lambda>sp. sp\<lparr>sp_MinMaxMetadataPositions := (length (fst bc), length (fst bc))\<rparr>) span else span);
          bc = (if has_bounds then PutBoundsRecord_end L Z StatsLevel (v_SingleValue variable) stats bc else bc);
          bc = PutCharacteristicRecord_end Z (characteristic_offset Z) (host L 8 (unat (st_Offset stats))) bc;
          bc = PutCharacteristicRecord_end Z (characteristic_payload_offset Z) (host L 8 (unat (st_PayloadOffset stats))) bc;
          bc = (if bi_Operations blockInfo \<noteq> [] \<and> \<not> (\<forall>i \<in> set (bi_Count blockInfo). i = 0)
            then (case bc of (buffer, characteristicsCounter) \<Rightarrow>
              (PutCharacteristicOperation Z variable blockInfo (inserts L [[characteristic_transform_type Z]] buffer),
               characteristicsCounter + 1))
            else bc)
      in bind_sum (finish_characteristics L characteristicsCountPosition (snd bc) (fst bc)) (\<lambda>buffer. Inr (buffer, span)))"

text \<open>The specialization for strings, whose block has one string.\<close>

definition PutVariableCharacteristics_string ::
    "bp_lib \<Rightarrow> bp_serial \<Rightarrow> Variable \<Rightarrow> BPInfo \<Rightarrow> Stats \<Rightarrow> bytes \<Rightarrow> failure + bytes" where
  "PutVariableCharacteristics_string L Z variable blockInfo stats buffer =
     (let characteristicsCountPosition = length buffer;
          bc = (buffer @ replicate 5 0, 0);
          bc = PutCharacteristicRecord_end Z (characteristic_time_index Z) (host L 4 (unat (st_Step stats))) bc;
          bc = PutCharacteristicRecord_end Z (characteristic_file_index Z) (host L 4 (unat (st_FileIndex stats))) bc
      in (case bi_Data blockInfo of
            None \<Rightarrow> Inl (Crash Null_deref)
          | Some d \<Rightarrow>
              (let bc = (PutNameRecord_end L (bytes_str d) (inserts L [[characteristic_value Z]] (fst bc)), snd bc + 1);
                   bc = put_dimensions L Z blockInfo bc;
                   bc = PutCharacteristicRecord_end Z (characteristic_offset Z) (host L 8 (unat (st_Offset stats))) bc;
                   bc = PutCharacteristicRecord_end Z (characteristic_payload_offset Z) (host L 8 (unat (st_PayloadOffset stats))) bc
               in finish_characteristics L characteristicsCountPosition (snd bc) (fst bc))))"

section \<open>PutVariableMetadataInIndex\<close>

text \<open>The template calls \<open>PutVariableCharacteristics\<close> of its type, here the argument \<open>chars\<close>.\<close>

definition put_in_index ::
    "bp_lib \<Rightarrow> (bytes \<Rightarrow> failure + bytes \<times> Span option) \<Rightarrow> Variable \<Rightarrow> Stats \<Rightarrow> SerialElementIndex \<Rightarrow>
       failure + SerialElementIndex \<times> Span option" where
  "put_in_index L chars variable stats index =
     (let buffer = ix_Buffer index
      in if ix_CurrentStep index \<noteq> st_Step stats then
           (let indexLengthPosition = length buffer;
                headerPosition = length buffer;
                buffer = buffer @ replicate 4 0;
                buffer = inserts L [host L 4 (unat (st_MemberID stats))] buffer;
                buffer = buffer @ replicate 2 0;
                buffer = PutNameRecord_end L (v_Name variable) buffer;
                buffer = buffer @ [of_char CHR ''K''];
                buffer = buffer @ [0];
                buffer = inserts L [[type_enum variable], host L 8 1] buffer;
                lastUpdated = length buffer
            in bind_sum (chars buffer) (\<lambda>(buffer, span).
               bind_sum (CopyToBuffer L buffer indexLengthPosition (host L 4 (length buffer - indexLengthPosition - 4))) (\<lambda>(buffer, _).
                 Inr (index\<lparr>ix_Buffer := buffer, ix_Count := 1, ix_CurrentHeaderPosition := headerPosition,
                   ix_LastUpdatedPosition := lastUpdated, ix_CurrentStep := st_Step stats\<rparr>, span))))
         else
           (let currentIndexStartPosition = length buffer
            in bind_sum (chars buffer) (\<lambda>(buffer, span).
               (let currentIndexLength = (of_nat (length buffer - currentIndexStartPosition) :: 32 word)
                in bind_sum (ReadValue L 4 buffer (ix_CurrentHeaderPosition index) (IsLittleEndian L)) (\<lambda>(preIndexLength, _).
                   (let newIndexLength = of_nat preIndexLength + currentIndexLength
                    in bind_sum (CopyToBuffer L buffer (ix_CurrentHeaderPosition index) (host L 4 (unat newIndexLength))) (\<lambda>(buffer, _).
                       (let newCount = ix_Count index + 1;
                            setsCountPosition = ix_CurrentHeaderPosition index + 15 + length (v_Name variable)
                        in bind_sum (CopyToBuffer L buffer setsCountPosition (host L 8 (unat newCount))) (\<lambda>(buffer, _).
                             Inr (index\<lparr>ix_Buffer := buffer, ix_Count := newCount\<rparr>, span))))))))))"

definition PutVariableMetadataInIndex ::
    "bp_lib \<Rightarrow> bp_serial \<Rightarrow> int \<Rightarrow> Variable \<Rightarrow> BPInfo \<Rightarrow> Stats \<Rightarrow> SerialElementIndex \<Rightarrow> Span option \<Rightarrow>
       failure + SerialElementIndex \<times> Span option" where
  "PutVariableMetadataInIndex L Z StatsLevel variable blockInfo stats index span =
     put_in_index L (\<lambda>buffer. PutVariableCharacteristics L Z StatsLevel variable blockInfo stats buffer span) variable stats index"

definition PutVariableMetadataInIndex_string ::
    "bp_lib \<Rightarrow> bp_serial \<Rightarrow> Variable \<Rightarrow> BPInfo \<Rightarrow> Stats \<Rightarrow> SerialElementIndex \<Rightarrow> Span option \<Rightarrow>
       failure + SerialElementIndex \<times> Span option" where
  "PutVariableMetadataInIndex_string L Z variable blockInfo stats index span =
     put_in_index L (\<lambda>buffer. bind_sum (PutVariableCharacteristics_string L Z variable blockInfo stats buffer)
       (\<lambda>buffer. Inr (buffer, span))) variable stats index"

section \<open>The structure of an index\<close>

text \<open>
  A block of characteristics is a count, the length of what follows, and that; an entry of the
  index is the header of the variable and the blocks of its step.
\<close>

definition characteristics_block :: "bp_lib \<Rightarrow> byte \<Rightarrow> bytes \<Rightarrow> bytes" where
  "characteristics_block L n body = [n] @ host L 4 (length body) @ body"

definition entry_header :: "Variable \<Rightarrow> 32 word \<Rightarrow> nat \<Rightarrow> nat \<Rightarrow> ElementIndexHeader" where
  "entry_header variable member len sets =
     \<lparr>eh_Length = len, eh_MemberID = unat member, eh_GroupName = [], eh_Name = v_Name variable, eh_Path = [],
      eh_Order = of_char CHR ''K'', eh_DataType = type_enum variable, eh_CharacteristicsSetsCount = sets\<rparr>"

definition index_entry :: "bp_lib \<Rightarrow> Variable \<Rightarrow> 32 word \<Rightarrow> bytes list \<Rightarrow> bytes" where
  "index_entry L variable member blocks =
     element_header L (entry_header variable member (19 + length (v_Name variable) + length (concat blocks)) (length blocks)) @
     concat blocks"

lemma length_index_entry [simp]:
  "length (index_entry L variable member blocks) = 23 + length (v_Name variable) + length (concat blocks)"
  by (simp add: index_entry_def entry_header_def)

text \<open>The index of a variable: entries of earlier steps, and at \<open>CurrentHeaderPosition\<close> the one of its step.\<close>

definition index_ok :: "bp_lib \<Rightarrow> Variable \<Rightarrow> 32 word \<Rightarrow> bytes \<Rightarrow> bytes list \<Rightarrow> SerialElementIndex \<Rightarrow> bool" where
  "index_ok L variable member old blocks index \<longleftrightarrow>
     ix_Buffer index = old @ index_entry L variable member blocks \<and> ix_CurrentHeaderPosition index = length old \<and>
     ix_Count index = of_nat (length blocks)"

text \<open>The bytes of the header between its length and its count.\<close>

definition header_middle :: "bp_lib \<Rightarrow> Variable \<Rightarrow> 32 word \<Rightarrow> bytes" where
  "header_middle L variable member =
     host L 4 (unat member) @ name_record L [] @ name_record L (v_Name variable) @ [of_char CHR ''K''] @ [0] @ [type_enum variable]"

lemma length_header_middle [simp]: "length (header_middle L variable member) = 11 + length (v_Name variable)"
  by (simp add: header_middle_def)

lemma entry_header_parts:
  "element_header L (entry_header variable member len sets) = host L 4 len @ header_middle L variable member @ host L 8 sets"
  by (simp add: element_header_def entry_header_def header_middle_def)

text \<open>How many characteristics a block has.\<close>

definition has_bounds :: "int \<Rightarrow> Variable \<Rightarrow> BPInfo \<Rightarrow> Span option \<Rightarrow> bool" where
  "has_bounds StatsLevel variable blockInfo span \<longleftrightarrow>
     (bi_Data blockInfo \<noteq> None \<or> span \<noteq> None) \<and> (v_SingleValue variable \<or> StatsLevel > 0)"

definition has_operation :: "BPInfo \<Rightarrow> bool" where
  "has_operation blockInfo \<longleftrightarrow> bi_Operations blockInfo \<noteq> [] \<and> (\<exists>i \<in> set (bi_Count blockInfo). i \<noteq> 0)"

definition characteristics_count :: "int \<Rightarrow> Variable \<Rightarrow> BPInfo \<Rightarrow> Span option \<Rightarrow> nat" where
  "characteristics_count StatsLevel variable blockInfo span =
     5 + of_bool (has_bounds StatsLevel variable blockInfo span) + of_bool (has_operation blockInfo)"

text \<open>The characteristics of a block start with the time step.\<close>

definition step_body :: "bp_lib \<Rightarrow> bp_serial \<Rightarrow> 32 word \<Rightarrow> bytes \<Rightarrow> bytes" where
  "step_body L Z step rest = characteristic_time_index Z # host L 4 (unat step) @ rest"

text \<open>The characteristics that say where a block lies in the data: its record and its payload.\<close>

definition points_to :: "bp_lib \<Rightarrow> bp_serial \<Rightarrow> size_t \<Rightarrow> size_t \<Rightarrow> bytes \<Rightarrow> bool" where
  "points_to L Z offset payloadOffset body \<longleftrightarrow>
     (\<exists>pre post. body = pre @ (characteristic_offset Z # host L 8 (unat offset)) @
       (characteristic_payload_offset Z # host L 8 (unat payloadOffset)) @ post)"

lemma points_to_append: "points_to L Z o1 o2 body \<Longrightarrow> points_to L Z o1 o2 (xs @ body)"
  unfolding points_to_def by (metis append_assoc)

context bp_serial_library
begin

lemma inserts_append: "inserts L xs buf = buf @ concat xs"
  unfolding inserts_def by (induction xs arbitrary: buf) (simp_all add: insert_end)

text \<open>Every one of the operations appends, and counts what it appends.\<close>

definition appends :: "nat \<Rightarrow> (bytes \<times> byte \<Rightarrow> bytes \<times> byte) \<Rightarrow> bool" where
  "appends k f \<longleftrightarrow> (\<exists>d. \<forall>buf n. f (buf, n) = (buf @ d, n + of_nat k))"

lemma appends_comp: "appends j f \<Longrightarrow> appends k g \<Longrightarrow> appends (j + k) (\<lambda>bc. g (f bc))"
  unfolding appends_def by (elim exE) (rule exI, simp add: add.assoc)

lemma appends_id: "appends 0 (\<lambda>bc. bc)"
  by (simp add: appends_def)

lemma appends_characteristic: "appends 1 (PutCharacteristicRecord_end Z i v)"
  by (auto simp: appends_def characteristic_end)

lemma appends_dimensions: "appends 1 (put_dimensions L Z b)"
proof -
  obtain d where "\<And>buf. PutDimensionsRecord_end Z (bi_Count b) (bi_Shape b) (bi_Start b) buf = buf @ d"
    using dimensions_end by metis
  then show ?thesis by (auto simp: appends_def put_dimensions_def inserts_append Let_def)
qed

lemma appends_bounds:
  "appends (if single \<or> StatsLevel > 0 then 1 else 0) (PutBoundsRecord_end L Z StatsLevel single stats)"
  by (auto simp: appends_def PutBoundsRecord_end_def characteristic_end inserts_append Let_def)

lemma finish_block:
  "finish_characteristics L (length buf) n (buf @ replicate 5 0 @ body) = Inr (buf @ characteristics_block L n body)"
  using puts_fits [of "length buf" "[Put [n], Put (host L 4 (length body))]" "buf @ replicate 5 0 @ body"]
  by (simp add: finish_characteristics_def characteristics_block_def overlay_def)

lemma appends_operation:
  "appends (of_bool (has_operation b))
     (\<lambda>bc. if bi_Operations b \<noteq> [] \<and> \<not> (\<forall>i \<in> set (bi_Count b). i = 0)
       then (case bc of (buffer, n) \<Rightarrow>
         (PutCharacteristicOperation Z variable b (inserts L [[characteristic_transform_type Z]] buffer), n + 1))
       else bc)"
proof -
  obtain d where "\<And>buf. PutCharacteristicOperation Z variable b buf = buf @ d"
    using operation_end by metis
  then show ?thesis by (auto simp: appends_def has_operation_def inserts_append)
qed

text \<open>The block of a call: how many characteristics, and that they point to the data.\<close>

definition block_of :: "Stats \<Rightarrow> nat \<Rightarrow> bytes \<Rightarrow> bytes \<Rightarrow> bool" where
  "block_of stats n body block \<longleftrightarrow> block = characteristics_block L (of_nat n) (step_body L Z (st_Step stats) body) \<and>
     points_to L Z (st_Offset stats) (st_PayloadOffset stats) body"

lemma PutVariableCharacteristics_block:
  "\<exists>body block. block_of stats (characteristics_count StatsLevel variable b span) body block \<and>
     (\<forall>buf. \<exists>span'. PutVariableCharacteristics L Z StatsLevel variable b stats buf span = Inr (buf @ block, span'))"
proof -
  let ?bounds = "\<lambda>bc. if bi_Data b \<noteq> None \<or> span \<noteq> None
    then PutBoundsRecord_end L Z StatsLevel (v_SingleValue variable) stats bc else bc"
  let ?op = "\<lambda>bc. if bi_Operations b \<noteq> [] \<and> \<not> (\<forall>i \<in> set (bi_Count b). i = 0)
    then (case bc of (buffer, n) \<Rightarrow>
      (PutCharacteristicOperation Z variable b (inserts L [[characteristic_transform_type Z]] buffer), n + 1)) else bc"
  let ?pcr = "\<lambda>i v. PutCharacteristicRecord_end Z i v"
  let ?off = "characteristic_offset Z # host L 8 (unat (st_Offset stats))"
  let ?poff = "characteristic_payload_offset Z # host L 8 (unat (st_PayloadOffset stats))"
  define f where "f = (\<lambda>bc. ?bounds (put_dimensions L Z b (?pcr (characteristic_file_index Z) (host L 4 (unat (st_FileIndex stats))) bc)))"
  define first where "first = ?pcr (characteristic_time_index Z) (host L 4 (unat (st_Step stats)))"
  define all where "all = (\<lambda>bc. ?op (?pcr (characteristic_payload_offset Z) (host L 8 (unat (st_PayloadOffset stats)))
    (?pcr (characteristic_offset Z) (host L 8 (unat (st_Offset stats))) (f bc))))"
  have bounds: "appends (of_bool (has_bounds StatsLevel variable b span)) ?bounds"
    using appends_bounds [of "v_SingleValue variable" StatsLevel stats] appends_id
    by (cases "bi_Data b \<noteq> None \<or> span \<noteq> None") (simp_all add: has_bounds_def of_bool_def)
  have "appends (1 + 1 + of_bool (has_bounds StatsLevel variable b span)) f"
    unfolding f_def by (rule appends_comp [OF appends_comp [OF appends_characteristic appends_dimensions] bounds])
  then obtain d where d: "\<And>buf n. f (buf, n) = (buf @ d, n + of_nat (1 + 1 + of_bool (has_bounds StatsLevel variable b span)))"
    unfolding appends_def by blast
  obtain post where post: "\<And>buf (n :: byte). ?op (buf, n) = (buf @ post, n + of_nat (of_bool (has_operation b)))"
    using appends_operation [of b variable] unfolding appends_def by (elim exE) (rule that, elim allE, assumption)
  define body where "body = d @ ?off @ ?poff @ post"
  have count: "(1 :: byte) + of_nat (1 + 1 + of_bool (has_bounds StatsLevel variable b span)) + 1 + 1 + of_nat (of_bool (has_operation b)) =
      of_nat (characteristics_count StatsLevel variable b span)"
    by (simp add: characteristics_count_def)
  have run: "all (first (buf @ replicate 5 0, 0)) = (buf @ replicate 5 0 @ step_body L Z (st_Step stats) body,
      of_nat (characteristics_count StatsLevel variable b span))" for buf
    unfolding all_def first_def characteristic_end d post add_0 count by (simp add: step_body_def body_def)
  have raw: "\<exists>span'. PutVariableCharacteristics L Z StatsLevel variable b stats buf span =
      bind_sum (finish_characteristics L (length buf) (snd (all (first (buf @ replicate 5 0, 0)))) (fst (all (first (buf @ replicate 5 0, 0)))))
        (\<lambda>buffer. Inr (buffer, span'))" for buf
    unfolding PutVariableCharacteristics_def Let_def all_def f_def first_def by (rule exI, rule refl)
  define block where "block = characteristics_block L (of_nat (characteristics_count StatsLevel variable b span)) (step_body L Z (st_Step stats) body)"
  have "\<exists>span'. PutVariableCharacteristics L Z StatsLevel variable b stats buf span = Inr (buf @ block, span')" for buf
    using raw [of buf] finish_block [of buf _ "step_body L Z (st_Step stats) body"] by (simp add: run block_def)
  moreover have "block_of stats (characteristics_count StatsLevel variable b span) body block"
    unfolding block_of_def points_to_def block_def body_def by blast
  ultimately show ?thesis by blast
qed

text \<open>The specialization for strings: the value in the place of the bounds, and no operation.\<close>

lemma PutVariableCharacteristics_string_block:
  assumes "bi_Data b = Some str"
  shows "\<exists>body block. block_of stats 6 body block \<and>
     (\<forall>buf. PutVariableCharacteristics_string L Z variable b stats buf = Inr (buf @ block))"
proof -
  let ?off = "characteristic_offset Z # host L 8 (unat (st_Offset stats))"
  let ?poff = "characteristic_payload_offset Z # host L 8 (unat (st_PayloadOffset stats))"
  obtain d where d: "\<And>buf n. put_dimensions L Z b (buf, n) = (buf @ d, n + 1)"
    using appends_dimensions [of b] unfolding appends_def by auto
  define body where "body = (characteristic_file_index Z # host L 4 (unat (st_FileIndex stats))) @
    [characteristic_value Z] @ name_record L (bytes_str str) @ d @ ?off @ ?poff"
  define block where "block = characteristics_block L (of_nat 6) (step_body L Z (st_Step stats) body)"
  have "PutVariableCharacteristics_string L Z variable b stats buf = Inr (buf @ block)" for buf
    using finish_block [of buf 6 "step_body L Z (st_Step stats) body"]
    by (simp add: PutVariableCharacteristics_string_def assms characteristic_end d inserts_append name_end Let_def
        step_body_def body_def block_def)
  moreover have "block_of stats 6 body block"
    unfolding block_of_def points_to_def block_def body_def by (intro conjI refl exI [of _ "[]"] exI) simp_all
  ultimately show ?thesis by blast
qed

text \<open>The first block of a step: a new entry behind the old ones.\<close>

lemma put_in_index_new:
  assumes "ix_CurrentStep index \<noteq> st_Step stats"
    and chars: "\<And>buf. \<exists>span'. chars buf = Inr (buf @ block, span')"
  shows "\<exists>index' span'. put_in_index L chars variable stats index = Inr (index', span') \<and>
    index_ok L variable (st_MemberID stats) (ix_Buffer index) [block] index' \<and> ix_CurrentStep index' = st_Step stats \<and>
    ix_MemberID index' = ix_MemberID index \<and> ix_Valid index' = ix_Valid index"
proof -
  let ?buf = "ix_Buffer index" and ?mid = "header_middle L variable (st_MemberID stats)"
  have head: "inserts L [[type_enum variable], host L 8 1] ((PutNameRecord_end L (v_Name variable)
      (inserts L [host L 4 (unat (st_MemberID stats))] (?buf @ replicate 4 0) @ replicate 2 0) @ [of_char CHR ''K'']) @ [0]) =
      ?buf @ replicate 4 0 @ ?mid @ host L 8 1"
    by (simp add: inserts_append name_end header_middle_def name_record_def str_bytes_def)
  obtain span' where chars: "chars (?buf @ replicate 4 0 @ ?mid @ host L 8 1) =
      Inr (?buf @ replicate 4 0 @ ?mid @ host L 8 1 @ block, span')"
    using chars [of "?buf @ replicate 4 0 @ ?mid @ host L 8 1"] by auto
  let ?len = "19 + length (v_Name variable) + length block"
  have len: "length (?buf @ replicate 4 0 @ ?mid @ host L 8 1 @ block) - length ?buf - 4 = ?len" by simp
  have copy: "CopyToBuffer L (?buf @ replicate 4 0 @ ?mid @ host L 8 1 @ block) (length ?buf) (host L 4 ?len) =
      Inr (?buf @ host L 4 ?len @ ?mid @ host L 8 1 @ block, length ?buf + 4)"
    by (simp add: copy_fits overlay_middle)
  show ?thesis
    unfolding put_in_index_def Let_def head chars bind_sum_simps prod.case len copy
    using assms(1) by (fastforce simp: index_ok_def index_entry_def entry_header_parts)
qed

text \<open>A further block of the step: the length and the count of the header follow.\<close>

lemma put_in_index_more:
  assumes "ix_CurrentStep index = st_Step stats" and ok: "index_ok L variable member old blocks index"
    and chars: "\<And>buf. \<exists>span'. chars buf = Inr (buf @ block, span')"
  shows "\<exists>index' span'. put_in_index L chars variable stats index = Inr (index', span') \<and>
    index_ok L variable member old (blocks @ [block]) index' \<and> ix_CurrentStep index' = st_Step stats \<and>
    ix_MemberID index' = ix_MemberID index \<and> ix_Valid index' = ix_Valid index"
proof -
  let ?n = "length (v_Name variable)"
  let ?mid = "header_middle L variable member" and ?buf = "ix_Buffer index" and ?h = "ix_CurrentHeaderPosition index"
  define len where "len = 19 + ?n + length (concat blocks)"
  define sets where "sets = length blocks"
  have buf: "?buf = old @ host L 4 len @ ?mid @ host L 8 sets @ concat blocks" and h: "?h = length old"
    and count: "ix_Count index = of_nat sets"
    using ok by (simp_all add: index_ok_def index_entry_def entry_header_parts len_def sets_def)
  obtain span' where chars: "chars ?buf = Inr (?buf @ block, span')"
    using chars [of ?buf] by auto
  have cur: "length (?buf @ block) - length ?buf = length block" by simp
  have "holds_at (?buf @ block) ?h (host L 4 len)"
    using holds_at_prefix [of old "host L 4 len" "?mid @ host L 8 sets @ concat blocks @ block"] by (simp add: buf h)
  from read_written [OF this]
  have rd: "ReadValue L 4 (?buf @ block) ?h (IsLittleEndian L) = Inr (len mod 256 ^ 4, ?h + 4)" by simp
  have new: "host L 4 (unat (of_nat (len mod 256 ^ 4) + of_nat (length block) :: 32 word)) = host L 4 (len + length block)"
  proof -
    have "(of_nat (len mod 256 ^ 4) :: 32 word) = of_nat len"
      by (simp add: word_unat_eq_iff unat_of_nat)
    then show ?thesis by (simp flip: of_nat_add add: host_4_of_nat)
  qed
  have copy: "CopyToBuffer L (?buf @ block) ?h (host L 4 (len + length block)) =
      Inr (old @ host L 4 (len + length block) @ ?mid @ host L 8 sets @ concat blocks @ block, ?h + 4)"
    using copy_fits [of ?h "host L 4 (len + length block)" "?buf @ block"]
      overlay_middle [of "host L 4 (len + length block)" "host L 4 len" ?h old "?mid @ host L 8 sets @ concat blocks @ block"]
    by (simp add: buf h)
  have cnt: "host L 8 (unat (ix_Count index + 1)) = host L 8 (Suc sets)"
    using host_8_of_nat [of L "Suc sets"] by (simp add: count add.commute)
  let ?head = "old @ host L 4 (len + length block) @ ?mid"
  have copy2: "CopyToBuffer L (?head @ host L 8 sets @ concat blocks @ block) (?h + 15 + ?n) (host L 8 (Suc sets)) =
      Inr (?head @ host L 8 (Suc sets) @ concat blocks @ block, ?h + 15 + ?n + 8)"
    using copy_fits [of "?h + 15 + ?n" "host L 8 (Suc sets)" "?head @ host L 8 sets @ concat blocks @ block"]
      overlay_middle [of "host L 8 (Suc sets)" "host L 8 sets" "?h + 15 + ?n" ?head "concat blocks @ block"]
    by (simp add: h)
  let ?index' = "index\<lparr>ix_Buffer := ?head @ host L 8 (Suc sets) @ concat blocks @ block, ix_Count := ix_Count index + 1\<rparr>"
  have copy2': "CopyToBuffer L (old @ host L 4 (len + length block) @ ?mid @ host L 8 sets @ concat blocks @ block)
      (?h + 15 + ?n) (host L 8 (Suc sets)) = Inr (?head @ host L 8 (Suc sets) @ concat blocks @ block, ?h + 15 + ?n + 8)"
    using copy2 by simp
  have "put_in_index L chars variable stats index = Inr (?index', span')"
    unfolding put_in_index_def Let_def chars bind_sum_simps prod.case cur rd new copy cnt copy2'
    using assms(1) by simp
  moreover have "index_ok L variable member old (blocks @ [block]) ?index'"
    by (simp add: index_ok_def index_entry_def entry_header_parts len_def sets_def count h add.assoc add.commute [of 1])
  ultimately show ?thesis using assms(1) by fastforce
qed

lemma PutVariableMetadataInIndex_new:
  assumes "ix_CurrentStep index \<noteq> st_Step stats"
  shows "\<exists>body index' span'. PutVariableMetadataInIndex L Z StatsLevel variable b stats index span = Inr (index', span') \<and>
    index_ok L variable (st_MemberID stats) (ix_Buffer index)
      [characteristics_block L (of_nat (characteristics_count StatsLevel variable b span)) (step_body L Z (st_Step stats) body)] index' \<and>
    ix_CurrentStep index' = st_Step stats"
  using PutVariableCharacteristics_block [of stats StatsLevel variable b span] put_in_index_new [OF assms]
  unfolding PutVariableMetadataInIndex_def block_of_def by meson

lemma PutVariableMetadataInIndex_more:
  assumes "ix_CurrentStep index = st_Step stats" and "index_ok L variable member old blocks index"
  shows "\<exists>body index' span'. PutVariableMetadataInIndex L Z StatsLevel variable b stats index span = Inr (index', span') \<and>
    index_ok L variable member old
      (blocks @ [characteristics_block L (of_nat (characteristics_count StatsLevel variable b span)) body]) index' \<and>
    ix_CurrentStep index' = st_Step stats"
  using PutVariableCharacteristics_block [of stats StatsLevel variable b span] put_in_index_more [OF assms]
  unfolding PutVariableMetadataInIndex_def block_of_def by meson

end

section \<open>All blocks of a step\<close>

text \<open>The blocks that are put one after the other.\<close>

fun put_blocks ::
    "bp_lib \<Rightarrow> bp_serial \<Rightarrow> int \<Rightarrow> Variable \<Rightarrow> (BPInfo \<times> Stats \<times> Span option) list \<Rightarrow> SerialElementIndex \<Rightarrow>
       failure + SerialElementIndex" where
  "put_blocks L Z StatsLevel variable [] index = Inr index"
| "put_blocks L Z StatsLevel variable ((b, stats, span) # ps) index =
     bind_sum (PutVariableMetadataInIndex L Z StatsLevel variable b stats index span) (\<lambda>(index, _).
       put_blocks L Z StatsLevel variable ps index)"

context bp_serial_library
begin

lemma put_blocks_more:
  assumes "\<forall>(b, stats, span) \<in> set ps. st_Step stats = step" and "ix_CurrentStep index = step"
    and "index_ok L variable member old blocks index"
  shows "\<exists>new index'. put_blocks L Z StatsLevel variable ps index = Inr index' \<and> length new = length ps \<and>
    index_ok L variable member old (blocks @ new) index'"
  using assms
proof (induction ps arbitrary: index blocks)
  case (Cons p ps)
  obtain b stats span where p: "p = (b, stats, span)" by (metis prod_cases3)
  have step: "ix_CurrentStep index = st_Step stats" using Cons.prems p by auto
  obtain body index' span' where put: "PutVariableMetadataInIndex L Z StatsLevel variable b stats index span = Inr (index', span')"
    and ok: "index_ok L variable member old
      (blocks @ [characteristics_block L (of_nat (characteristics_count StatsLevel variable b span)) body]) index'"
    and step': "ix_CurrentStep index' = step"
    using PutVariableMetadataInIndex_more [OF step Cons.prems(3), of StatsLevel b span] Cons.prems(2) step by metis
  have "\<forall>(b, stats, span) \<in> set ps. st_Step stats = step" using Cons.prems(1) by simp
  from Cons.IH [OF this step' ok] obtain new index'' where "put_blocks L Z StatsLevel variable ps index' = Inr index''"
    "length new = length ps" "index_ok L variable member old
      ((blocks @ [characteristics_block L (of_nat (characteristics_count StatsLevel variable b span)) body]) @ new) index''"
    by blast
  then show ?case
    by (intro exI [of _ "characteristics_block L (of_nat (characteristics_count StatsLevel variable b span)) body # new"]
        exI [of _ index'']) (simp add: p put)
qed (use assms in auto)

lemma put_blocks_entry:
  assumes "ps \<noteq> []" and "\<forall>(b, stats, span) \<in> set ps. st_Step stats = step \<and> st_MemberID stats = member"
    and "ix_CurrentStep index \<noteq> step"
  shows "\<exists>blocks index' n rest. put_blocks L Z StatsLevel variable ps index = Inr index' \<and> length blocks = length ps \<and>
    index_ok L variable member (ix_Buffer index) blocks index' \<and> hd blocks = characteristics_block L n (step_body L Z step rest)"
proof -
  obtain b stats span qs where ps: "ps = (b, stats, span) # qs" using assms(1) by (metis neq_Nil_conv prod_cases3)
  have new: "ix_CurrentStep index \<noteq> st_Step stats" and m: "st_MemberID stats = member" "st_Step stats = step"
    using assms(2,3) ps by auto
  let ?n = "of_nat (characteristics_count StatsLevel variable b span)"
  obtain body index' span' where put: "PutVariableMetadataInIndex L Z StatsLevel variable b stats index span = Inr (index', span')"
    and ok: "index_ok L variable member (ix_Buffer index) [characteristics_block L ?n (step_body L Z step body)] index'"
    and step': "ix_CurrentStep index' = step"
    using PutVariableMetadataInIndex_new [OF new, of StatsLevel variable b span] m by metis
  have "\<forall>(b, stats, span) \<in> set qs. st_Step stats = step" using assms(2) ps by auto
  from put_blocks_more [OF this step' ok, of StatsLevel] obtain new index'' where
    "put_blocks L Z StatsLevel variable qs index' = Inr index''" "length new = length qs"
    "index_ok L variable member (ix_Buffer index) ([characteristics_block L ?n (step_body L Z step body)] @ new) index''" by blast
  then show ?thesis
    by (intro exI [of _ "[characteristics_block L ?n (step_body L Z step body)] @ new"] exI [of _ index''] exI [of _ ?n] exI [of _ body])
      (simp add: ps put)
qed

text \<open>The entry is as long as its header says, and has as many blocks.\<close>

lemma read_entry:
  assumes "holds_at buf pos (index_entry L variable member blocks)"
    and "length (index_entry L variable member blocks) < 2 ^ 32" and "length (v_Name variable) < 2 ^ 16" and "length blocks < 2 ^ 64"
  shows "\<exists>h. ReadElementIndexHeader L buf pos (IsLittleEndian L) = Inr (h, pos + 23 + length (v_Name variable)) \<and>
    eh_Name h = v_Name variable \<and> eh_Length h + 4 = length (index_entry L variable member blocks) \<and>
    eh_CharacteristicsSetsCount h = length blocks \<and> eh_MemberID h = unat member \<and> eh_DataType h = type_enum variable"
proof -
  let ?h = "entry_header variable member (19 + length (v_Name variable) + length (concat blocks)) (length blocks)"
  have "header_ok ?h"
    using assms(2-4) unsigned_less [of member, where 'a = nat] by (simp add: header_ok_def entry_header_def)
  moreover have "holds_at buf pos (element_header L ?h)" using assms(1) by (simp add: index_entry_def)
  ultimately have "ReadElementIndexHeader L buf pos (IsLittleEndian L) = Inr (?h, pos + length (element_header L ?h))"
    by (rule read_header [rotated])
  then show ?thesis by (intro exI [of _ ?h]) (simp add: entry_header_def)
qed

end

section \<open>A reference instance\<close>

definition ref_dimension :: "size_t list \<Rightarrow> size_t list \<Rightarrow> size_t list \<Rightarrow> bytes" where
  "ref_dimension c s t = concat (map (\<lambda>x. num_bytes True 8 (unat x)) (c @ s @ t))"

definition ref_serial :: bp_serial where
  "ref_serial =
     \<lparr>PutCharacteristicRecord_end = (\<lambda>i v (buf, n). (buf @ i # v, n + 1)),
      PutCharacteristicRecord = (\<lambda>i v (buf, pos, n). bind_sum (ref_copy buf pos (i # v)) (\<lambda>(buf, pos). Inr (buf, pos, n + 1))),
      PutDimensionsRecord_end = (\<lambda>c s t buf. buf @ ref_dimension c s t),
      PutDimensionsRecord = (\<lambda>c s t (buf, pos). ref_copy buf pos (replicate (27 * length c) 0)),
      PutCharacteristicOperation = (\<lambda>_ b buf. buf @ [of_nat (length (bi_Operations b))]),
      characteristic_value = 0, characteristic_minmax = 12, characteristic_dimensions = 4, characteristic_offset = 3,
      characteristic_payload_offset = 6, characteristic_time_index = 8, characteristic_file_index = 7,
      characteristic_transform_type = 11\<rparr>"

interpretation ref_serial: bp_serial_library ref_bp ref_serial
proof
  show "\<exists>d. length d = 27 * length c \<and> PutDimensionsRecord ref_serial c s t (buf, pos) = Inr (overlay buf pos d, pos + 27 * length c)"
    if "pos + 27 * length c \<le> length buf" for c s t buf pos
    using that by (intro exI [of _ "replicate (27 * length c) 0"]) (simp add: ref_serial_def ref_copy_def mem_write_def)
qed (auto simp: ref_serial_def ref_copy_def mem_write_def)

end
