(* ===== verification/Bp4_Group.thy ===== *)
theory Bp4_Group
  imports Bp4_Header Bp4_Index
begin

text \<open>
  The process group of a step in the data buffer and its index (BP4Serializer.cpp):
  \<open>PutProcessGroupIndex\<close> opens a group, \<open>SerializeDataBuffer\<close> fills in its lengths and closes
  it, \<open>SerializeMetadataInData\<close> appends the indices to the data, \<open>CloseData\<close> and
  \<open>CloseStream\<close> do both, \<open>ResetAllIndices\<close> empties the metadata.
\<close>

section \<open>The state of the serializer\<close>

text \<open>
  \<open>MetadataSet\<close> and the members of the serializer. An \<open>unordered_map\<close> of indices is the list
  of its pairs in the order in which it is iterated.
\<close>

record MetadataSet =
  ms_PGIndex_Buffer :: bytes
  ms_PGIndex_LastUpdatedPosition :: nat
  ms_VarsIndices :: "(string \<times> SerialElementIndex) list"
  ms_AttributesIndices :: "(string \<times> SerialElementIndex) list"
  ms_DataPGLengthPosition :: nat
  ms_DataPGVarsCount :: "32 word"
  ms_DataPGVarsCountPosition :: nat
  ms_DataPGCount :: size_t
  ms_DataPGIsOpen :: bool
  ms_TimeStep :: "32 word"

record bp4_writer =
  w_Data :: BufferSTL
  w_MetadataSet :: MetadataSet
  w_RankMPI :: int
  w_PreDataFileLength :: size_t
  w_IsClosed :: bool
  w_SerializedIndices :: bytes
  w_MetadataIndexTable :: index_table
  w_LastVarLengthPosInBuffer :: nat

section \<open>PutProcessGroupIndex\<close>

text \<open>The two outputs are written in turns in the code; here first the metadata, then the data.\<close>

definition PutProcessGroupIndex_metadata :: "bp_lib \<Rightarrow> bp4_writer \<Rightarrow> string \<Rightarrow> char \<Rightarrow> failure + bytes" where
  "PutProcessGroupIndex_metadata L W ioName columnMajor =
     (let ms = w_MetadataSet W; metadataBuffer = ms_PGIndex_Buffer ms;
          metadataPGLengthPosition = length metadataBuffer;
          metadataBuffer = metadataBuffer @ replicate 2 0;
          metadataBuffer = PutNameRecord_end L ioName metadataBuffer;
          metadataBuffer = inserts L [[of_char columnMajor]] metadataBuffer;
          metadataBuffer = inserts L [host L 4 (nat (w_RankMPI W mod 2 ^ 32))] metadataBuffer;
          metadataBuffer = PutNameRecord_end L (dec_nat (unat (ms_TimeStep ms))) metadataBuffer;
          metadataBuffer = inserts L [host L 4 (unat (ms_TimeStep ms))] metadataBuffer;
          metadataBuffer = inserts L [host L 8 (unat (m_AbsolutePosition (w_Data W) + w_PreDataFileLength W))] metadataBuffer;
          metadataPGIndexLength = length metadataBuffer - metadataPGLengthPosition - 2
      in bind_sum (CopyToBuffer L metadataBuffer metadataPGLengthPosition (host L 2 metadataPGIndexLength)) (\<lambda>(buffer, _). Inr buffer))"

definition PutProcessGroupIndex ::
    "bp_lib \<Rightarrow> bp4_writer \<Rightarrow> string \<Rightarrow> string \<Rightarrow> string list \<Rightarrow> failure + bp4_writer" where
  "PutProcessGroupIndex L W ioName hostLanguage transportsTypes =
     (let ms = w_MetadataSet W; D = w_Data W; pgBeginPosition = m_Position D;
          columnMajor = (if \<not> IsRowMajor L hostLanguage then CHR ''y'' else CHR ''n'');
          methodIDs = GetTransportIDs L transportsTypes;
          methodsCount = (of_nat (length methodIDs) :: byte)
      in bind_sum (puts L [Put (str_bytes ''[PGI'')] (m_Buffer D, m_Position D)) (\<lambda>(dataBuffer, dataPosition).
         (let dataPGLengthPosition = dataPosition
          in bind_sum (PutProcessGroupIndex_metadata L W ioName columnMajor) (\<lambda>metadataBuffer.
             bind_sum
               (puts L ([Skip 8, Put [of_char columnMajor], Name ioName, Skip 4, Name (dec_nat (unat (ms_TimeStep ms))),
                   Put (host L 4 (unat (ms_TimeStep ms))), Put [methodsCount], Put (host L 2 (unat methodsCount * 3))] @
                   concat (map (\<lambda>methodID. [Put [methodID], Skip 2]) methodIDs))
                 (dataBuffer, dataPosition)) (\<lambda>(dataBuffer, dataPosition).
             Inr (W\<lparr>w_Data := \<lparr>m_Buffer = dataBuffer, m_Position = dataPosition + 12,
                     m_AbsolutePosition = m_AbsolutePosition D + of_nat (dataPosition - pgBeginPosition) + 12\<rparr>,
                   w_MetadataSet := ms\<lparr>ms_PGIndex_Buffer := metadataBuffer, ms_DataPGLengthPosition := dataPGLengthPosition,
                     ms_DataPGVarsCount := 0, ms_DataPGVarsCountPosition := dataPosition,
                     ms_DataPGCount := ms_DataPGCount ms + 1, ms_DataPGIsOpen := True\<rparr>\<rparr>))))))"

section \<open>SerializeDataBuffer\<close>

text \<open>
  \<open>GetAttributesSizeInData\<close> and \<open>PutAttributes\<close> of \<open>BPSerializer\<close> are arguments. Each
  \<open>CopyToBuffer\<close> to \<open>DataPGVarsCountPosition\<close> advances that member.
\<close>

definition SerializeDataBuffer ::
    "bp_lib \<Rightarrow> (bp4_writer \<Rightarrow> nat) \<Rightarrow> (bp4_writer \<Rightarrow> failure + bp4_writer) \<Rightarrow> bp4_writer \<Rightarrow> failure + bp4_writer" where
  "SerializeDataBuffer L GetAttributesSizeInData PutAttributes W =
     (let ms = w_MetadataSet W; D = w_Data W
      in bind_sum (CopyToBuffer L (m_Buffer D) (ms_DataPGVarsCountPosition ms) (host L 4 (unat (ms_DataPGVarsCount ms)))) (\<lambda>(buffer, countPosition).
         (let varsLength = (of_nat (m_Position D) - of_nat countPosition - 8 :: size_t)
          in bind_sum (CopyToBuffer L buffer countPosition (host L 8 (unat varsLength))) (\<lambda>(buffer, countPosition).
             (let W = W\<lparr>w_Data := D\<lparr>m_Buffer := buffer\<rparr>, w_MetadataSet := ms\<lparr>ms_DataPGVarsCountPosition := countPosition\<rparr>\<rparr>;
                  attributesSizeInData = GetAttributesSizeInData W
              in bind_sum
                   (if attributesSizeInData \<noteq> 0 then
                      (let minSize = m_Position D + (attributesSizeInData + 12) + 4
                       in bind_sum
                            (if length buffer < minSize then Resize L buffer minSize (''when writing Attributes in rank=0'' @ [CHR 0x0A])
                             else Inr buffer) (\<lambda>buffer.
                          PutAttributes (W\<lparr>w_Data := D\<lparr>m_Buffer := buffer\<rparr>\<rparr>)))
                    else
                      (let minSize = m_Position D + 12 + 4
                       in bind_sum
                            (if length buffer < minSize then Resize L buffer minSize (''for empty Attributes'' @ [CHR 0x0A])
                             else Inr buffer) (\<lambda>buffer.
                          Inr (W\<lparr>w_Data := \<lparr>m_Buffer = buffer, m_Position = m_Position D + 12,
                            m_AbsolutePosition = m_AbsolutePosition D + 12\<rparr>\<rparr>)))) (\<lambda>W.
                 bind_sum (puts L [Put (str_bytes ''PGI]'')] (m_Buffer (w_Data W), m_Position (w_Data W))) (\<lambda>(buffer, position).
                   (let dataPGLength = (of_nat position - of_nat (ms_DataPGLengthPosition (w_MetadataSet W)) :: size_t)
                    in bind_sum (CopyToBuffer L buffer (ms_DataPGLengthPosition (w_MetadataSet W)) (host L 8 (unat dataPGLength)))
                      (\<lambda>(buffer, lengthPosition).
                         Inr (W\<lparr>w_Data := \<lparr>m_Buffer = buffer, m_Position = position,
                                 m_AbsolutePosition = m_AbsolutePosition (w_Data W) + 4\<rparr>,
                               w_MetadataSet := (w_MetadataSet W)\<lparr>ms_DataPGLengthPosition := lengthPosition,
                                 ms_DataPGIsOpen := False\<rparr>\<rparr>))))))))))"

section \<open>SerializeMetadataInData\<close>

definition SetIndexCountLength :: "(string \<times> SerialElementIndex) list \<Rightarrow> 32 word \<times> size_t" where
  "SetIndexCountLength indices = (of_nat (length indices), sum_list (map (\<lambda>(_, i). of_nat (length (ix_Buffer i))) indices))"

definition FlattenIndices ::
    "bp_lib \<Rightarrow> 32 word \<Rightarrow> size_t \<Rightarrow> (string \<times> SerialElementIndex) list \<Rightarrow> bytes \<times> nat \<Rightarrow> failure + bytes \<times> nat" where
  "FlattenIndices L count len indices bp =
     bind_sum (puts L [Put (host L 4 (unat count)), Put (host L 8 (unat len))] bp)
       (puts L (map (\<lambda>(_, i). Put (ix_Buffer i)) indices))"

definition SerializeMetadataInData :: "bp_lib \<Rightarrow> bool \<Rightarrow> bool \<Rightarrow> bp4_writer \<Rightarrow> failure + bp4_writer" where
  "SerializeMetadataInData L updateAbsolutePosition inData W =
     (let ms = w_MetadataSet W; D = w_Data W;
          pgCount = ms_DataPGCount ms;
          pgLength = (of_nat (length (ms_PGIndex_Buffer ms)) :: size_t);
          (varsCount, varsLength) = SetIndexCountLength (ms_VarsIndices ms);
          (attributesCount, attributesLength) = SetIndexCountLength (ms_AttributesIndices ms)
      in if \<not> inData then Inr W
         else
           (let footerSize = (pgLength + 16) + (varsLength + 12) + (attributesLength + 12) + of_nat (MiniFooterSize L)
            in bind_sum (Resize L (m_Buffer D) (m_Position D + unat footerSize) '' when writing metadata in bp data buffer'') (\<lambda>buffer.
               bind_sum (puts L [Put (host L 8 (unat pgCount)), Put (host L 8 (unat pgLength)),
                   Put (take (unat pgLength) (ms_PGIndex_Buffer ms))] (buffer, m_Position D)) (\<lambda>bp.
               bind_sum (FlattenIndices L varsCount varsLength (ms_VarsIndices ms) bp) (\<lambda>bp.
               bind_sum (FlattenIndices L attributesCount attributesLength (ms_AttributesIndices ms) bp) (\<lambda>(buffer, position).
                 (let pgIndexStart = m_AbsolutePosition D;
                      variablesIndexStart = pgIndexStart + (pgLength + 16);
                      attributesIndexStart = variablesIndexStart + (varsLength + 12)
                  in bind_sum (PutMinifooter L pgIndexStart variablesIndexStart attributesIndexStart buffer position) (\<lambda>(buffer, position).
                       Inr (W\<lparr>w_Data := \<lparr>m_Buffer = buffer, m_Position = position,
                         m_AbsolutePosition = (if updateAbsolutePosition then m_AbsolutePosition D + footerSize
                           else m_AbsolutePosition D)\<rparr>\<rparr>)))))))))"

section \<open>CloseData, CloseStream, ResetAllIndices\<close>

definition CloseData ::
    "bp_lib \<Rightarrow> (bp4_writer \<Rightarrow> nat) \<Rightarrow> (bp4_writer \<Rightarrow> failure + bp4_writer) \<Rightarrow> bp4_writer \<Rightarrow> failure + bp4_writer \<times> nat" where
  "CloseData L GetAttributesSizeInData PutAttributes W =
     (let dataEndsAt = m_Position (w_Data W)
      in if \<not> w_IsClosed W then
           bind_sum (if ms_DataPGIsOpen (w_MetadataSet W) then SerializeDataBuffer L GetAttributesSizeInData PutAttributes W else Inr W) (\<lambda>W.
             (let dataEndsAt = m_Position (w_Data W)
              in bind_sum (SerializeMetadataInData L False False W) (\<lambda>W. Inr (W\<lparr>w_IsClosed := True\<rparr>, dataEndsAt))))
         else Inr (W, dataEndsAt))"

definition CloseStream ::
    "bp_lib \<Rightarrow> (bp4_writer \<Rightarrow> nat) \<Rightarrow> (bp4_writer \<Rightarrow> failure + bp4_writer) \<Rightarrow> bool \<Rightarrow> bp4_writer \<Rightarrow> failure + bp4_writer \<times> nat" where
  "CloseStream L GetAttributesSizeInData PutAttributes addMetadata W =
     bind_sum (if ms_DataPGIsOpen (w_MetadataSet W) then SerializeDataBuffer L GetAttributesSizeInData PutAttributes W else Inr W) (\<lambda>W.
       (let dataEndsAt = m_Position (w_Data W)
        in bind_sum (SerializeMetadataInData L False addMetadata W) (\<lambda>W. Inr (W, dataEndsAt))))"

definition ResetAllIndices :: "bp4_writer \<Rightarrow> bp4_writer" where
  "ResetAllIndices W =
     W\<lparr>w_MetadataSet := (w_MetadataSet W)\<lparr>ms_PGIndex_Buffer := [], ms_PGIndex_LastUpdatedPosition := 0, ms_DataPGCount := 0,
       ms_DataPGLengthPosition := 0, ms_DataPGVarsCount := 0, ms_DataPGVarsCountPosition := 0,
       ms_AttributesIndices := [], ms_VarsIndices := []\<rparr>\<rparr>"

definition ResetMetadataIndexTable :: "bp4_writer \<Rightarrow> bp4_writer" where
  "ResetMetadataIndexTable W = W\<lparr>w_MetadataIndexTable := []\<rparr>"

section \<open>What the operations write\<close>

text \<open>A record of the process group index.\<close>

definition pg_record_body :: "bp_lib \<Rightarrow> string \<Rightarrow> char \<Rightarrow> int \<Rightarrow> 32 word \<Rightarrow> size_t \<Rightarrow> bytes" where
  "pg_record_body L ioName columnMajor rank step offset =
     name_record L ioName @ [of_char columnMajor] @ host L 4 (nat (rank mod 2 ^ 32)) @ name_record L (dec_nat (unat step)) @
     host L 4 (unat step) @ host L 8 (unat offset)"

definition pg_record :: "bp_lib \<Rightarrow> string \<Rightarrow> char \<Rightarrow> int \<Rightarrow> 32 word \<Rightarrow> size_t \<Rightarrow> bytes" where
  "pg_record L ioName columnMajor rank step offset =
     host L 2 (length (pg_record_body L ioName columnMajor rank step offset)) @ pg_record_body L ioName columnMajor rank step offset"

text \<open>An open group: its length and its count of variables lie in what is written already.\<close>

definition group_open :: "bp4_writer \<Rightarrow> bool" where
  "group_open W \<longleftrightarrow>
     (let ms = w_MetadataSet W; D = w_Data W
      in ms_DataPGIsOpen ms \<and> ms_DataPGLengthPosition ms + 8 \<le> ms_DataPGVarsCountPosition ms \<and>
         ms_DataPGVarsCountPosition ms + 12 \<le> m_Position D \<and> m_Position D \<le> length (m_Buffer D))"

text \<open>Variables are put into the open group: the data grow, the members that frame the group stay.\<close>

definition group_filled :: "bp4_writer \<Rightarrow> bp4_writer \<Rightarrow> bool" where
  "group_filled W W' \<longleftrightarrow>
     m_Position (w_Data W) \<le> m_Position (w_Data W') \<and> m_Position (w_Data W') \<le> length (m_Buffer (w_Data W')) \<and>
     take (m_Position (w_Data W)) (m_Buffer (w_Data W')) = take (m_Position (w_Data W)) (m_Buffer (w_Data W)) \<and>
     ms_DataPGIsOpen (w_MetadataSet W') \<and> w_IsClosed W' = w_IsClosed W \<and>
     ms_DataPGLengthPosition (w_MetadataSet W') = ms_DataPGLengthPosition (w_MetadataSet W) \<and>
     ms_DataPGVarsCountPosition (w_MetadataSet W') = ms_DataPGVarsCountPosition (w_MetadataSet W)"

text \<open>The bytes that open a group, up to its count of variables.\<close>

definition group_header_size :: "bp_lib \<Rightarrow> bp4_writer \<Rightarrow> string \<Rightarrow> string list \<Rightarrow> nat" where
  "group_header_size L W ioName transports =
     28 + length ioName + length (dec_nat (unat (ms_TimeStep (w_MetadataSet W)))) + 3 * length (GetTransportIDs L transports)"

text \<open>The indices behind the data.\<close>

abbreviation index_buffers :: "(string \<times> SerialElementIndex) list \<Rightarrow> bytes" where
  "index_buffers indices \<equiv> concat (map (\<lambda>(_, i). ix_Buffer i) indices)"

definition metadata_image :: "bp_lib \<Rightarrow> MetadataSet \<Rightarrow> bytes" where
  "metadata_image L ms =
     host L 8 (unat (ms_DataPGCount ms)) @ host L 8 (length (ms_PGIndex_Buffer ms)) @ ms_PGIndex_Buffer ms @
     host L 4 (length (ms_VarsIndices ms)) @ host L 8 (length (index_buffers (ms_VarsIndices ms))) @ index_buffers (ms_VarsIndices ms) @
     host L 4 (length (ms_AttributesIndices ms)) @ host L 8 (length (index_buffers (ms_AttributesIndices ms))) @
       index_buffers (ms_AttributesIndices ms)"

context bp_library
begin

lemma inserts_concat: "inserts L xs buf = buf @ concat xs"
  unfolding inserts_def by (induction xs arbitrary: buf) (simp_all add: insert_end)

lemma PutProcessGroupIndex_metadata_record:
  "PutProcessGroupIndex_metadata L W ioName columnMajor =
     Inr (ms_PGIndex_Buffer (w_MetadataSet W) @ pg_record L ioName columnMajor (w_RankMPI W) (ms_TimeStep (w_MetadataSet W))
       (m_AbsolutePosition (w_Data W) + w_PreDataFileLength W))"
proof -
  let ?md = "ms_PGIndex_Buffer (w_MetadataSet W)"
  let ?body = "pg_record_body L ioName columnMajor (w_RankMPI W) (ms_TimeStep (w_MetadataSet W))
    (m_AbsolutePosition (w_Data W) + w_PreDataFileLength W)"
  have "CopyToBuffer L (?md @ replicate 2 0 @ ?body) (length ?md) (host L 2 (length ?body)) =
      Inr (?md @ host L 2 (length ?body) @ ?body, length ?md + 2)"
    by (simp add: copy_fits overlay_middle)
  moreover have "inserts L [host L 8 (unat (m_AbsolutePosition (w_Data W) + w_PreDataFileLength W))]
      (inserts L [host L 4 (unat (ms_TimeStep (w_MetadataSet W)))] (PutNameRecord_end L (dec_nat (unat (ms_TimeStep (w_MetadataSet W))))
      (inserts L [host L 4 (nat (w_RankMPI W mod 2 ^ 32))] (inserts L [[of_char columnMajor]]
      (PutNameRecord_end L ioName (?md @ replicate 2 0)))))) = ?md @ replicate 2 0 @ ?body"
    by (simp add: inserts_concat name_end pg_record_body_def)
  ultimately show ?thesis
    by (simp add: PutProcessGroupIndex_metadata_def Let_def pg_record_def)
qed

text \<open>Closing a group without attributes.\<close>

lemma SerializeDataBuffer_closes:
  assumes "group_open W" and "GA = (\<lambda>_. 0)"
  shows "\<exists>W'. SerializeDataBuffer L GA PA W = Inr W' \<and>
    (let ms = w_MetadataSet W; p = m_Position (w_Data W); buf = m_Buffer (w_Data W')
     in m_Position (w_Data W') = p + 16 \<and> m_AbsolutePosition (w_Data W') = m_AbsolutePosition (w_Data W) + 16 \<and>
        \<not> ms_DataPGIsOpen (w_MetadataSet W') \<and> m_Position (w_Data W') \<le> length buf \<and>
        take (ms_DataPGLengthPosition ms) buf = take (ms_DataPGLengthPosition ms) (m_Buffer (w_Data W)) \<and>
        holds_at buf (ms_DataPGLengthPosition ms) (host L 8 (p + 16 - ms_DataPGLengthPosition ms)) \<and>
        holds_at buf (ms_DataPGVarsCountPosition ms)
          (host L 4 (unat (ms_DataPGVarsCount ms)) @ host L 8 (p - (ms_DataPGVarsCountPosition ms + 12))) \<and>
        holds_at buf (p + 12) (str_bytes ''PGI]'') \<and>
        (\<forall>q xs. ms_DataPGVarsCountPosition ms + 12 \<le> q \<longrightarrow> q + length xs \<le> p \<longrightarrow>
          holds_at (m_Buffer (w_Data W)) q xs \<longrightarrow> holds_at buf q xs))"
proof -
  define buf0 where "buf0 = m_Buffer (w_Data W)"
  define lp where "lp = ms_DataPGLengthPosition (w_MetadataSet W)"
  define vp where "vp = ms_DataPGVarsCountPosition (w_MetadataSet W)"
  define p where "p = m_Position (w_Data W)"
  define count where "count = host L 4 (unat (ms_DataPGVarsCount (w_MetadataSet W)))"
  define vars where "vars = host L 8 (p - (vp + 12))"
  define len where "len = host L 8 (p + 16 - lp)"
  define pgi where "pgi = str_bytes ''PGI]''"
  note defs = buf0_def lp_def vp_def p_def
  have le: "lp + 8 \<le> vp" "vp + 12 \<le> p" "p \<le> length buf0"
    using assms(1) by (simp_all add: group_open_def Let_def defs)
  have sizes [simp]: "length count = 4" "length vars = 8" "length len = 8" "length pgi = 4"
    by (simp_all add: count_def vars_def len_def pgi_def)
  define buf1 where "buf1 = overlay buf0 vp count"
  define buf2 where "buf2 = overlay buf1 (vp + 4) vars"
  define buf3 where "buf3 = (if length buf2 < p + 12 + 4 then resized (p + 12 + 4) buf2 else buf2)"
  define buf4 where "buf4 = overlay buf3 (p + 12) pgi"
  define buf5 where "buf5 = overlay buf4 lp len"
  have len1: "length buf1 = length buf0" "length buf2 = length buf0" using le by (simp_all add: buf1_def buf2_def)
  have len3: "p + 16 \<le> length buf3" by (simp add: buf3_def)
  then have len4: "length buf4 = length buf3" "length buf5 = length buf3" using le by (simp_all add: buf4_def buf5_def)
  have w1: "CopyToBuffer L buf0 vp count = Inr (buf1, vp + 4)" using le by (simp add: copy_fits buf1_def)
  have "(of_nat p - of_nat (vp + 4) - 8 :: size_t) = of_nat (p - (vp + 12))" using le by (simp add: of_nat_diff)
  then have e2: "host L 8 (unat (of_nat p - of_nat (vp + 4) - 8 :: size_t)) = vars"
    by (simp only: host_8_of_nat vars_def)
  have w2: "CopyToBuffer L buf1 (vp + 4) vars = Inr (buf2, vp + 12)" using le len1 by (simp add: copy_fits buf2_def)
  have w3: "(if length buf2 < p + 12 + 4 then Resize L buf2 (p + 12 + 4) hint else Inr buf2) = Inr buf3" for hint
    by (simp add: buf3_def resize_zeros)
  have w4: "puts L [Put pgi] (buf3, p + 12) = Inr (buf4, p + 16)" using len3 by (simp add: copy_fits buf4_def)
  have "(of_nat (p + 16) - of_nat lp :: size_t) = of_nat (p + 16 - lp)" using le by (subst of_nat_diff) simp_all
  then have e5: "host L 8 (unat (of_nat (p + 16) - of_nat lp :: size_t)) = len" by (simp only: host_8_of_nat len_def)
  have w5: "CopyToBuffer L buf4 lp len = Inr (buf5, lp + 8)" using le len3 len4 by (simp add: copy_fits buf5_def)
  have run: "\<exists>W'. SerializeDataBuffer L GA PA W = Inr W' \<and> m_Buffer (w_Data W') = buf5 \<and> m_Position (w_Data W') = p + 16 \<and>
      m_AbsolutePosition (w_Data W') = m_AbsolutePosition (w_Data W) + 16 \<and> \<not> ms_DataPGIsOpen (w_MetadataSet W')"
    unfolding SerializeDataBuffer_def Let_def assms(2) defs [symmetric] count_def [symmetric] pgi_def [symmetric]
    by (simp add: w1 e2 [simplified] w2 [simplified] w3 [simplified] w4 [simplified] e5 [simplified] w5 [simplified] lp_def [symmetric])
  have at: "holds_at buf5 lp len" using le len3 len4 by (simp add: buf5_def)
  have keep: "holds_at buf5 q xs" if "holds_at buf2 q xs" "lp + 8 \<le> q" "q + length xs \<le> p" for q xs
    using that le len1 len3 len4 by (auto simp: buf5_def buf4_def buf3_def holds_at_overlay_other holds_at_resized)
  have body: "\<forall>q xs. vp + 12 \<le> q \<longrightarrow> q + length xs \<le> p \<longrightarrow> holds_at buf0 q xs \<longrightarrow> holds_at buf5 q xs"
    using le len1 by (intro allI impI keep) (simp_all add: buf2_def buf1_def holds_at_overlay_other)
  have vars_at: "holds_at buf5 vp (count @ vars)"
    using le len1 by (intro keep) (simp_all add: buf2_def buf1_def holds_at_overlay_other)
  have pgi_at: "holds_at buf5 (p + 12) pgi" using le len3 len4 by (simp add: buf5_def buf4_def holds_at_overlay_other)
  have pre: "take lp buf5 = take lp buf0"
    using le len1 len3 len4 by (simp add: buf5_def buf4_def buf3_def buf2_def buf1_def take_overlay take_resized)
  show ?thesis
    using run at vars_at pgi_at pre len3 len4 body
    unfolding Let_def defs [symmetric] count_def [symmetric] pgi_def [symmetric] vars_def [symmetric] len_def [symmetric]
    by auto
qed

text \<open>Opening a group.\<close>

lemma PutProcessGroupIndex_opens:
  assumes "m_Position (w_Data W) + group_header_size L W ioName transports + 12 \<le> length (m_Buffer (w_Data W))"
  shows "\<exists>W'. PutProcessGroupIndex L W ioName lang transports = Inr W' \<and> group_open W' \<and>
    (let D = w_Data W; D' = w_Data W'; n = group_header_size L W ioName transports + 12
     in m_Position D' = m_Position D + n \<and> m_AbsolutePosition D' = m_AbsolutePosition D + of_nat n \<and>
        length (m_Buffer D') = length (m_Buffer D) \<and> holds_at (m_Buffer D') (m_Position D) (str_bytes ''[PGI'') \<and>
        ms_DataPGLengthPosition (w_MetadataSet W') = m_Position D + 4 \<and>
        ms_DataPGVarsCountPosition (w_MetadataSet W') + 12 = m_Position D' \<and>
        ms_PGIndex_Buffer (w_MetadataSet W') = ms_PGIndex_Buffer (w_MetadataSet W) @
          pg_record L ioName (if IsRowMajor L lang then CHR ''n'' else CHR ''y'') (w_RankMPI W) (ms_TimeStep (w_MetadataSet W))
            (m_AbsolutePosition D + w_PreDataFileLength W) \<and>
        w_IsClosed W' = w_IsClosed W)"
proof -
  define pos where "pos = m_Position (w_Data W)"
  define buf where "buf = m_Buffer (w_Data W)"
  define ids where "ids = GetTransportIDs L transports"
  define ts where "ts = dec_nat (unat (ms_TimeStep (w_MetadataSet W)))"
  define pgi where "pgi = str_bytes ''[PGI''"
  define col where "col = (if IsRowMajor L lang then CHR ''n'' else CHR ''y'')"
  define fields where "fields = [Skip 8, Put [of_char col], Name ioName, Skip 4, Name ts,
    Put (host L 4 (unat (ms_TimeStep (w_MetadataSet W)))), Put [of_nat (length ids)], Put (host L 2 (unat (of_nat (length ids) :: byte) * 3))] @
    concat (map (\<lambda>i. [Put [i], Skip 2]) ids)"
  have ids_size: "puts_size (concat (map (\<lambda>i. [Put [i], Skip 2]) ids)) = 3 * length ids" for ids :: "byte list"
    by (induction ids) simp_all
  define n where "n = 24 + length ioName + length ts + 3 * length ids"
  have n: "puts_size fields = n" "group_header_size L W ioName transports = n + 4"
    by (simp_all add: fields_def ids_size n_def group_header_size_def ts_def ids_def)
  have room: "pos + n + 16 \<le> length buf" using assms by (simp add: n pos_def buf_def)
  define buf1 where "buf1 = overlay buf pos pgi"
  define buf2 where "buf2 = overlay buf1 (pos + 4) (put_image L fields (drop (pos + 4) buf1))"
  have pgi_len: "length pgi = 4" by (simp add: pgi_def)
  have len1: "length buf1 = length buf" using room by (simp add: buf1_def pgi_len)
  have img: "length (put_image L fields (drop (pos + 4) buf1)) = n" using room len1 by (subst length_put_image) (simp_all add: n)
  have len2: "length buf2 = length buf" using room len1 img by (simp add: buf2_def)
  have w1: "puts L [Put pgi] (buf, pos) = Inr (buf1, pos + 4)" using room by (simp add: copy_fits pgi_len buf1_def)
  have w2: "puts L fields (buf1, pos + 4) = Inr (buf2, pos + 4 + n)"
    using puts_fits [of "pos + 4" fields buf1] room len1 by (simp add: n buf2_def)
  have at: "holds_at buf2 pos pgi" using room len1 img by (simp add: buf2_def buf1_def holds_at_overlay_other pgi_len)
  have col': "(if \<not> IsRowMajor L lang then CHR ''y'' else CHR ''n'') = col" by (simp add: col_def)
  have run: "PutProcessGroupIndex L W ioName lang transports = Inr (W\<lparr>w_Data := \<lparr>m_Buffer = buf2, m_Position = pos + 4 + n + 12,
        m_AbsolutePosition = m_AbsolutePosition (w_Data W) + of_nat (4 + n) + 12\<rparr>,
      w_MetadataSet := (w_MetadataSet W)\<lparr>ms_PGIndex_Buffer := ms_PGIndex_Buffer (w_MetadataSet W) @
          pg_record L ioName col (w_RankMPI W) (ms_TimeStep (w_MetadataSet W)) (m_AbsolutePosition (w_Data W) + w_PreDataFileLength W),
        ms_DataPGLengthPosition := pos + 4, ms_DataPGVarsCount := 0, ms_DataPGVarsCountPosition := pos + 4 + n,
        ms_DataPGCount := ms_DataPGCount (w_MetadataSet W) + 1, ms_DataPGIsOpen := True\<rparr>\<rparr>)"
    unfolding PutProcessGroupIndex_def Let_def col' PutProcessGroupIndex_metadata_record pos_def [symmetric] buf_def [symmetric]
      ids_def [symmetric] ts_def [symmetric] pgi_def [symmetric] w1 bind_sum_simps prod.case fields_def [symmetric] w2
    by simp
  show ?thesis
    unfolding run Let_def n(2) pos_def [symmetric] buf_def [symmetric] pgi_def [symmetric] col_def [symmetric]
    by (intro exI conjI, rule refl) (use room len2 at in \<open>simp_all add: group_open_def n_def\<close>)
qed

lemma holds_at_take:
  "pos + length bs \<le> n \<Longrightarrow> take n buf' = take n buf \<Longrightarrow> holds_at buf pos bs \<Longrightarrow> holds_at buf' pos bs"
proof -
  have "chunk pos (length bs) b = chunk pos (length bs) (take n b)" if "pos + length bs \<le> n" for b :: bytes
    using that by (simp add: chunk_def drop_take min_def)
  then show "pos + length bs \<le> n \<Longrightarrow> take n buf' = take n buf \<Longrightarrow> holds_at buf pos bs \<Longrightarrow> holds_at buf' pos bs"
    by (metis holds_at_def)
qed

lemma group_filled_open: "group_open W \<Longrightarrow> group_filled W W' \<Longrightarrow> group_open W'"
  by (auto simp: group_open_def group_filled_def Let_def)

lemma CloseData_group:
  assumes "group_open W" and "\<not> w_IsClosed W" and "holds_at (m_Buffer (w_Data W)) start (str_bytes ''[PGI'')"
    and "ms_DataPGLengthPosition (w_MetadataSet W) = start + 4" and "group_filled W W'"
  shows "\<exists>W''. CloseData L (\<lambda>_. 0) PA W' = Inr (W'', m_Position (w_Data W'')) \<and> w_IsClosed W'' \<and>
    (let buf = m_Buffer (w_Data W''); e = m_Position (w_Data W'')
     in e \<le> length buf \<and> holds_at buf start (str_bytes ''[PGI'' @ host L 8 (e - (start + 4))) \<and>
        holds_at buf (e - 4) (str_bytes ''PGI]'') \<and>
        holds_at buf (ms_DataPGVarsCountPosition (w_MetadataSet W))
          (host L 4 (unat (ms_DataPGVarsCount (w_MetadataSet W'))) @
           host L 8 (m_Position (w_Data W') - (ms_DataPGVarsCountPosition (w_MetadataSet W) + 12))) \<and>
        e = m_Position (w_Data W') + 16 \<and>
        (\<forall>q xs. ms_DataPGVarsCountPosition (w_MetadataSet W) + 12 \<le> q \<longrightarrow> q + length xs \<le> m_Position (w_Data W') \<longrightarrow>
          holds_at (m_Buffer (w_Data W')) q xs \<longrightarrow> holds_at buf q xs))"
proof -
  have lp: "ms_DataPGLengthPosition (w_MetadataSet W') = start + 4"
    and vp: "ms_DataPGVarsCountPosition (w_MetadataSet W') = ms_DataPGVarsCountPosition (w_MetadataSet W)"
    and flags: "ms_DataPGIsOpen (w_MetadataSet W')" "\<not> w_IsClosed W'"
    using assms(2,4,5) by (auto simp: group_filled_def)
  have "start + 4 \<le> m_Position (w_Data W)" using assms(1,4) by (simp add: group_open_def Let_def)
  then have at: "holds_at (m_Buffer (w_Data W')) start (str_bytes ''[PGI'')"
    using assms(3,5) holds_at_take [of start "str_bytes ''[PGI''" "m_Position (w_Data W)"] by (auto simp: group_filled_def)
  obtain W'' where ser: "SerializeDataBuffer L (\<lambda>_. 0) PA W' = Inr W''"
    and props: "let ms = w_MetadataSet W'; p = m_Position (w_Data W'); buf = m_Buffer (w_Data W'')
     in m_Position (w_Data W'') = p + 16 \<and> m_AbsolutePosition (w_Data W'') = m_AbsolutePosition (w_Data W') + 16 \<and>
        \<not> ms_DataPGIsOpen (w_MetadataSet W'') \<and> m_Position (w_Data W'') \<le> length buf \<and>
        take (ms_DataPGLengthPosition ms) buf = take (ms_DataPGLengthPosition ms) (m_Buffer (w_Data W')) \<and>
        holds_at buf (ms_DataPGLengthPosition ms) (host L 8 (p + 16 - ms_DataPGLengthPosition ms)) \<and>
        holds_at buf (ms_DataPGVarsCountPosition ms)
          (host L 4 (unat (ms_DataPGVarsCount ms)) @ host L 8 (p - (ms_DataPGVarsCountPosition ms + 12))) \<and>
        holds_at buf (p + 12) (str_bytes ''PGI]'') \<and>
        (\<forall>q xs. ms_DataPGVarsCountPosition ms + 12 \<le> q \<longrightarrow> q + length xs \<le> p \<longrightarrow>
          holds_at (m_Buffer (w_Data W')) q xs \<longrightarrow> holds_at buf q xs)"
    using SerializeDataBuffer_closes [OF group_filled_open [OF assms(1,5)], of "\<lambda>_. 0"] by blast
  have "holds_at (m_Buffer (w_Data W'')) start (str_bytes ''[PGI'')"
    using props at holds_at_take [of start "str_bytes ''[PGI''" "start + 4"] by (simp add: Let_def lp)
  moreover have "CloseData L (\<lambda>_. 0) PA W' = Inr (W''\<lparr>w_IsClosed := True\<rparr>, m_Position (w_Data W''))"
    using flags by (simp add: CloseData_def ser SerializeMetadataInData_def SetIndexCountLength_def Let_def)
  moreover have e: "m_Position (w_Data W'') = m_Position (w_Data W') + 16" using props by (simp add: Let_def)
  moreover have "m_Position (w_Data W'') - 4 = m_Position (w_Data W') + 12" using e by simp
  moreover have "length (str_bytes ''[PGI'') = 4" by simp
  moreover have "m_Position (w_Data W') + 16 \<le> length (m_Buffer (w_Data W''))" using props by (simp add: Let_def)
  moreover have "w_Data (W''\<lparr>w_IsClosed := True\<rparr>) = w_Data W''" "w_IsClosed (W''\<lparr>w_IsClosed := True\<rparr>)" by simp_all
  ultimately show ?thesis using props unfolding Let_def lp vp
    by (intro exI [of _ "W''\<lparr>w_IsClosed := True\<rparr>"])
      (simp only: holds_at_append simp_thms, elim conjE, assumption)
qed

lemma CloseData_again:
  "w_IsClosed W \<Longrightarrow> CloseData L GA PA W = Inr (W, m_Position (w_Data W))"
  by (simp add: CloseData_def Let_def)

lemma SetIndexCountLength_eq:
  "SetIndexCountLength indices = (of_nat (length indices), of_nat (length (index_buffers indices)))"
  by (induction indices) (auto simp: SetIndexCountLength_def)

lemma put_image_Puts: "put_image L (map Put xs) old = concat xs"
  by (induction xs arbitrary: old) simp_all

lemma puts_size_Puts: "puts_size (map Put xs) = length (concat xs)"
  by (induction xs) simp_all

lemma puts_Puts_fits:
  "pos + length (concat xs) \<le> length buf \<Longrightarrow>
     puts L (map Put xs) (buf, pos) = Inr (overlay buf pos (concat xs), pos + length (concat xs))"
  using puts_fits [of pos "map Put xs" buf] unfolding puts_size_Puts put_image_Puts .

lemma FlattenIndices_puts:
  "FlattenIndices L count len indices bp =
     puts L (map Put ([host L 4 (unat count), host L 8 (unat len)] @ map (\<lambda>(_, i). ix_Buffer i) indices)) bp"
  unfolding FlattenIndices_def puts_append [symmetric] by (simp add: comp_def case_prod_beta')

lemma SerializeMetadataInData_image:
  assumes "length (metadata_image L (w_MetadataSet W)) + MiniFooterSize L < 2 ^ 64"
    and "m_Position (w_Data W) \<le> length (m_Buffer (w_Data W))"
  shows "\<exists>W'. SerializeMetadataInData L update True W = Inr W' \<and>
    (let buf = m_Buffer (w_Data W'); n = length (metadata_image L (w_MetadataSet W)) + MiniFooterSize L
     in holds_at buf (m_Position (w_Data W)) (metadata_image L (w_MetadataSet W)) \<and>
        take (m_Position (w_Data W)) buf = take (m_Position (w_Data W)) (m_Buffer (w_Data W)) \<and>
        length buf = m_Position (w_Data W) + n \<and> m_Position (w_Data W') = length buf \<and>
        m_AbsolutePosition (w_Data W') = m_AbsolutePosition (w_Data W) + (if update then of_nat n else 0))"
proof -
  define ms where "ms = w_MetadataSet W"
  define pos where "pos = m_Position (w_Data W)"
  define pg where "pg = ms_PGIndex_Buffer ms"
  define vars where "vars = index_buffers (ms_VarsIndices ms)"
  define attrs where "attrs = index_buffers (ms_AttributesIndices ms)"
  define buf where "buf = resized (pos + (length (metadata_image L ms) + MiniFooterSize L)) (m_Buffer (w_Data W))"
  let ?vs = "map (\<lambda>(_, i). ix_Buffer i) (ms_VarsIndices ms)" and ?as = "map (\<lambda>(_, i). ix_Buffer i) (ms_AttributesIndices ms)"
  define all where "all = [host L 8 (unat (ms_DataPGCount ms)), host L 8 (length pg), pg] @
    ([host L 4 (length (ms_VarsIndices ms)), host L 8 (length vars)] @ ?vs) @
    ([host L 4 (length (ms_AttributesIndices ms)), host L 8 (length attrs)] @ ?as)"
  have image: "concat all = metadata_image L ms" by (simp add: all_def metadata_image_def pg_def vars_def attrs_def)
  have len: "length (metadata_image L ms) = length pg + length vars + length attrs + 40"
    by (simp add: metadata_image_def pg_def vars_def attrs_def)
  have small: "length pg + length vars + length attrs + 40 + MiniFooterSize L < 2 ^ 64" using assms(1) len by (simp add: ms_def)
  have foot: "unat (of_nat (length pg) + 16 + (of_nat (length vars) + 12) + (of_nat (length attrs) + 12) + of_nat (MiniFooterSize L) :: size_t) =
      length (metadata_image L ms) + MiniFooterSize L"
  proof -
    have "of_nat (length pg) + 16 + (of_nat (length vars) + 12) + (of_nat (length attrs) + 12) + of_nat (MiniFooterSize L) =
        (of_nat (length pg + length vars + length attrs + 40 + MiniFooterSize L) :: size_t)" by simp
    then show ?thesis using small by (simp only: unat_of_length len)
  qed
  have pgl: "unat (of_nat (length pg) :: size_t) = length pg" using small by simp
  have pos: "pos \<le> length (m_Buffer (w_Data W))" using assms(2) by (simp add: pos_def)
  define buf1 where "buf1 = overlay buf pos (metadata_image L ms)"
  have len1: "length buf1 = pos + length (metadata_image L ms) + MiniFooterSize L" by (simp add: buf1_def buf_def)
  have w: "puts L (map Put all) (buf, pos) = Inr (buf1, pos + length (metadata_image L ms))"
    using puts_Puts_fits [of pos all buf] unfolding image by (simp add: buf_def buf1_def)
  then obtain bp1 bp2 where w1: "puts L (map Put [host L 8 (unat (ms_DataPGCount ms)), host L 8 (length pg), pg]) (buf, pos) = Inr bp1"
    and w2: "FlattenIndices L (of_nat (length (ms_VarsIndices ms))) (of_nat (length vars)) (ms_VarsIndices ms) bp1 = Inr bp2"
    and w3: "FlattenIndices L (of_nat (length (ms_AttributesIndices ms))) (of_nat (length attrs)) (ms_AttributesIndices ms) bp2 =
      Inr (buf1, pos + length (metadata_image L ms))"
    unfolding all_def map_append puts_append FlattenIndices_puts host_4_of_nat host_8_of_nat by (auto simp: bind_sum_Inr_iff)
  have "\<exists>m. length m = MiniFooterSize L \<and> PutMinifooter L a b c buf1 (pos + length (metadata_image L ms)) =
      Inr (overlay buf1 (pos + length (metadata_image L ms)) m, length buf1)" for a b c
    using minifooter_fits [of "pos + length (metadata_image L ms)" buf1] len1 by simp
  then obtain m where m: "length m = MiniFooterSize L" and foot_put: "PutMinifooter L (m_AbsolutePosition (w_Data W))
      (m_AbsolutePosition (w_Data W) + (of_nat (length pg) + 16))
      (m_AbsolutePosition (w_Data W) + (of_nat (length pg) + 16) + (of_nat (length vars) + 12)) buf1 (pos + length (metadata_image L ms)) =
      Inr (overlay buf1 (pos + length (metadata_image L ms)) m, length buf1)" by blast
  have run: "SerializeMetadataInData L update True W = Inr (W\<lparr>w_Data := \<lparr>
      m_Buffer = overlay buf1 (pos + length (metadata_image L ms)) m, m_Position = length buf1,
      m_AbsolutePosition = (if update then m_AbsolutePosition (w_Data W) +
          (of_nat (length pg) + 16 + (of_nat (length vars) + 12) + (of_nat (length attrs) + 12) + of_nat (MiniFooterSize L))
        else m_AbsolutePosition (w_Data W))\<rparr>\<rparr>)"
    unfolding SerializeMetadataInData_def Let_def SetIndexCountLength_eq prod.case ms_def [symmetric] pos_def [symmetric]
      pg_def [symmetric] vars_def [symmetric] attrs_def [symmetric] foot resize_zeros buf_def [symmetric] bind_sum_simps pgl
    using w1 w2 w3 foot_put by simp
  define im where "im = metadata_image L ms"
  define n where "n = length im + MiniFooterSize L"
  define buf2 where "buf2 = overlay buf1 (pos + length im) m"
  have same: "length buf1 = pos + n" "length buf2 = pos + n" using len1 m by (simp_all add: n_def im_def buf2_def)
  have prefix: "take pos buf2 = take pos (m_Buffer (w_Data W))"
    using pos by (simp add: buf2_def buf1_def im_def [symmetric] take_overlay buf_def take_resized)
  have "holds_at buf1 pos im"
    unfolding buf1_def im_def by (rule holds_at_overlay_same) (simp add: buf_def)
  then have at: "holds_at buf2 pos im"
    unfolding buf2_def by (subst holds_at_overlay_other) (use same m in \<open>simp_all add: n_def\<close>)
  have abs: "of_nat (length pg) + 16 + (of_nat (length vars) + 12) + (of_nat (length attrs) + 12) + of_nat (MiniFooterSize L) = (of_nat n :: size_t)"
    by (simp add: n_def im_def len)
  show ?thesis
    unfolding run ms_def [symmetric] pos_def [symmetric] im_def [symmetric] buf2_def [symmetric] abs n_def [symmetric] Let_def
    by (intro exI conjI, rule refl) (use at prefix same in simp_all)
qed

end

end
