(* ===== verification/Bp4_Locate.thy ===== *)
theory Bp4_Locate
  imports Bp4_Group "HOL-Library.Multiset"
begin

text \<open>
  The first half of \<open>BP4Serializer::AggregateCollectiveMetadataIndices\<close> (BP4Serializer.cpp):
  every rank serializes its indices into one vector, and on rank 0 the gathered vectors are
  searched for the entries of each step. A \<open>size_t\<close> position in a buffer is a \<open>nat\<close>; where the
  code adds a number that was read from the buffer, the sum is taken modulo \<open>2 ^ 64\<close>.
\<close>

section \<open>Serializing the indices of a rank\<close>

definition IndicesSize :: "(string \<times> SerialElementIndex) list \<Rightarrow> nat" where
  "IndicesSize indices = sum_list (map (\<lambda>(_, i). length (ix_Buffer i)) indices)"

definition SerializeIndices ::
    "bp_lib \<Rightarrow> (string \<times> SerialElementIndex) list \<Rightarrow> bytes \<times> nat \<Rightarrow> failure + bytes \<times> nat" where
  "SerializeIndices L indices bp = puts L (map (\<lambda>(_, i). Put (ix_Buffer i)) indices) bp"

definition SerializeAllIndices :: "bp_lib \<Rightarrow> int \<Rightarrow> bp4_writer \<Rightarrow> failure + bp4_writer" where
  "SerializeAllIndices L rank W =
     (let ms = w_MetadataSet W;
          pgIndicesSize = length (ms_PGIndex_Buffer ms);
          variablesIndicesSize = IndicesSize (ms_VarsIndices ms);
          attributesIndicesSize = IndicesSize (ms_AttributesIndices ms);
          serializedIndicesSize = 8 * 4 + pgIndicesSize + variablesIndicesSize + attributesIndicesSize;
          serialized = resized (serializedIndicesSize + 4) (w_SerializedIndices W);
          variablesIndexOffset = pgIndicesSize + 36;
          attributesIndexOffset = pgIndicesSize + 36 + variablesIndicesSize
      in bind_sum
           (puts L [Put (host L 4 (nat (rank mod 2 ^ 32))), Put (host L 8 serializedIndicesSize), Put (host L 8 variablesIndexOffset),
                    Put (host L 8 attributesIndexOffset), Put (host L 8 (unat (ms_DataPGCount ms))), Put (ms_PGIndex_Buffer ms)]
              (serialized, 0)) (\<lambda>bp.
         bind_sum (SerializeIndices L (ms_VarsIndices ms) bp) (\<lambda>bp.
         bind_sum (SerializeIndices L (ms_AttributesIndices ms) bp) (\<lambda>(serialized, _).
           Inr (W\<lparr>w_SerializedIndices := serialized\<rparr>)))))"

section \<open>What is not part of the repository\<close>

text \<open>
  \<open>BPBase::ReadProcessGroupIndexHeader\<close> and \<open>ReadElementIndexCharacteristics<T>\<close> with
  \<open>untilTimeStep\<close>, with the members of their results that the code uses; whether a type is one
  of \<open>ADIOS2_FOREACH_STDTYPE_1ARG\<close> or \<open>ADIOS2_FOREACH_ATTRIBUTE_STDTYPE_1ARG\<close>, and \<open>type_string_array\<close>; the order in which an
  \<open>unordered_map\<close> is iterated.
\<close>

record ProcessGroupIndex =
  pgi_Length :: "16 word"
  pgi_IsColumnMajor :: char
  pgi_Step :: "32 word"

record Characteristics =
  ch_EntryCount :: byte
  ch_EntryLength :: "32 word"
  ch_Step :: "32 word"

record bp_merge =
  ReadProcessGroupIndexHeader :: "bytes \<Rightarrow> nat \<Rightarrow> bool \<Rightarrow> failure + ProcessGroupIndex \<times> nat"
  ReadElementIndexCharacteristics :: "byte \<Rightarrow> bytes \<Rightarrow> nat \<Rightarrow> bool \<Rightarrow> failure + Characteristics \<times> nat"
  is_std_type :: "byte \<Rightarrow> bool"
  is_attribute_type :: "byte \<Rightarrow> bool"
  type_string_array :: byte
  iteration_order :: "(string \<times> (nat \<times> nat) list) list \<Rightarrow> (string \<times> (nat \<times> nat) list) list"

section \<open>The process group indices\<close>

text \<open>\<open>m_PGIndicesInfo\<close>: for a step the count, the start and the size of runs of its records.\<close>

type_synonym pg_info = "(nat \<times> (nat \<times> nat \<times> nat) list) list"

definition push_pg :: "nat \<Rightarrow> nat \<times> nat \<times> nat \<Rightarrow> pg_info \<Rightarrow> pg_info" where
  "push_pg step x info =
     (case map_of info step of None \<Rightarrow> AList.update step [x] info | Some xs \<Rightarrow> AList.update step (xs @ [x]) info)"

record pg_scan =
  sc_Info :: pg_info
  sc_stepStartPosition :: nat
  sc_stepBuffersize :: nat
  sc_pgCountPerStep :: nat
  sc_localPosition :: nat
  sc_currentStep :: "32 word"

definition record_run :: "pg_scan \<Rightarrow> pg_scan" where
  "record_run s =
     s\<lparr>sc_Info := push_pg (unat (sc_currentStep s)) (sc_pgCountPerStep s, sc_stepStartPosition s, sc_stepBuffersize s) (sc_Info s)\<rparr>"

text \<open>The body of the loop behind the reading of the header.\<close>

definition count_pg :: "ProcessGroupIndex \<Rightarrow> pg_scan \<Rightarrow> pg_scan" where
  "count_pg header s =
     (if pgi_Step header = sc_currentStep s then
        s\<lparr>sc_stepBuffersize := sc_stepBuffersize s + (unat (pgi_Length header) + 2), sc_pgCountPerStep := sc_pgCountPerStep s + 1\<rparr>
      else
        (if sc_currentStep s = 0 then s else record_run s)
          \<lparr>sc_stepStartPosition := sc_localPosition s, sc_stepBuffersize := unat (pgi_Length header) + 2, sc_pgCountPerStep := 1,
           sc_currentStep := pgi_Step header\<rparr>)"

definition LocatePG_step :: "ProcessGroupIndex \<Rightarrow> nat \<Rightarrow> pg_scan \<Rightarrow> pg_scan" where
  "LocatePG_step header endPosition s =
     (let s = (count_pg header s)\<lparr>sc_localPosition := sc_localPosition s + (unat (pgi_Length header) + 2)\<rparr>
      in if sc_localPosition s \<ge> endPosition then record_run s else s)"

lemma LocatePG_step_position [simp]:
  "sc_localPosition (LocatePG_step header endPosition s) = sc_localPosition s + (unat (pgi_Length header) + 2)"
  by (simp add: LocatePG_step_def count_pg_def record_run_def Let_def)

function LocatePG_loop :: "bp_lib \<Rightarrow> bp_merge \<Rightarrow> bytes \<Rightarrow> nat \<Rightarrow> pg_scan \<Rightarrow> failure + pg_info" where
  "LocatePG_loop L X serialized endPosition s =
     (if sc_localPosition s < endPosition then
        bind_sum (ReadProcessGroupIndexHeader X serialized (sc_localPosition s) (IsLittleEndian L)) (\<lambda>(header, _).
          LocatePG_loop L X serialized endPosition (LocatePG_step header endPosition s))
      else Inr (sc_Info s))"
  by pat_completeness auto
termination
  by (relation "measure (\<lambda>(_, _, _, endPosition, s). endPosition - sc_localPosition s)") simp_all

declare LocatePG_loop.simps [simp del]

definition LocatePGIndices :: "bp_lib \<Rightarrow> bp_merge \<Rightarrow> pg_info \<Rightarrow> bytes \<Rightarrow> nat \<Rightarrow> nat \<Rightarrow> failure + pg_info" where
  "LocatePGIndices L X info serialized position endPosition =
     LocatePG_loop L X serialized endPosition
       \<lparr>sc_Info = info, sc_stepStartPosition = position, sc_stepBuffersize = 0, sc_pgCountPerStep = 0,
        sc_localPosition = position, sc_currentStep = 0\<rparr>"

section \<open>The indices of variables and attributes\<close>

definition GetCharacteristics ::
    "bp_lib \<Rightarrow> bp_merge \<Rightarrow> bytes \<Rightarrow> nat \<Rightarrow> byte \<Rightarrow> failure + (byte \<times> 32 word \<times> 32 word) \<times> nat" where
  "GetCharacteristics L X buffer position dataType =
     (if is_std_type X dataType \<or> dataType = type_string_array X then
        bind_sum (ReadElementIndexCharacteristics X dataType buffer position (IsLittleEndian L)) (\<lambda>(characteristics, position).
          Inr ((ch_EntryCount characteristics, ch_EntryLength characteristics, ch_Step characteristics), position))
      else
        Inl (Foreign_exn (''ERROR: type '' @ dec_nat (unat dataType) @ '' not supported in BP4 Metadata Merge'' @ [CHR 0x0A])))"

text \<open>\<open>m_VariableIndicesInfo\<close>, \<open>m_AttributesIndicesInfo\<close>: for a step and a name the start and the size of entries.\<close>

type_synonym element_info = "(nat \<times> (string \<times> (nat \<times> nat) list) list) list"

definition push_entry :: "nat \<Rightarrow> string \<Rightarrow> nat \<times> nat \<Rightarrow> element_info \<Rightarrow> element_info" where
  "push_entry timeStep name x info =
     (case map_of info timeStep of
        None \<Rightarrow> AList.update timeStep (AList.update name [x] []) info
      | Some names \<Rightarrow>
          (case map_of names name of
             None \<Rightarrow> AList.update timeStep (AList.update name [x] names) info
           | Some xs \<Rightarrow> AList.update timeStep (AList.update name (xs @ [x]) names) info))"

definition entries_at :: "nat \<Rightarrow> string \<Rightarrow> element_info \<Rightarrow> (nat \<times> nat) list" where
  "entries_at timeStep name info = al_at name [] (al_at timeStep [] info)"

function LocateVarIndices :: "bp_lib \<Rightarrow> bp_merge \<Rightarrow> element_info \<Rightarrow> bytes \<Rightarrow> nat \<Rightarrow> nat \<Rightarrow> failure + element_info" where
  "LocateVarIndices L X info serialized localPosition endPosition =
     (if localPosition < endPosition then
        bind_sum (ReadElementIndexHeader L serialized localPosition (IsLittleEndian L)) (\<lambda>(header, indexPosition).
        bind_sum (GetCharacteristics L X serialized indexPosition (eh_DataType header)) (\<lambda>((_, _, timeStep), _).
          (let varIndexBufferSize = eh_Length header + 4
           in LocateVarIndices L X (push_entry (unat timeStep) (eh_Name header) (localPosition, varIndexBufferSize) info)
                serialized (localPosition + varIndexBufferSize) endPosition)))
      else Inr info)"
  by pat_completeness auto
termination
  by (relation "measure (\<lambda>(_, _, _, _, localPosition, endPosition). endPosition - localPosition)") simp_all

declare LocateVarIndices.simps [simp del]

text \<open>
  \<open>indicesInfo[timeStep][header.Name]\<close> makes the entry when it is absent; when the attribute
  has been found already, the search ends.
\<close>

definition touch_entry :: "nat \<Rightarrow> string \<Rightarrow> element_info \<Rightarrow> element_info" where
  "touch_entry timeStep name info =
     AList.update timeStep (AList.update name (entries_at timeStep name info) (al_at timeStep [] info)) info"

function LocateAttrIndices :: "bp_lib \<Rightarrow> bp_merge \<Rightarrow> element_info \<Rightarrow> bytes \<Rightarrow> nat \<Rightarrow> nat \<Rightarrow> failure + element_info" where
  "LocateAttrIndices L X info serialized localPosition endPosition =
     (if localPosition < endPosition then
        bind_sum (ReadElementIndexHeader L serialized localPosition (IsLittleEndian L)) (\<lambda>(header, indexPosition).
        bind_sum (GetCharacteristics L X serialized indexPosition (eh_DataType header)) (\<lambda>((_, _, timeStep), _).
          (let info = touch_entry (unat timeStep) (eh_Name header) info
           in if length (entries_at (unat timeStep) (eh_Name header) info) = 1 then Inr info
              else
                (let attrIndexBufferSize = eh_Length header + 4
                 in LocateAttrIndices L X (push_entry (unat timeStep) (eh_Name header) (localPosition, attrIndexBufferSize) info)
                      serialized (localPosition + attrIndexBufferSize) endPosition))))
      else Inr info)"
  by pat_completeness auto
termination
  by (relation "measure (\<lambda>(_, _, _, _, localPosition, endPosition). endPosition - localPosition)") simp_all

declare LocateAttrIndices.simps [simp del]

section \<open>All indices of all ranks\<close>

record bp4_indices =
  m_PGIndicesInfo :: pg_info
  m_VariableIndicesInfo :: element_info
  m_AttributesIndicesInfo :: element_info

definition LocateAllIndices :: "bp_lib \<Rightarrow> bp_merge \<Rightarrow> bp4_indices \<Rightarrow> nat list \<Rightarrow> bytes \<Rightarrow> nat \<Rightarrow> failure + bp4_indices" where
  "LocateAllIndices L X M headerInfo serialized position =
     (let rankIndicesSize = headerInfo ! 0;
          variablesIndexOffset = (headerInfo ! 1 + position) mod 2 ^ 64;
          attributesIndexOffset = (headerInfo ! 2 + position) mod 2 ^ 64
      in bind_sum (LocatePGIndices L X (m_PGIndicesInfo M) serialized (position + 36) variablesIndexOffset) (\<lambda>pgs.
         bind_sum (LocateVarIndices L X (m_VariableIndicesInfo M) serialized variablesIndexOffset attributesIndexOffset) (\<lambda>vars.
         bind_sum (LocateAttrIndices L X (m_AttributesIndicesInfo M) serialized attributesIndexOffset
             ((rankIndicesSize + 4 + position) mod 2 ^ 64)) (\<lambda>attrs.
           Inr \<lparr>m_PGIndicesInfo = pgs, m_VariableIndicesInfo = vars, m_AttributesIndicesInfo = attrs\<rparr>))))"

definition read_header_info :: "bp_lib \<Rightarrow> bytes \<Rightarrow> nat \<Rightarrow> failure + nat list" where
  "read_header_info L serialized localPosition =
     bind_sum (ReadValue L 4 serialized localPosition (IsLittleEndian L)) (\<lambda>(rankSource, localPosition).
     bind_sum (ReadValue L 8 serialized localPosition (IsLittleEndian L)) (\<lambda>(h0, localPosition).
     bind_sum (ReadValue L 8 serialized localPosition (IsLittleEndian L)) (\<lambda>(h1, localPosition).
     bind_sum (ReadValue L 8 serialized localPosition (IsLittleEndian L)) (\<lambda>(h2, localPosition).
     bind_sum (ReadValue L 8 serialized localPosition (IsLittleEndian L)) (\<lambda>(h3, localPosition).
       Inr [h0, h1, h2, h3])))))"

text \<open>The loop over the ranks, which need not end on arbitrary bytes: the sum may wrap.\<close>

partial_function (option) LocateRanks ::
    "bp_lib \<Rightarrow> bp_merge \<Rightarrow> bytes \<Rightarrow> nat \<Rightarrow> bp4_indices \<Rightarrow> nat \<Rightarrow> (failure + bp4_indices) option" where
  "LocateRanks L X serialized serializedSize M serializedPosition =
     (if serializedPosition < serializedSize then
        (case bind_sum (read_header_info L serialized serializedPosition) (\<lambda>headerInfo.
            bind_sum (LocateAllIndices L X M headerInfo serialized serializedPosition) (\<lambda>M. Inr (M, headerInfo ! 0))) of
           Inl e \<Rightarrow> Some (Inl e)
         | Inr (M, h0) \<Rightarrow> LocateRanks L X serialized serializedSize M ((serializedPosition + (h0 + 4)) mod 2 ^ 64))
      else Some (Inr M))"

section \<open>The maps\<close>

lemma al_at_push_pg [simp]: "al_at t [] (push_pg step x info) = (if t = step then al_at t [] info @ [x] else al_at t [] info)"
  by (auto simp: push_pg_def al_at_def update_conv' split: option.splits)

lemma al_at_Nil [simp]: "al_at k d [] = d"
  by (simp add: al_at_def)

lemma push_entry_eq:
  "push_entry t name x info = AList.update t (AList.update name (entries_at t name info @ [x]) (al_at t [] info)) info"
  by (auto simp: push_entry_def entries_at_def al_at_def split: option.splits)

lemma entries_at_push [simp]:
  "entries_at t' name' (push_entry t name x info) = entries_at t' name' info @ (if t' = t \<and> name' = name then [x] else [])"
  by (auto simp: push_entry_eq entries_at_def)

lemma entries_at_touch [simp]: "entries_at t' name' (touch_entry t name info) = entries_at t' name' info"
  by (auto simp: touch_entry_def entries_at_def)

text \<open>Every step and every name of a step stands once in the maps, and a name has an entry.\<close>

definition info_ok :: "element_info \<Rightarrow> bool" where
  "info_ok info \<longleftrightarrow> distinct (map fst info) \<and>
     (\<forall>t. distinct (map fst (al_at t [] info)) \<and> (\<forall>name \<in> set (map fst (al_at t [] info)). entries_at t name info \<noteq> []))"

lemma info_ok_Nil [simp]: "info_ok []"
  by (simp add: info_ok_def)

lemma info_ok_update:
  assumes "info_ok info" and "xs \<noteq> []"
  shows "info_ok (AList.update t (AList.update name xs (al_at t [] info)) info)"
proof -
  have "entries_at t name' (AList.update t (AList.update name xs (al_at t [] info)) info) \<noteq> []"
    if "name' \<in> insert name (set (map fst (al_at t [] info)))" for name'
    using that assms by (auto simp: info_ok_def entries_at_def)
  moreover have "set (map fst (AList.update name xs (al_at t [] info))) = insert name (set (map fst (al_at t [] info)))"
    by (auto simp: update_keys simp del: set_map)
  moreover have "entries_at t' name' (AList.update t m info) = entries_at t' name' info" if "t' \<noteq> t" for t' name' m
    using that by (simp add: entries_at_def)
  ultimately show ?thesis
    using assms(1) unfolding info_ok_def by (simp add: distinct_update del: set_map)
qed

lemma info_ok_push: "info_ok info \<Longrightarrow> info_ok (push_entry t name x info)"
  by (simp add: push_entry_eq info_ok_update)

lemma info_ok_touch: "info_ok info \<Longrightarrow> entries_at t name info \<noteq> [] \<Longrightarrow> info_ok (touch_entry t name info)"
  by (simp add: touch_entry_def info_ok_update)

lemma touch_push: "push_entry t name x (touch_entry t name info) = push_entry t name x info"
  by (simp add: push_entry_eq touch_entry_def entries_at_def)

text \<open>Whatever the bytes are, the searches keep this, and what they add starts in the searched range.\<close>

definition starts_in :: "nat \<Rightarrow> nat \<Rightarrow> element_info \<Rightarrow> element_info \<Rightarrow> bool" where
  "starts_in pos endPosition info info' \<longleftrightarrow> (\<forall>t name. \<forall>x \<in> set (entries_at t name info').
     x \<in> set (entries_at t name info) \<or> pos \<le> fst x \<and> fst x < endPosition)"

lemma starts_in_push:
  "pos < endPosition \<Longrightarrow> starts_in (pos + n) endPosition (push_entry t name (pos, len) info) info' \<Longrightarrow> starts_in pos endPosition info info'"
  unfolding starts_in_def by (fastforce split: if_splits)

lemma LocateVarIndices_well_formed:
  assumes "LocateVarIndices L X info serialized pos endPosition = Inr info'" and "info_ok info"
  shows "info_ok info' \<and> starts_in pos endPosition info info'"
  using assms
proof (induction L X info serialized pos endPosition rule: LocateVarIndices.induct)
  case (1 L X info serialized pos endPosition)
  show ?case
  proof (cases "pos < endPosition")
    case True
    obtain h p c l step p' where "LocateVarIndices L X (push_entry (unat step) (eh_Name h) (pos, eh_Length h + 4) info) serialized
        (pos + (eh_Length h + 4)) endPosition = Inr info'"
      and "ReadElementIndexHeader L serialized pos (IsLittleEndian L) = Inr (h, p)"
      and "GetCharacteristics L X serialized p (eh_DataType h) = Inr ((c, l, step), p')"
      using 1(2) [unfolded LocateVarIndices.simps [of L X info serialized pos endPosition]] True
      by (auto simp: bind_sum_Inr_iff Let_def)
    then have "info_ok info' \<and> starts_in (pos + (eh_Length h + 4)) endPosition
        (push_entry (unat step) (eh_Name h) (pos, eh_Length h + 4) info) info'"
      using 1(1) [OF True refl] info_ok_push [OF 1(3)] by blast
    then show ?thesis using True starts_in_push by blast
  next
    case False
    then show ?thesis using 1(2,3) by (subst (asm) LocateVarIndices.simps) (simp add: starts_in_def)
  qed
qed

lemma LocateAttrIndices_well_formed:
  assumes "LocateAttrIndices L X info serialized pos endPosition = Inr info'" and "info_ok info"
  shows "info_ok info' \<and> starts_in pos endPosition info info'"
  using assms
proof (induction L X info serialized pos endPosition rule: LocateAttrIndices.induct)
  case (1 L X info serialized pos endPosition)
  show ?case
  proof (cases "pos < endPosition")
    case True
    obtain h :: ElementIndexHeader and step :: "32 word" where run: "(if length (entries_at (unat step) (eh_Name h) info) = 1 then Inr (touch_entry (unat step) (eh_Name h) info)
        else LocateAttrIndices L X (push_entry (unat step) (eh_Name h) (pos, eh_Length h + 4) info) serialized
        (pos + (eh_Length h + 4)) endPosition) = Inr info'"
      using 1(2) [unfolded LocateAttrIndices.simps [of L X info serialized pos endPosition] Let_def touch_push] True
      by (auto simp: bind_sum_Inr_iff)
    show ?thesis
    proof (cases "length (entries_at (unat step) (eh_Name h) info) = 1")
      case one: True
      then have "entries_at (unat step) (eh_Name h) info \<noteq> []" by auto
      then show ?thesis using run one 1(3) by (auto simp: info_ok_touch starts_in_def)
    next
      case False
      then have "info_ok info' \<and> starts_in (pos + (eh_Length h + 4)) endPosition
          (push_entry (unat step) (eh_Name h) (pos, eh_Length h + 4) info) info'"
        using 1(1) [OF True refl _ refl, of step h] run False info_ok_push [OF 1(3)] by (simp add: touch_push)
      then show ?thesis using True starts_in_push by blast
    qed
  next
    case False
    then show ?thesis using 1(2,3) by (subst (asm) LocateAttrIndices.simps) (simp add: starts_in_def)
  qed
qed

section \<open>What the ranks have serialized\<close>

definition rank_image :: "bp_lib \<Rightarrow> nat \<Rightarrow> nat \<Rightarrow> bytes \<Rightarrow> bytes \<Rightarrow> bytes \<Rightarrow> bytes" where
  "rank_image L rank pgCount pgs vars attrs =
     host L 4 rank @ host L 8 (32 + length pgs + length vars + length attrs) @ host L 8 (length pgs + 36) @
     host L 8 (length pgs + 36 + length vars) @ host L 8 pgCount @ pgs @ vars @ attrs"

lemma length_rank_image [simp]:
  "length (rank_image L rank pgCount pgs vars attrs) = 36 + length pgs + length vars + length attrs"
  by (simp add: rank_image_def)

lemma IndicesSize_eq: "IndicesSize indices = length (index_buffers indices)"
  by (induction indices) (auto simp: IndicesSize_def)

lemma SerializeIndices_puts: "SerializeIndices L indices bp = puts L (map Put (map (\<lambda>(_, i). ix_Buffer i) indices)) bp"
  by (simp add: SerializeIndices_def comp_def case_prod_beta')

context bp_library
begin

lemma SerializeAllIndices_image:
  "SerializeAllIndices L rank W = Inr (W\<lparr>w_SerializedIndices :=
     rank_image L (nat (rank mod 2 ^ 32)) (unat (ms_DataPGCount (w_MetadataSet W))) (ms_PGIndex_Buffer (w_MetadataSet W))
       (index_buffers (ms_VarsIndices (w_MetadataSet W))) (index_buffers (ms_AttributesIndices (w_MetadataSet W)))\<rparr>)"
proof -
  define ms where "ms = w_MetadataSet W"
  define pg where "pg = ms_PGIndex_Buffer ms"
  define vars where "vars = index_buffers (ms_VarsIndices ms)"
  define attrs where "attrs = index_buffers (ms_AttributesIndices ms)"
  define size where "size = 8 * 4 + length pg + length vars + length attrs"
  let ?hs = "[host L 4 (nat (rank mod 2 ^ 32)), host L 8 size, host L 8 (length pg + 36), host L 8 (length pg + 36 + length vars),
    host L 8 (unat (ms_DataPGCount ms)), pg]"
  let ?vs = "map (\<lambda>(_, i). ix_Buffer i) (ms_VarsIndices ms)" and ?as = "map (\<lambda>(_, i). ix_Buffer i) (ms_AttributesIndices ms)"
  define buf where "buf = resized (size + 4) (w_SerializedIndices W)"
  define im where "im = rank_image L (nat (rank mod 2 ^ 32)) (unat (ms_DataPGCount ms)) pg vars attrs"
  have im: "concat (?hs @ ?vs @ ?as) = im" by (simp add: im_def rank_image_def vars_def attrs_def size_def)
  have len: "length im = length buf" "length buf = size + 4" by (simp_all add: im_def buf_def size_def)
  have "puts L (map Put (?hs @ ?vs @ ?as)) (buf, 0) = Inr (im, length im)"
    using puts_Puts_fits [of 0 "?hs @ ?vs @ ?as" buf] unfolding im by (simp add: len)
  then obtain bp1 bp2 where "puts L (map Put ?hs) (buf, 0) = Inr bp1" "puts L (map Put ?vs) bp1 = Inr bp2"
    "puts L (map Put ?as) bp2 = Inr (im, length im)"
    unfolding map_append puts_append by (auto simp: bind_sum_Inr_iff)
  then show ?thesis
    unfolding SerializeAllIndices_def Let_def IndicesSize_eq ms_def [symmetric] pg_def [symmetric] vars_def [symmetric]
      attrs_def [symmetric] size_def [symmetric] buf_def [symmetric] im_def [symmetric] SerializeIndices_puts
    by simp
qed

end

section \<open>The laws of the readers\<close>

text \<open>
  The header of a process group index has the length, order and step of the record; the
  characteristics are read up to the time step, which the writer puts first; an iteration of a
  map visits every pair once.
\<close>

locale bp_merge_library = bp_serial_library L Z for L :: bp_lib and Z :: bp_serial +
  fixes X :: bp_merge
  assumes read_pg: "holds_at buf pos (pg_record L ioName columnMajor rank step offset) \<Longrightarrow>
      length (pg_record_body L ioName columnMajor rank step offset) < 2 ^ 16 \<Longrightarrow>
      \<exists>p. ReadProcessGroupIndexHeader X buf pos (IsLittleEndian L) =
        Inr (\<lparr>pgi_Length = of_nat (length (pg_record_body L ioName columnMajor rank step offset)), pgi_IsColumnMajor = columnMajor, pgi_Step = step\<rparr>, p)"
    and read_characteristics: "holds_at buf pos ([n] @ host L 4 len @ [characteristic_time_index Z] @ host L 4 (unat step)) \<Longrightarrow>
      is_std_type X dataType \<or> dataType = type_string_array X \<Longrightarrow>
      \<exists>c p. ReadElementIndexCharacteristics X dataType buf pos (IsLittleEndian L) = Inr (c, p) \<and> ch_Step c = step"
    and iteration: "mset (iteration_order X m) = mset m"

section \<open>The process groups of a step\<close>

text \<open>A record of the process group index with its step.\<close>

definition pg_entry :: "bp_lib \<Rightarrow> 32 word \<times> bytes \<Rightarrow> bool" where
  "pg_entry L e \<longleftrightarrow> (\<exists>ioName columnMajor rank offset.
     snd e = pg_record L ioName columnMajor rank (fst e) offset \<and> length (snd e) < 2 ^ 16 + 2)"

definition records_of :: "nat \<Rightarrow> (32 word \<times> bytes) list \<Rightarrow> bytes list" where
  "records_of step es = map snd (filter (\<lambda>e. unat (fst e) = step) es)"

lemma records_of_simps [simp]:
  "records_of step [] = []"
  "records_of step (e # es) = (if unat (fst e) = step then snd e # records_of step es else records_of step es)"
  "records_of step (es @ es') = records_of step es @ records_of step es'"
  by (simp_all add: records_of_def)

text \<open>What the runs of a step hold, and how many records they count.\<close>

definition run_bytes :: "bytes \<Rightarrow> (nat \<times> nat \<times> nat) list \<Rightarrow> bytes" where
  "run_bytes serialized xs = concat (map (\<lambda>(_, start, len). chunk start len serialized) xs)"

definition run_count :: "(nat \<times> nat \<times> nat) list \<Rightarrow> nat" where
  "run_count xs = sum_list (map fst xs)"

definition runs_fit :: "bytes \<Rightarrow> (nat \<times> nat \<times> nat) list \<Rightarrow> bool" where
  "runs_fit serialized xs \<longleftrightarrow> (\<forall>(_, start, len) \<in> set xs. start + len \<le> length serialized)"

lemma run_simps [simp]:
  "run_bytes serialized [] = []" "run_count [] = 0" "runs_fit serialized []"
  "run_bytes serialized (xs @ ys) = run_bytes serialized xs @ run_bytes serialized ys"
  "run_count (xs @ ys) = run_count xs + run_count ys"
  "runs_fit serialized (xs @ ys) \<longleftrightarrow> runs_fit serialized xs \<and> runs_fit serialized ys"
  "run_bytes serialized ((c, s, l) # xs) = chunk s l serialized @ run_bytes serialized xs"
  "run_count ((c, s, l) # xs) = c + run_count xs"
  "runs_fit serialized ((c, s, l) # xs) \<longleftrightarrow> s + l \<le> length serialized \<and> runs_fit serialized xs"
  by (auto simp: run_bytes_def run_count_def runs_fit_def ball_Un)

lemma chunk_add: "chunk s (a + b) xs = chunk s a xs @ chunk (s + a) b xs"
  by (simp add: chunk_def take_add add.commute)

text \<open>The runs of a step together with the run that is being counted.\<close>

definition runs_at :: "nat \<Rightarrow> pg_scan \<Rightarrow> (nat \<times> nat \<times> nat) list" where
  "runs_at t s = al_at t [] (sc_Info s) @
     (if sc_currentStep s \<noteq> 0 \<and> unat (sc_currentStep s) = t
      then [(sc_pgCountPerStep s, sc_stepStartPosition s, sc_stepBuffersize s)] else [])"

text \<open>Every step stands once in the map, with a run, and the runs lie in the buffer.\<close>

definition pg_info_ok :: "bytes \<Rightarrow> pg_info \<Rightarrow> bool" where
  "pg_info_ok serialized info \<longleftrightarrow> distinct (map fst info) \<and>
     (\<forall>t. runs_fit serialized (al_at t [] info) \<and> (t \<in> fst ` set info \<longleftrightarrow> 0 < run_count (al_at t [] info)))"

lemma pg_info_ok_Nil [simp]: "pg_info_ok serialized []"
  by (simp add: pg_info_ok_def)

lemma push_pg_keys: "fst ` set (push_pg t x info) = insert t (fst ` set info)"
  by (auto simp: push_pg_def dom_update split: option.splits)

lemma pg_info_ok_push:
  "pg_info_ok serialized info \<Longrightarrow> 0 < c \<Longrightarrow> s + l \<le> length serialized \<Longrightarrow> pg_info_ok serialized (push_pg t (c, s, l) info)"
  by (auto simp: pg_info_ok_def push_pg_keys) (auto simp: push_pg_def distinct_update split: option.splits)

definition scan_ok :: "bytes \<Rightarrow> pg_scan \<Rightarrow> bool" where
  "scan_ok serialized s \<longleftrightarrow> pg_info_ok serialized (sc_Info s) \<and>
     (sc_currentStep s \<noteq> 0 \<longrightarrow> sc_stepStartPosition s + sc_stepBuffersize s = sc_localPosition s \<and> 0 < sc_pgCountPerStep s \<and>
        sc_localPosition s \<le> length serialized)"

lemma record_run_at:
  "sc_currentStep s \<noteq> 0 \<Longrightarrow> al_at t [] (sc_Info (record_run s)) = runs_at t s"
  by (simp add: record_run_def runs_at_def)

lemma record_run_ok: "scan_ok serialized s \<Longrightarrow> sc_currentStep s \<noteq> 0 \<Longrightarrow> pg_info_ok serialized (sc_Info (record_run s))"
  by (simp add: record_run_def scan_ok_def pg_info_ok_push)

lemma count_pg_runs:
  assumes ok: "scan_ok serialized s" and at: "holds_at serialized (sc_localPosition s) bs" and "bs \<noteq> []"
    and len: "unat (pgi_Length header) + 2 = length bs" and step: "pgi_Step header \<noteq> 0"
  defines "s' \<equiv> (count_pg header s)\<lparr>sc_localPosition := sc_localPosition s + (unat (pgi_Length header) + 2)\<rparr>"
  shows "scan_ok serialized s'" and "sc_currentStep s' = pgi_Step header"
    and "run_bytes serialized (runs_at t s') = run_bytes serialized (runs_at t s) @ (if unat (pgi_Step header) = t then bs else [])"
    and "run_count (runs_at t s') = run_count (runs_at t s) + (if unat (pgi_Step header) = t then 1 else 0)"
proof -
  have fits: "sc_localPosition s + length bs \<le> length serialized" using holds_at_fits [OF at \<open>bs \<noteq> []\<close>] .
  have bs: "chunk (sc_localPosition s) (length bs) serialized = bs" using at by (simp add: holds_at_def)
  show "sc_currentStep s' = pgi_Step header" by (simp add: s'_def count_pg_def)
  show "scan_ok serialized s'"
    using ok fits step len record_run_ok [OF ok]
    by (auto simp: s'_def count_pg_def scan_ok_def)
  show "run_bytes serialized (runs_at t s') = run_bytes serialized (runs_at t s) @ (if unat (pgi_Step header) = t then bs else [])"
    using ok step len bs by (auto simp: s'_def count_pg_def scan_ok_def runs_at_def record_run_def chunk_add)
  show "run_count (runs_at t s') = run_count (runs_at t s) + (if unat (pgi_Step header) = t then 1 else 0)"
    using step by (auto simp: s'_def count_pg_def runs_at_def record_run_def)
qed

context bp_merge_library
begin

lemma read_pg_entry:
  assumes "pg_entry L e" and "holds_at serialized pos (snd e)"
  obtains header p where "ReadProcessGroupIndexHeader X serialized pos (IsLittleEndian L) = Inr (header, p)"
    and "pgi_Step header = fst e" and "unat (pgi_Length header) + 2 = length (snd e)"
proof -
  obtain io col rank off where e: "snd e = pg_record L io col rank (fst e) off" "length (snd e) < 2 ^ 16 + 2"
    using assms(1) by (auto simp: pg_entry_def)
  let ?body = "pg_record_body L io col rank (fst e) off"
  have small: "length ?body < 2 ^ 16" and len: "length (snd e) = length ?body + 2" using e by (simp_all add: pg_record_def)
  obtain p where "ReadProcessGroupIndexHeader X serialized pos (IsLittleEndian L) =
      Inr (\<lparr>pgi_Length = of_nat (length ?body), pgi_IsColumnMajor = col, pgi_Step = fst e\<rparr>, p)"
    using read_pg [OF assms(2) [unfolded e(1)] small] by blast
  from that [OF this] show ?thesis using small len by (simp add: unat_of_nat)
qed

lemma LocatePG_loop_runs:
  assumes "es \<noteq> []" and "\<forall>e \<in> set es. pg_entry L e \<and> fst e \<noteq> 0" and "scan_ok serialized s"
    and "holds_at serialized (sc_localPosition s) (concat (map snd es))"
    and "endPosition = sc_localPosition s + length (concat (map snd es))"
  shows "\<exists>info'. LocatePG_loop L X serialized endPosition s = Inr info' \<and> pg_info_ok serialized info' \<and>
    (\<forall>t. run_bytes serialized (al_at t [] info') = run_bytes serialized (runs_at t s) @ concat (records_of t es) \<and>
         run_count (al_at t [] info') = run_count (runs_at t s) + length (records_of t es))"
  using assms
proof (induction es arbitrary: s)
  case (Cons e es)
  obtain header p where rd: "ReadProcessGroupIndexHeader X serialized (sc_localPosition s) (IsLittleEndian L) = Inr (header, p)"
    and header: "pgi_Step header = fst e" "unat (pgi_Length header) + 2 = length (snd e)"
    using read_pg_entry [of e serialized "sc_localPosition s"] Cons.prems(2,4) by auto
  have e: "snd e \<noteq> []" "pgi_Step header \<noteq> 0" "holds_at serialized (sc_localPosition s) (snd e)"
    using header(2) Cons.prems(2,4) by (auto simp: header(1))
  have pos2: "sc_localPosition s + (unat (pgi_Length header) + 2) = sc_localPosition s + length (snd e)" using header(2) by simp
  define s' where "s' = (count_pg header s)\<lparr>sc_localPosition := sc_localPosition s + (unat (pgi_Length header) + 2)\<rparr>"
  note runs = count_pg_runs [OF Cons.prems(3) e(3,1) header(2) e(2), folded s'_def]
  have pos: "sc_localPosition s' = sc_localPosition s + length (snd e)" using pos2 by (simp add: s'_def)
  have step: "LocatePG_step header endPosition s = (if endPosition \<le> sc_localPosition s' then record_run s' else s')"
    by (simp add: LocatePG_step_def s'_def Let_def)
  have less: "sc_localPosition s < endPosition" using Cons.prems(5) e(1) by simp
  show ?case
  proof (cases "es = []")
    case True
    then have "LocatePG_step header endPosition s = record_run s'" using Cons.prems(5) unfolding step by (simp add: pos)
    moreover have "LocatePG_loop L X serialized endPosition (record_run s') = Inr (sc_Info (record_run s'))"
      using True Cons.prems(5) pos by (subst LocatePG_loop.simps) (simp add: record_run_def)
    ultimately show ?thesis
      using less rd record_run_ok [OF runs(1)] record_run_at [of s'] runs(2-4) e(2) True
      by (subst LocatePG_loop.simps) (simp add: header(1))
  next
    case False
    then obtain e' es' where es: "es = e' # es'" by (cases es) auto
    have "snd e' \<noteq> []" using Cons.prems(2) by (auto simp: es pg_entry_def pg_record_def)
    then have "LocatePG_step header endPosition s = s'" using Cons.prems(5) unfolding step by (simp add: pos es)
    moreover have "\<exists>info'. LocatePG_loop L X serialized endPosition s' = Inr info' \<and> pg_info_ok serialized info' \<and>
      (\<forall>t. run_bytes serialized (al_at t [] info') = run_bytes serialized (runs_at t s') @ concat (records_of t es) \<and>
           run_count (al_at t [] info') = run_count (runs_at t s') + length (records_of t es))"
      using Cons.prems False runs(1) by (intro Cons.IH) (simp_all add: pos add.assoc)
    ultimately show ?thesis
      using less rd runs(3,4) by (subst LocatePG_loop.simps) (auto simp: header(1))
  qed
qed simp

lemma LocatePGIndices_runs:
  assumes "\<forall>e \<in> set es. pg_entry L e \<and> fst e \<noteq> 0" and "pg_info_ok serialized info"
    and "holds_at serialized pos (concat (map snd es))" and "endPosition = pos + length (concat (map snd es))"
  shows "\<exists>info'. LocatePGIndices L X info serialized pos endPosition = Inr info' \<and> pg_info_ok serialized info' \<and>
    (\<forall>t. run_bytes serialized (al_at t [] info') = run_bytes serialized (al_at t [] info) @ concat (records_of t es) \<and>
         run_count (al_at t [] info') = run_count (al_at t [] info) + length (records_of t es))"
proof (cases "es = []")
  case True
  then show ?thesis using assms by (simp add: LocatePGIndices_def LocatePG_loop.simps)
next
  case False
  define s where "s = \<lparr>sc_Info = info, sc_stepStartPosition = pos, sc_stepBuffersize = 0, sc_pgCountPerStep = 0,
    sc_localPosition = pos, sc_currentStep = 0\<rparr>"
  have "runs_at t s = al_at t [] info" "scan_ok serialized s" for t using assms(2) by (simp_all add: s_def runs_at_def scan_ok_def)
  with LocatePG_loop_runs [OF False assms(1), of serialized s endPosition] assms(3,4)
  show ?thesis by (simp add: LocatePGIndices_def s_def)
qed

end

text \<open>A map of runs that stands for a list of records.\<close>

definition stands_for_pgs :: "bytes \<Rightarrow> pg_info \<Rightarrow> (32 word \<times> bytes) list \<Rightarrow> bool" where
  "stands_for_pgs serialized info ps \<longleftrightarrow> pg_info_ok serialized info \<and>
     (\<forall>t. run_bytes serialized (al_at t [] info) = concat (records_of t ps) \<and> run_count (al_at t [] info) = length (records_of t ps))"

lemma stands_for_pgs_Nil [simp]: "stands_for_pgs serialized [] []"
  by (simp add: stands_for_pgs_def)

lemma stands_for_pgs_steps: "stands_for_pgs serialized info ps \<Longrightarrow> fst ` set info = (\<lambda>p. unat (fst p)) ` set ps"
  by (auto simp: stands_for_pgs_def pg_info_ok_def set_eq_iff records_of_def filter_empty_conv image_iff)

section \<open>The entries of a step\<close>

text \<open>
  An entry of an index: its header, the step of its first block, and its bytes, which start
  with the header and the characteristics up to the time step.
\<close>

record element =
  el_Header :: ElementIndexHeader
  el_Step :: "32 word"
  el_Bytes :: bytes

definition element_entry :: "bp_lib \<Rightarrow> bp_serial \<Rightarrow> bp_merge \<Rightarrow> element \<Rightarrow> bool" where
  "element_entry L Z X e \<longleftrightarrow>
     (let h = el_Header e
      in header_ok h \<and> eh_Length h + 4 = length (el_Bytes e) \<and>
         (is_std_type X (eh_DataType h) \<or> eh_DataType h = type_string_array X) \<and>
         (\<exists>n len rest. el_Bytes e =
            element_header L h @ [n] @ host L 4 len @ [characteristic_time_index Z] @ host L 4 (unat (el_Step e)) @ rest))"

definition el_key :: "element \<Rightarrow> nat \<times> string" where
  "el_key e = (unat (el_Step e), eh_Name (el_Header e))"

definition elements_of :: "nat \<Rightarrow> string \<Rightarrow> element list \<Rightarrow> bytes list" where
  "elements_of t name es = map el_Bytes (filter (\<lambda>e. el_key e = (t, name)) es)"

lemma elements_of_append [simp]: "elements_of t name (es @ es') = elements_of t name es @ elements_of t name es'"
  by (simp add: elements_of_def)

definition located :: "bytes \<Rightarrow> nat \<times> nat \<Rightarrow> bytes \<Rightarrow> bool" where
  "located serialized x bs \<longleftrightarrow> (case x of (start, len) \<Rightarrow> start + len \<le> length serialized \<and> chunk start len serialized = bs)"

definition stands_for :: "bytes \<Rightarrow> element_info \<Rightarrow> element list \<Rightarrow> bool" where
  "stands_for serialized info es \<longleftrightarrow> info_ok info \<and>
     (\<forall>t name. list_all2 (located serialized) (entries_at t name info) (elements_of t name es))"

lemma stands_for_Nil [simp]: "stands_for serialized [] []"
  by (simp add: stands_for_def entries_at_def elements_of_def)

lemma stands_for_push:
  assumes "stands_for serialized info es" and "holds_at serialized pos (el_Bytes e)" and "el_Bytes e \<noteq> []"
    and "el_key e = (t, name)" and "len = length (el_Bytes e)"
  shows "stands_for serialized (push_entry t name (pos, len) info) (es @ [e])"
proof -
  have "located serialized (pos, len) (el_Bytes e)"
    using holds_at_fits [OF assms(2,3)] assms(2,5) by (simp add: located_def holds_at_def)
  then show ?thesis
    using assms(1,4) by (auto simp: stands_for_def info_ok_push elements_of_def intro!: list_all2_appendI)
qed

text \<open>The attributes of a rank that are found: those before the first that is known.\<close>

fun new_attributes :: "element list \<Rightarrow> element list \<Rightarrow> element list" where
  "new_attributes known [] = []"
| "new_attributes known (e # es) =
     (if el_key e \<in> el_key ` set known then [] else e # new_attributes (known @ [e]) es)"

lemma new_attributes_distinct:
  "distinct (map el_key known) \<Longrightarrow> distinct (map el_key (known @ new_attributes known es))"
proof (induction known es rule: new_attributes.induct)
  case (2 known e es)
  show ?case
  proof (cases "el_key e \<in> el_key ` set known")
    case False
    then have "distinct (map el_key ((known @ [e]) @ new_attributes (known @ [e]) es))" using 2 by simp
    then show ?thesis using False by simp
  qed (use 2 in simp)
qed simp

lemma length_filter_distinct: "distinct ks \<Longrightarrow> length (filter (\<lambda>k. k = x) ks) = (if x \<in> set ks then 1 else 0)"
  by (induction ks) auto

lemma stands_for_length:
  assumes "stands_for serialized info known" and "distinct (map el_key known)"
  shows "length (entries_at t name info) = (if (t, name) \<in> el_key ` set known then 1 else 0)"
proof -
  have "length (entries_at t name info) = length (filter (\<lambda>k. k = (t, name)) (map el_key known))"
    using assms(1) list_all2_lengthD [of "located serialized" "entries_at t name info" "elements_of t name known"]
    by (simp add: stands_for_def elements_of_def filter_map comp_def)
  also have "\<dots> = (if (t, name) \<in> set (map el_key known) then 1 else 0)"
    using assms(2) by (rule length_filter_distinct)
  finally show ?thesis by simp
qed

context bp_merge_library
begin

lemma read_element:
  assumes "element_entry L Z X e" and "holds_at serialized pos (el_Bytes e)"
  obtains p c l p' where "ReadElementIndexHeader L serialized pos (IsLittleEndian L) = Inr (el_Header e, p)"
    and "GetCharacteristics L X serialized p (eh_DataType (el_Header e)) = Inr ((c, l, el_Step e), p')"
proof -
  let ?h = "el_Header e"
  obtain n len rest where e: "el_Bytes e =
      element_header L ?h @ [n] @ host L 4 len @ [characteristic_time_index Z] @ host L 4 (unat (el_Step e)) @ rest"
    and h: "header_ok ?h" "is_std_type X (eh_DataType ?h) \<or> eh_DataType ?h = type_string_array X"
    using assms(1) by (auto simp: element_entry_def Let_def)
  have at: "holds_at serialized pos (element_header L ?h)"
    "holds_at serialized (pos + length (element_header L ?h)) ([n] @ host L 4 len @ [characteristic_time_index Z] @ host L 4 (unat (el_Step e)))"
    using assms(2) unfolding e holds_at_append by simp_all
  obtain c p' where "ReadElementIndexCharacteristics X (eh_DataType ?h) serialized (pos + length (element_header L ?h)) (IsLittleEndian L) =
      Inr (c, p')" "ch_Step c = el_Step e"
    using read_characteristics [OF at(2) h(2)] by blast
  then show ?thesis
    using that read_header [OF at(1) h(1)] h(2) by (simp add: GetCharacteristics_def)
qed

lemma element_entry_Nil: "element_entry L Z X e \<Longrightarrow> el_Bytes e \<noteq> []"
  by (auto simp: element_entry_def Let_def)

lemma element_entry_length: "element_entry L Z X e \<Longrightarrow> eh_Length (el_Header e) + 4 = length (el_Bytes e)"
  by (simp add: element_entry_def Let_def)

lemma LocateVarIndices_finds:
  assumes "\<forall>e \<in> set es. element_entry L Z X e" and "stands_for serialized info known"
    and "holds_at serialized pos (concat (map el_Bytes es))" and "endPosition = pos + length (concat (map el_Bytes es))"
  shows "\<exists>info'. LocateVarIndices L X info serialized pos endPosition = Inr info' \<and> stands_for serialized info' (known @ es)"
  using assms
proof (induction es arbitrary: info known pos)
  case Nil
  then show ?case by (simp add: LocateVarIndices.simps)
next
  case (Cons e es)
  have e: "element_entry L Z X e" "holds_at serialized pos (el_Bytes e)" using Cons.prems(1,3) by simp_all
  obtain p c l p' where rd: "ReadElementIndexHeader L serialized pos (IsLittleEndian L) = Inr (el_Header e, p)"
    and ch: "GetCharacteristics L X serialized p (eh_DataType (el_Header e)) = Inr ((c, l, el_Step e), p')"
    using read_element [OF e] .
  let ?n = "eh_Length (el_Header e) + 4"
  have n: "?n = length (el_Bytes e)" using element_entry_length [OF e(1)] .
  let ?info = "push_entry (unat (el_Step e)) (eh_Name (el_Header e)) (pos, ?n) info"
  have "stands_for serialized ?info (known @ [e])"
    using Cons.prems(2) e(2) element_entry_Nil [OF e(1)] n by (intro stands_for_push) (simp_all add: el_key_def)
  then have "\<exists>info'. LocateVarIndices L X ?info serialized (pos + ?n) endPosition = Inr info' \<and>
      stands_for serialized info' ((known @ [e]) @ es)"
    using Cons.prems unfolding n by (intro Cons.IH) simp_all
  moreover have "pos < endPosition" using Cons.prems(4) element_entry_Nil [OF e(1)] by simp
  ultimately show ?case
    by (subst LocateVarIndices.simps) (simp add: rd ch Let_def)
qed

lemma LocateAttrIndices_finds:
  assumes "\<forall>e \<in> set es. element_entry L Z X e" and "stands_for serialized info known" and "distinct (map el_key known)"
    and "holds_at serialized pos (concat (map el_Bytes es))" and "endPosition = pos + length (concat (map el_Bytes es))"
  shows "\<exists>info'. LocateAttrIndices L X info serialized pos endPosition = Inr info' \<and>
    stands_for serialized info' (known @ new_attributes known es)"
  using assms
proof (induction es arbitrary: info known pos)
  case Nil
  then show ?case by (simp add: LocateAttrIndices.simps)
next
  case (Cons e es)
  have e: "element_entry L Z X e" "holds_at serialized pos (el_Bytes e)" using Cons.prems(1,4) by simp_all
  obtain p c l p' where rd: "ReadElementIndexHeader L serialized pos (IsLittleEndian L) = Inr (el_Header e, p)"
    and ch: "GetCharacteristics L X serialized p (eh_DataType (el_Header e)) = Inr ((c, l, el_Step e), p')"
    using read_element [OF e] .
  let ?t = "unat (el_Step e)" and ?name = "eh_Name (el_Header e)" and ?n = "eh_Length (el_Header e) + 4"
  have n: "?n = length (el_Bytes e)" using element_entry_length [OF e(1)] .
  have less: "pos < endPosition" using Cons.prems(5) element_entry_Nil [OF e(1)] by simp
  have count: "length (entries_at ?t ?name info) = (if el_key e \<in> el_key ` set known then 1 else 0)"
    using stands_for_length [OF Cons.prems(2,3), of ?t ?name] by (simp add: el_key_def)
  show ?case
  proof (cases "el_key e \<in> el_key ` set known")
    case True
    then have one: "length (entries_at ?t ?name info) = 1" using count by simp
    then have "stands_for serialized (touch_entry ?t ?name info) known"
      using Cons.prems(2) info_ok_touch [of info ?t ?name] by (cases "entries_at ?t ?name info") (auto simp: stands_for_def)
    then show ?thesis using less rd ch True one by (subst LocateAttrIndices.simps) (simp add: Let_def)
  next
    case False
    let ?info = "push_entry ?t ?name (pos, ?n) info"
    have "stands_for serialized ?info (known @ [e])"
      using Cons.prems(2) e(2) element_entry_Nil [OF e(1)] n by (intro stands_for_push) (simp_all add: el_key_def)
    then have "\<exists>info'. LocateAttrIndices L X ?info serialized (pos + ?n) endPosition = Inr info' \<and>
        stands_for serialized info' ((known @ [e]) @ new_attributes (known @ [e]) es)"
      using Cons.prems False unfolding n by (intro Cons.IH) simp_all
    then show ?thesis
      using less False count by (subst LocateAttrIndices.simps) (simp add: rd ch Let_def touch_push)
  qed
qed

end

section \<open>The ranks\<close>

record rank_indices =
  ri_Rank :: nat
  ri_Count :: nat
  ri_PGs :: "(32 word \<times> bytes) list"
  ri_Vars :: "element list"
  ri_Attrs :: "element list"

definition rank_bytes :: "bp_lib \<Rightarrow> rank_indices \<Rightarrow> bytes" where
  "rank_bytes L r =
     rank_image L (ri_Rank r) (ri_Count r) (concat (map snd (ri_PGs r))) (concat (map el_Bytes (ri_Vars r)))
       (concat (map el_Bytes (ri_Attrs r)))"

definition rank_ok :: "bp_lib \<Rightarrow> bp_serial \<Rightarrow> bp_merge \<Rightarrow> rank_indices \<Rightarrow> bool" where
  "rank_ok L Z X r \<longleftrightarrow> (\<forall>e \<in> set (ri_PGs r). pg_entry L e \<and> fst e \<noteq> 0) \<and>
     (\<forall>e \<in> set (ri_Vars r) \<union> set (ri_Attrs r). element_entry L Z X e)"

definition pgs_of :: "rank_indices list \<Rightarrow> (32 word \<times> bytes) list" where
  "pgs_of ranks = concat (map ri_PGs ranks)"

definition vars_of :: "rank_indices list \<Rightarrow> element list" where
  "vars_of ranks = concat (map ri_Vars ranks)"

definition attrs_of :: "rank_indices list \<Rightarrow> element list" where
  "attrs_of ranks = foldl (\<lambda>known r. known @ new_attributes known (ri_Attrs r)) [] ranks"

lemma of_snoc [simp]:
  "pgs_of (rs @ [r]) = pgs_of rs @ ri_PGs r" "vars_of (rs @ [r]) = vars_of rs @ ri_Vars r"
  "attrs_of (rs @ [r]) = attrs_of rs @ new_attributes (attrs_of rs) (ri_Attrs r)"
  "pgs_of [] = []" "vars_of [] = []" "attrs_of [] = []"
  by (simp_all add: pgs_of_def vars_of_def attrs_of_def)

lemma attrs_of_distinct: "distinct (map el_key (attrs_of ranks))"
proof (induction ranks rule: rev_induct)
  case (snoc r rs)
  from new_attributes_distinct [OF this] show ?case by simp
qed simp

text \<open>The maps stand for what the ranks have.\<close>

definition indices_for :: "bytes \<Rightarrow> bp4_indices \<Rightarrow> rank_indices list \<Rightarrow> bool" where
  "indices_for serialized M ranks \<longleftrightarrow>
     stands_for_pgs serialized (m_PGIndicesInfo M) (pgs_of ranks) \<and> stands_for serialized (m_VariableIndicesInfo M) (vars_of ranks) \<and>
     stands_for serialized (m_AttributesIndicesInfo M) (attrs_of ranks)"

definition no_indices :: bp4_indices where
  "no_indices = \<lparr>m_PGIndicesInfo = [], m_VariableIndicesInfo = [], m_AttributesIndicesInfo = []\<rparr>"

context bp_merge_library
begin

lemma LocateRank:
  assumes ok: "rank_ok L Z X r" and M: "indices_for serialized M ranks"
    and at: "holds_at serialized pos (rank_bytes L r)" and small: "length serialized < 2 ^ 64"
  shows "\<exists>headerInfo M'. read_header_info L serialized pos = Inr headerInfo \<and> headerInfo ! 0 + 4 = length (rank_bytes L r) \<and>
    LocateAllIndices L X M headerInfo serialized pos = Inr M' \<and> indices_for serialized M' (ranks @ [r])"
proof -
  define pgs where "pgs = concat (map snd (ri_PGs r))"
  define vars where "vars = concat (map el_Bytes (ri_Vars r))"
  define attrs where "attrs = concat (map el_Bytes (ri_Attrs r))"
  define p1 p2 p3 p4 where "p1 = pos + 4" and "p2 = p1 + 8" and "p3 = p2 + 8" and "p4 = p3 + 8"
  define v where "v = pos + 36 + length pgs"
  define a where "a = v + length vars"
  define e where "e = a + length attrs"
  have im: "rank_bytes L r = rank_image L (ri_Rank r) (ri_Count r) pgs vars attrs"
    by (simp add: rank_bytes_def pgs_def vars_def attrs_def)
  have len: "pos + length (rank_bytes L r) = e" by (simp add: im e_def a_def v_def)
  have "rank_bytes L r \<noteq> []" using len by (auto simp: e_def a_def v_def)
  from holds_at_fits [OF at this] have e: "e < 2 ^ 64" using small len by simp
  have ats: "holds_at serialized pos (host L 4 (ri_Rank r))"
    "holds_at serialized p1 (host L 8 (32 + length pgs + length vars + length attrs))" "holds_at serialized p2 (host L 8 (length pgs + 36))"
    "holds_at serialized p3 (host L 8 (length pgs + 36 + length vars))" "holds_at serialized p4 (host L 8 (ri_Count r))"
    and items: "holds_at serialized (pos + 36) pgs" "holds_at serialized v vars" "holds_at serialized a attrs"
    using at unfolding im rank_image_def holds_at_append length_host
    by (simp_all add: p1_def p2_def p3_def p4_def v_def a_def add.assoc)
  have rd: "read_header_info L serialized pos = Inr [(32 + length pgs + length vars + length attrs), length pgs + 36,
      length pgs + 36 + length vars, ri_Count r mod 256 ^ 8]"
    using e by (simp add: read_header_info_def read_written [OF ats(1), folded p1_def] read_written [OF ats(2), folded p2_def]
        read_written [OF ats(3), folded p3_def] read_written [OF ats(4), folded p4_def] read_written [OF ats(5)] e_def a_def v_def)
  obtain info1 where pg: "LocatePGIndices L X (m_PGIndicesInfo M) serialized (pos + 36) v = Inr info1"
    "stands_for_pgs serialized info1 (pgs_of ranks @ ri_PGs r)"
    using LocatePGIndices_runs [of "ri_PGs r" serialized "m_PGIndicesInfo M" "pos + 36" v] ok M items(1)
    by (auto simp: rank_ok_def indices_for_def stands_for_pgs_def pgs_def v_def)
  obtain info2 where var: "LocateVarIndices L X (m_VariableIndicesInfo M) serialized v a = Inr info2"
    "stands_for serialized info2 (vars_of ranks @ ri_Vars r)"
    using LocateVarIndices_finds [of "ri_Vars r" serialized "m_VariableIndicesInfo M" "vars_of ranks" v a] ok M items(2)
    by (auto simp: rank_ok_def indices_for_def vars_def a_def)
  obtain info3 where attr: "LocateAttrIndices L X (m_AttributesIndicesInfo M) serialized a e = Inr info3"
    "stands_for serialized info3 (attrs_of ranks @ new_attributes (attrs_of ranks) (ri_Attrs r))"
    using LocateAttrIndices_finds [of "ri_Attrs r" serialized "m_AttributesIndicesInfo M" "attrs_of ranks" a e] ok M items(3)
      attrs_of_distinct by (auto simp: rank_ok_def indices_for_def attrs_def e_def)
  have pos: "(length pgs + 36 + pos) mod 2 ^ 64 = v" "(length pgs + 36 + length vars + pos) mod 2 ^ 64 = a"
    "(32 + length pgs + length vars + length attrs + 4 + pos) mod 2 ^ 64 = e"
    using e by (simp_all add: v_def a_def e_def)
  show ?thesis
    unfolding rd using pg var attr
    by (intro exI [of _ "[32 + length pgs + length vars + length attrs, length pgs + 36,
        length pgs + 36 + length vars, ri_Count r mod 256 ^ 8]"] exI [of _ "\<lparr>m_PGIndicesInfo = info1, m_VariableIndicesInfo = info2, m_AttributesIndicesInfo = info3\<rparr>"])
      (simp add: LocateAllIndices_def Let_def pos [simplified] indices_for_def im)
qed

text \<open>The loop returns, after as many rounds as there are ranks.\<close>

lemma LocateRanks_finds:
  assumes "\<forall>r \<in> set rs. rank_ok L Z X r" and "indices_for serialized M ranks"
    and "holds_at serialized pos (concat (map (rank_bytes L) rs))" and "length serialized < 2 ^ 64"
    and "serializedSize = pos + length (concat (map (rank_bytes L) rs))"
  shows "\<exists>M'. LocateRanks L X serialized serializedSize M pos = Some (Inr M') \<and> indices_for serialized M' (ranks @ rs)"
  using assms
proof (induction rs arbitrary: M ranks pos)
  case Nil
  then show ?case by (simp add: LocateRanks.simps)
next
  case (Cons r rs)
  have r: "rank_ok L Z X r" "holds_at serialized pos (rank_bytes L r)" using Cons.prems(1,3) by simp_all
  obtain h M' where h: "read_header_info L serialized pos = Inr h" "h ! 0 + 4 = length (rank_bytes L r)"
    "LocateAllIndices L X M h serialized pos = Inr M'" "indices_for serialized M' (ranks @ [r])"
    using LocateRank [OF r(1) Cons.prems(2) r(2) Cons.prems(4)] by blast
  have ne: "rank_bytes L r \<noteq> []" using h(2) by auto
  have next_pos: "(pos + length (rank_bytes L r)) mod 2 ^ 64 = pos + length (rank_bytes L r)"
    using holds_at_fits [OF r(2) ne] Cons.prems(4) by simp
  have "\<exists>M''. LocateRanks L X serialized serializedSize M' (pos + length (rank_bytes L r)) = Some (Inr M'') \<and>
      indices_for serialized M'' ((ranks @ [r]) @ rs)"
    using Cons.prems h(4) by (intro Cons.IH) simp_all
  then show ?case
    using Cons.prems(5) ne by (subst LocateRanks.simps) (simp add: h next_pos [simplified])
qed

end

section \<open>A reference instance\<close>

definition ref_read_pg :: "bytes \<Rightarrow> nat \<Rightarrow> bool \<Rightarrow> failure + ProcessGroupIndex \<times> nat" where
  "ref_read_pg buf pos little =
     bind_sum (ref_value 2 buf pos little) (\<lambda>(len, pos).
     bind_sum (ref_string buf pos little) (\<lambda>(_, pos).
     bind_sum (ref_value 1 buf pos little) (\<lambda>(column, pos).
     bind_sum (ref_string buf (pos + 4) little) (\<lambda>(_, pos).
     bind_sum (ref_value 4 buf pos little) (\<lambda>(step, pos).
       Inr (\<lparr>pgi_Length = of_nat len, pgi_IsColumnMajor = char_of column, pgi_Step = of_nat step\<rparr>, pos + 8))))))"

definition ref_read_characteristics :: "byte \<Rightarrow> bytes \<Rightarrow> nat \<Rightarrow> bool \<Rightarrow> failure + Characteristics \<times> nat" where
  "ref_read_characteristics dataType buf pos little =
     bind_sum (ref_value 1 buf pos little) (\<lambda>(count, pos).
     bind_sum (ref_value 4 buf pos little) (\<lambda>(len, pos).
     bind_sum (ref_value 4 buf (pos + 1) little) (\<lambda>(step, pos).
       Inr (\<lparr>ch_EntryCount = of_nat count, ch_EntryLength = of_nat len, ch_Step = of_nat step\<rparr>, pos))))"

definition ref_merge :: bp_merge where
  "ref_merge = \<lparr>ReadProcessGroupIndexHeader = ref_read_pg, ReadElementIndexCharacteristics = ref_read_characteristics,
     is_std_type = (\<lambda>t. t < 12), is_attribute_type = (\<lambda>t. t < 10), type_string_array = 12, iteration_order = rev\<rparr>"

lemma ref_value_host: "holds_at buf pos (host ref_bp w n) \<Longrightarrow> 0 < w \<Longrightarrow> ref_value w buf pos True = Inr (n mod 256 ^ w, pos + w)"
  using ref_bp.read_written [of buf pos w n] by simp

lemma ref_string_record: "holds_at buf pos (name_record ref_bp s) \<Longrightarrow> length s < 2 ^ 16 \<Longrightarrow> ref_string buf pos True = Inr (s, pos + 2 + length s)"
  using ref_bp.read_name [of buf pos s] by simp

lemma word_of_mod_2 [simp]: "(word_of_nat (n mod 65536) :: 16 word) = word_of_nat n"
  by (simp add: word_unat_eq_iff unat_of_nat)

lemma word_of_mod_4 [simp]: "(word_of_nat (n mod 4294967296) :: 32 word) = word_of_nat n"
  by (simp add: word_unat_eq_iff unat_of_nat)

interpretation ref_merge: bp_merge_library ref_bp ref_serial ref_merge
proof
  fix buf :: bytes and pos io col rank step off
  let ?body = "pg_record_body ref_bp io col rank step off"
  assume at: "holds_at buf pos (pg_record ref_bp io col rank step off)" and "length ?body < 2 ^ 16"
  then have small: "length io < 2 ^ 16" "length (dec_nat (unat step)) < 2 ^ 16" by (simp_all add: pg_record_body_def)
  define p1 q1 q2 p2 p3 where "p1 = pos + 2" and "q1 = p1 + 2 + length io" and "q2 = q1 + 1" and "p2 = q2 + 4" and "p3 = p2 + 2 + length (dec_nat (unat step))"
  have ats: "holds_at buf pos (host ref_bp 2 (length ?body))" "holds_at buf p1 (name_record ref_bp io)"
    and col: "holds_at buf q1 [of_char col]" and ats2:
    "holds_at buf p2 (name_record ref_bp (dec_nat (unat step)))" "holds_at buf p3 (host ref_bp 4 (unat step))"
    using at unfolding pg_record_def pg_record_body_def holds_at_append length_host length_name_record
    by (simp_all add: p1_def q1_def q2_def p2_def p3_def add.assoc)
  have "ref_value 1 buf q1 True = Inr (of_char col, q2)" using ref_bp.read_byte [OF col] by (simp add: q2_def)
  note col' = this [simplified]
  show "\<exists>p. ReadProcessGroupIndexHeader ref_merge buf pos (IsLittleEndian ref_bp) =
      Inr (\<lparr>pgi_Length = of_nat (length ?body), pgi_IsColumnMajor = col, pgi_Step = step\<rparr>, p)"
    by (simp add: ref_merge_def ref_read_pg_def col' ref_value_host [OF ats(1), folded p1_def] ref_string_record [OF ats(2) small(1), folded q1_def]
        ref_string_record [OF ats2(1) small(2), folded p3_def] ref_value_host [OF ats2(2)] p2_def [symmetric])
next
  fix buf :: bytes and pos len step dataType and n :: byte
  assume at: "holds_at buf pos ([n] @ host ref_bp 4 len @ [characteristic_time_index ref_serial] @ host ref_bp 4 (unat (step :: 32 word)))"
  define p1 p2 p3 where "p1 = pos + 1" and "p2 = p1 + 4" and "p3 = p2 + 1"
  have ats: "holds_at buf pos [n]" "holds_at buf p1 (host ref_bp 4 len)" "holds_at buf p3 (host ref_bp 4 (unat step))"
    using at unfolding holds_at_append length_host by (simp_all add: p1_def p2_def p3_def add.assoc)
  have n: "ref_value 1 buf pos True = Inr (unat n, p1)" using ref_bp.read_byte [OF ats(1)] by (simp add: p1_def)
  show "\<exists>c p. ReadElementIndexCharacteristics ref_merge dataType buf pos (IsLittleEndian ref_bp) = Inr (c, p) \<and> ch_Step c = step"
    using ref_value_host [OF ats(2), folded p2_def] ref_value_host [OF ats(3)]
    by (simp add: ref_merge_def ref_read_characteristics_def n [simplified] p3_def [symmetric, simplified])
qed (simp add: ref_merge_def)

end
