(* ===== verification/Bp4_Merge.thy ===== *)
theory Bp4_Merge
  imports Bp4_Locate
begin

text \<open>
  The second half of \<open>BP4Serializer::AggregateCollectiveMetadataIndices\<close> (BP4Serializer.cpp):
  on rank 0 the entries that were found are copied, step by step in ascending order, into the
  collective metadata, and the positions of each step into the metadata index table.
\<close>

section \<open>lf_SortMergeIndices\<close>

text \<open>\<open>std::copy\<close> of a range of the gathered vector to the position, which advances.\<close>

definition copy_range :: "bytes \<Rightarrow> nat \<Rightarrow> nat \<Rightarrow> bytes \<times> nat \<Rightarrow> failure + bytes \<times> nat" where
  "copy_range serialized start len bp =
     (case bp of (buffer, position) \<Rightarrow>
        bind_sum (mem_read serialized start len) (\<lambda>bs.
        bind_sum (mem_write buffer position bs) (\<lambda>buffer. Inr (buffer, position + len))))"

fun fold_sum :: "('a \<Rightarrow> 's \<Rightarrow> failure + 's) \<Rightarrow> 'a list \<Rightarrow> 's \<Rightarrow> failure + 's" where
  "fold_sum f [] s = Inr s"
| "fold_sum f (x # xs) s = bind_sum (f x s) (fold_sum f xs)"

fun copy_runs :: "bytes \<Rightarrow> (nat \<times> nat \<times> nat) list \<Rightarrow> size_t \<Rightarrow> bytes \<times> nat \<Rightarrow> failure + size_t \<times> bytes \<times> nat" where
  "copy_runs serialized [] perStepPGCount bp = Inr (perStepPGCount, bp)"
| "copy_runs serialized ((pgCount, start, len) # items) perStepPGCount bp =
     bind_sum (copy_range serialized start len bp) (copy_runs serialized items (perStepPGCount + of_nat pgCount))"

definition MergePGs :: "bp_lib \<Rightarrow> bytes \<Rightarrow> (nat \<times> nat \<times> nat) list \<Rightarrow> bytes \<times> nat \<Rightarrow> failure + bytes \<times> nat" where
  "MergePGs L serialized perStepPGIndicesInfo bp =
     (case bp of (buffer, perStepPGCountPosition) \<Rightarrow>
        bind_sum (copy_runs serialized perStepPGIndicesInfo 0 (buffer, perStepPGCountPosition + 16)) (\<lambda>(perStepPGCount, buffer, position).
        bind_sum (puts L [Put (host L 8 (unat perStepPGCount)), Put (host L 8 (position - perStepPGCountPosition - 16))]
          (buffer, perStepPGCountPosition)) (\<lambda>(buffer, _). Inr (buffer, position))))"

fun copy_sets :: "bytes \<Rightarrow> nat \<Rightarrow> nat \<Rightarrow> (nat \<times> nat) list \<Rightarrow> size_t \<Rightarrow> bytes \<times> nat \<Rightarrow> failure + size_t \<times> bytes \<times> nat" where
  "copy_sets serialized headerSize sets [] setsCount bp = Inr (setsCount, bp)"
| "copy_sets serialized headerSize sets ((start, len) # items) setsCount bp =
     (if headerSize \<le> len then
        bind_sum (copy_range serialized (start + headerSize) (len - headerSize) bp)
          (copy_sets serialized headerSize sets items (setsCount + of_nat sets))
      else Inl (Crash Out_of_bounds))"

text \<open>One variable: the header of its first entry is read with the default byte order.\<close>

definition MergeVar :: "bp_lib \<Rightarrow> bytes \<Rightarrow> (nat \<times> nat) list \<Rightarrow> bytes \<times> nat \<Rightarrow> failure + bytes \<times> nat" where
  "MergeVar L serialized items bp =
     (case items of
        [] \<Rightarrow> Inl (Crash Out_of_bounds)
      | (headerStartPosition, _) # _ \<Rightarrow>
          (case bp of (buffer, entryLengthPosition) \<Rightarrow>
            bind_sum (ReadElementIndexHeader L serialized headerStartPosition True) (\<lambda>(header, localPosition).
              (let headerSize = localPosition - headerStartPosition
               in bind_sum (copy_sets serialized headerSize (eh_CharacteristicsSetsCount header) items 0
                     (buffer, entryLengthPosition + headerSize)) (\<lambda>(setsCount, buffer, position).
                  bind_sum (puts L [Put (host L 4 (position - entryLengthPosition - 4))] (buffer, entryLengthPosition)) (\<lambda>bp.
                  bind_sum (mem_read serialized (headerStartPosition + 4) (headerSize - 8 - 4)) (\<lambda>middle.
                  bind_sum (puts L [Put middle, Put (host L 8 (unat setsCount))] bp) (\<lambda>(buffer, _).
                    Inr (buffer, position)))))))))"

definition MergeAttr :: "bytes \<Rightarrow> (nat \<times> nat) list \<Rightarrow> bytes \<times> nat \<Rightarrow> failure + bytes \<times> nat" where
  "MergeAttr serialized items bp = fold_sum (\<lambda>(start, len). copy_range serialized start len) items bp"

text \<open>The indices of one kind in a step: the count, the length, and the elements.\<close>

definition MergeElements ::
    "bp_lib \<Rightarrow> bp_merge \<Rightarrow> ((nat \<times> nat) list \<Rightarrow> bytes \<times> nat \<Rightarrow> failure + bytes \<times> nat) \<Rightarrow> element_info \<Rightarrow> nat \<Rightarrow>
       bytes \<times> nat \<Rightarrow> failure + bytes \<times> nat" where
  "MergeElements L X merge indicesInfo t bp =
     (case bp of (buffer, position) \<Rightarrow>
       (case map_of indicesInfo t of
          Some perStepIndicesInfo \<Rightarrow>
            bind_sum (puts L [Put (host L 4 (length perStepIndicesInfo))] (buffer, position)) (\<lambda>(buffer, perStepCountPosition).
            bind_sum (fold_sum (\<lambda>(_, items). merge items) (iteration_order X perStepIndicesInfo) (buffer, position + 12))
              (\<lambda>(buffer, position).
            bind_sum (puts L [Put (host L 8 (position - perStepCountPosition - 8))] (buffer, perStepCountPosition)) (\<lambda>(buffer, _).
              Inr (buffer, position))))
        | None \<Rightarrow>
            bind_sum (puts L [Put (host L 4 0), Put (host L 8 0)] (buffer, position)) (\<lambda>(buffer, _). Inr (buffer, position + 12))))"

definition MergeStep ::
    "bp_lib \<Rightarrow> bp_merge \<Rightarrow> size_t \<Rightarrow> bp4_indices \<Rightarrow> bytes \<Rightarrow> nat \<Rightarrow> index_table \<times> bytes \<times> nat \<Rightarrow>
       failure + index_table \<times> bytes \<times> nat" where
  "MergeStep L X rank M serialized t tbp =
     (case tbp of (table, buffer, pgIndexStart) \<Rightarrow>
       (case map_of (m_PGIndicesInfo M) t of
          None \<Rightarrow> Inl (Foreign_exn ''unordered_map::at'')
        | Some perStepPGIndicesInfo \<Rightarrow>
            bind_sum (MergePGs L serialized perStepPGIndicesInfo (buffer, pgIndexStart)) (\<lambda>(buffer, variablesIndexStart).
            bind_sum (MergeElements L X (MergeVar L serialized) (m_VariableIndicesInfo M) t (buffer, variablesIndexStart))
              (\<lambda>(buffer, attributesIndexStart).
            bind_sum (MergeElements L X (MergeAttr serialized) (m_AttributesIndicesInfo M) t (buffer, attributesIndexStart))
              (\<lambda>(buffer, currentStepEndPos).
              Inr (table_put rank (of_nat t) (map of_nat [pgIndexStart, variablesIndexStart, attributesIndexStart, currentStepEndPos]) table,
                buffer, currentStepEndPos))))))"

definition SortMergeIndices ::
    "bp_lib \<Rightarrow> bp_merge \<Rightarrow> size_t \<Rightarrow> bp4_indices \<Rightarrow> bytes \<Rightarrow> index_table \<times> bytes \<times> nat \<Rightarrow> failure + index_table \<times> bytes \<times> nat" where
  "SortMergeIndices L X rank M serialized tbp =
     (case tbp of (table, bp) \<Rightarrow>
        (let timeSteps = sort (map fst (m_PGIndicesInfo M))
         in fold_sum (MergeStep L X rank M serialized) timeSteps (AList.update rank [] table, bp)))"

section \<open>AggregateCollectiveMetadata\<close>

text \<open>\<open>GathervVectors\<close> of the communicator gives rank 0 the vectors of all ranks and their size.\<close>

definition AggregateCollectiveMetadataIndices ::
    "bp_lib \<Rightarrow> bp_merge \<Rightarrow> int \<Rightarrow> (bytes \<Rightarrow> bytes \<times> nat) \<Rightarrow> bp4_writer \<Rightarrow> bp4_indices \<Rightarrow> BufferSTL \<Rightarrow>
       (failure + bp4_writer \<times> bp4_indices \<times> BufferSTL) option" where
  "AggregateCollectiveMetadataIndices L X rank GathervVectors W M out =
     (case SerializeAllIndices L rank W of
        Inl e \<Rightarrow> Some (Inl e)
      | Inr W \<Rightarrow>
          if rank \<noteq> 0 then Some (Inr (W, M, out))
          else
            (case GathervVectors (w_SerializedIndices W) of (serialized, serializedSize) \<Rightarrow>
              map_option (\<lambda>r. bind_sum r (\<lambda>M.
                  (let totalExtraSize = length (m_PGIndicesInfo M) * (16 + 12 + 12);
                       buffer = resized (m_Position out + serializedSize + totalExtraSize) (m_Buffer out)
                   in bind_sum (SortMergeIndices L X 0 M serialized (w_MetadataIndexTable W, buffer, m_Position out))
                        (\<lambda>(table, buffer, position).
                          Inr (W\<lparr>w_MetadataIndexTable := table\<rparr>, M, out\<lparr>m_Buffer := buffer, m_Position := position\<rparr>)))))
                (LocateRanks L X serialized serializedSize no_indices 0)))"

definition AggregateCollectiveMetadata ::
    "bp_lib \<Rightarrow> bp_merge \<Rightarrow> int \<Rightarrow> (bytes \<Rightarrow> bytes \<times> nat) \<Rightarrow> bool \<Rightarrow> bp4_writer \<Rightarrow> bp4_indices \<Rightarrow> BufferSTL \<Rightarrow>
       (failure + bp4_writer \<times> bp4_indices \<times> BufferSTL) option" where
  "AggregateCollectiveMetadata L X rank GathervVectors inMetadataBuffer W M bufferSTL =
     map_option (\<lambda>r. bind_sum r (\<lambda>(W, M, b).
         (let b = (if rank = 0 then
                 b\<lparr>m_AbsolutePosition := (if inMetadataBuffer then of_nat (m_Position b) else m_AbsolutePosition b + of_nat (m_Position b))\<rparr>
               else b)
          in bind_sum (Resize L (m_Buffer b) (m_Position b) ''after collective metadata is done'') (\<lambda>buffer.
               Inr (W, M, b\<lparr>m_Buffer := buffer\<rparr>)))))
       (AggregateCollectiveMetadataIndices L X rank GathervVectors W M bufferSTL)"

section \<open>Writers\<close>

text \<open>An operation that writes some bytes at the position, wherever they fit.\<close>

definition writes :: "(bytes \<times> nat \<Rightarrow> failure + bytes \<times> nat) \<Rightarrow> bytes \<Rightarrow> bool" where
  "writes f bs \<longleftrightarrow> (\<forall>buf pos. pos + length bs \<le> length buf \<longrightarrow> f (buf, pos) = Inr (overlay buf pos bs, pos + length bs))"

lemma writesD: "writes f bs \<Longrightarrow> pos + length bs \<le> length buf \<Longrightarrow> f (buf, pos) = Inr (overlay buf pos bs, pos + length bs)"
  by (simp add: writes_def)

lemma overlay_Nil [simp]: "overlay buf pos [] = buf"
  by (simp add: overlay_def)

lemma overlay_then: "pos + length a + length b \<le> length buf \<Longrightarrow>
  overlay (overlay buf pos a) (pos + length a) b = overlay buf pos (a @ b)"
  by (simp add: overlay_def add.assoc add.commute [of "length b"])

lemma overlay_before: "pos + length a + length b \<le> length buf \<Longrightarrow>
  overlay (overlay buf (pos + length a) b) pos a = overlay buf pos (a @ b)"
  by (simp add: overlay_def add.assoc add.left_commute [of "length b"])

lemma writes_fold: "list_all2 (\<lambda>x bs. writes (f x) bs) xs bss \<Longrightarrow> writes (fold_sum f xs) (concat bss)"
  by (induction xs bss rule: list_all2_induct) (auto simp: writes_def overlay_then add.assoc)

lemma writes_range: "located serialized (start, len) bs \<Longrightarrow> writes (copy_range serialized start len) bs"
  by (auto simp: writes_def copy_range_def located_def mem_read_def mem_write_def min_def)

lemma located_length: "located serialized (s, l) bs \<Longrightarrow> length bs = l"
  by (auto simp: located_def min_def)

lemma located_holds: "located serialized (s, l) bs \<Longrightarrow> holds_at serialized s bs"
  using located_length [of serialized s l bs] by (auto simp: located_def holds_at_def)

lemma copy_runs_writes:
  assumes "runs_fit serialized xs" and "pos + length (run_bytes serialized xs) \<le> length buf"
  shows "copy_runs serialized xs n (buf, pos) =
    Inr (n + of_nat (run_count xs), overlay buf pos (run_bytes serialized xs), pos + length (run_bytes serialized xs))"
  using assms
proof (induction xs arbitrary: n buf pos)
  case (Cons x xs)
  obtain c s l where x: "x = (c, s, l)" by (cases x)
  define bs where "bs = chunk s l serialized"
  have loc: "located serialized (s, l) bs"
    using Cons.prems(1) by (simp add: located_def x bs_def)
  note len = located_length [OF loc]
  let ?buf = "overlay buf pos bs"
  have le: "pos + length bs + length (run_bytes serialized xs) \<le> length buf"
    using Cons.prems(2) by (simp add: x bs_def)
  have "copy_range serialized s l (buf, pos) = Inr (?buf, pos + l)"
    using writesD [OF writes_range [OF loc], of pos buf] le len by simp
  moreover have "copy_runs serialized xs (n + of_nat c) (?buf, pos + l) = Inr (n + of_nat c + of_nat (run_count xs),
      overlay ?buf (pos + l) (run_bytes serialized xs), pos + l + length (run_bytes serialized xs))"
    using Cons.prems le len by (intro Cons.IH) (simp_all add: x)
  moreover have "overlay ?buf (pos + l) (run_bytes serialized xs) = overlay buf pos (bs @ run_bytes serialized xs)"
    using overlay_then [OF le] by (simp add: len)
  moreover have "run_bytes serialized (x # xs) = bs @ run_bytes serialized xs" by (simp add: x bs_def)
  ultimately show ?case
    by (simp only: x copy_runs.simps bind_sum_simps length_append len run_simps of_nat_add add.assoc)
qed simp

section \<open>What is written\<close>

text \<open>The process groups of a step: the number and the length of the records, and these.\<close>

definition pgs_image :: "bp_lib \<Rightarrow> (32 word \<times> bytes) list \<Rightarrow> nat \<Rightarrow> bytes" where
  "pgs_image L ps t =
     (let rs = records_of t ps in host L 8 (length rs) @ host L 8 (length (concat rs)) @ concat rs)"

text \<open>
  A variable of a step: the first header, with the length of the whole and as many sets as the
  first entry has for each entry, and all sets.
\<close>

definition el_header_size :: "bp_lib \<Rightarrow> element \<Rightarrow> nat" where
  "el_header_size L e = length (element_header L (el_Header e))"

definition el_sets :: "bp_lib \<Rightarrow> element \<Rightarrow> bytes" where
  "el_sets L e = drop (el_header_size L e) (el_Bytes e)"

definition merged_header :: "bp_lib \<Rightarrow> element list \<Rightarrow> ElementIndexHeader" where
  "merged_header L es =
     (let h = el_Header (hd es)
      in h\<lparr>eh_Length := el_header_size L (hd es) + length (concat (map (el_sets L) es)) - 4,
           eh_CharacteristicsSetsCount := length es * eh_CharacteristicsSetsCount h\<rparr>)"

definition merged_entry :: "bp_lib \<Rightarrow> element list \<Rightarrow> bytes" where
  "merged_entry L es = element_header L (merged_header L es) @ concat (map (el_sets L) es)"

definition els_at :: "nat \<Rightarrow> string \<Rightarrow> element list \<Rightarrow> element list" where
  "els_at t name es = filter (\<lambda>e. el_key e = (t, name)) es"

text \<open>All elements of a step, in some order of their names.\<close>

definition elements_image :: "bp_lib \<Rightarrow> (string \<Rightarrow> bytes) \<Rightarrow> string list \<Rightarrow> bytes" where
  "elements_image L entry names =
     (let body = concat (map entry names) in host L 4 (length names) @ host L 8 (length body) @ body)"

definition names_at :: "nat \<Rightarrow> element list \<Rightarrow> string set" where
  "names_at t es = {eh_Name (el_Header e) | e. e \<in> set es \<and> unat (el_Step e) = t}"

definition step_image ::
    "bp_lib \<Rightarrow> (32 word \<times> bytes) list \<Rightarrow> element list \<Rightarrow> element list \<Rightarrow> string list \<Rightarrow> string list \<Rightarrow> nat \<Rightarrow> bytes" where
  "step_image L ps vs as vnames anames t =
     pgs_image L ps t @ elements_image L (\<lambda>name. merged_entry L (els_at t name vs)) vnames @
     elements_image L (\<lambda>name. concat (elements_of t name as)) anames"

lemma elements_of_els: "elements_of t name es = map el_Bytes (els_at t name es)"
  by (simp add: elements_of_def els_at_def)

lemma length_element_header_eq:
  "eh_GroupName h = eh_GroupName h' \<Longrightarrow> eh_Name h = eh_Name h' \<Longrightarrow> length (element_header L h) = length (element_header L h')"
  by simp

text \<open>An entry of a variable, whose group is empty.\<close>

definition var_entry :: "bp_lib \<Rightarrow> bp_serial \<Rightarrow> bp_merge \<Rightarrow> element \<Rightarrow> bool" where
  "var_entry L Z X e \<longleftrightarrow> element_entry L Z X e \<and> eh_GroupName (el_Header e) = []"

lemma copy_sets_writes:
  assumes "list_all2 (located serialized) items (map el_Bytes es)"
    and "\<forall>e \<in> set es. el_header_size L e = hs \<and> hs \<le> length (el_Bytes e)"
    and "pos + length (concat (map (el_sets L) es)) \<le> length buf"
  shows "copy_sets serialized hs sets items n (buf, pos) =
    Inr (n + of_nat (length es * sets), overlay buf pos (concat (map (el_sets L) es)), pos + length (concat (map (el_sets L) es)))"
  using assms
proof (induction es arbitrary: items n buf pos)
  case (Cons e es)
  obtain s l items' where items: "items = (s, l) # items'" "located serialized (s, l) (el_Bytes e)"
    "list_all2 (located serialized) items' (map el_Bytes es)"
    using Cons.prems(1) by (auto simp: list_all2_Cons2)
  have l: "length (el_Bytes e) = l" "s + l \<le> length serialized" "chunk s l serialized = el_Bytes e"
    using items(2) located_length [OF items(2)] by (auto simp: located_def)
  have hs: "el_header_size L e = hs" "hs \<le> l" using Cons.prems(2) l(1) by auto
  have "chunk (s + hs) (l - hs) serialized = el_sets L e"
    unfolding el_sets_def l(3) [symmetric] hs(1) by (simp add: chunk_def drop_take add.commute)
  then have "located serialized (s + hs, l - hs) (el_sets L e)" using l(2) hs(2) by (simp add: located_def)
  moreover have n: "length (el_sets L e) = l - hs" by (simp add: el_sets_def l(1) hs(1))
  ultimately have "copy_range serialized (s + hs) (l - hs) (buf, pos) = Inr (overlay buf pos (el_sets L e), pos + (l - hs))"
    using writesD [OF writes_range, of serialized "s + hs" "l - hs" "el_sets L e" pos buf] Cons.prems(3) by simp
  moreover have "copy_sets serialized hs sets items' (n + of_nat sets) (overlay buf pos (el_sets L e), pos + (l - hs)) =
      Inr (n + of_nat sets + of_nat (length es * sets), overlay (overlay buf pos (el_sets L e)) (pos + (l - hs)) (concat (map (el_sets L) es)),
        pos + (l - hs) + length (concat (map (el_sets L) es)))"
    using Cons.prems items(3) n by (intro Cons.IH) simp_all
  ultimately show ?case
    using Cons.prems(3) overlay_then [of pos "el_sets L e" "concat (map (el_sets L) es)" buf] hs(2) unfolding n
    by (simp add: items(1) n add.assoc)
qed simp

context bp_library
begin

lemma MergePGs_writes:
  assumes "runs_fit serialized xs" and "run_bytes serialized xs = concat (records_of t ps)" and "run_count xs = length (records_of t ps)"
  shows "writes (MergePGs L serialized xs) (pgs_image L ps t)"
  unfolding writes_def
proof (intro allI impI)
  fix buf :: bytes and pos
  define body where "body = concat (records_of t ps)"
  define head where "head = host L 8 (run_count xs) @ host L 8 (length body)"
  have im: "pgs_image L ps t = head @ body" by (simp add: pgs_image_def Let_def head_def body_def assms(3))
  assume "pos + length (pgs_image L ps t) \<le> length buf"
  then have le: "pos + 16 + length body \<le> length buf" by (simp add: im head_def)
  have "copy_runs serialized xs 0 (buf, pos + 16) = Inr (of_nat (run_count xs), overlay buf (pos + 16) body, pos + 16 + length body)"
    using copy_runs_writes [OF assms(1), of "pos + 16" buf 0] le by (simp add: assms(2) body_def)
  moreover have "puts L [Put (host L 8 (run_count xs)), Put (host L 8 (length body))] (overlay buf (pos + 16) body, pos) =
      Inr (overlay (overlay buf (pos + 16) body) pos head, pos + 16)"
    using puts_Puts_fits [of pos "[host L 8 (run_count xs), host L 8 (length body)]" "overlay buf (pos + 16) body"] le
    by (simp add: head_def)
  moreover have "overlay (overlay buf (pos + 16) body) pos head = overlay buf pos (head @ body)"
    using overlay_before [of pos head body buf] le by (simp add: head_def)
  ultimately show "MergePGs L serialized xs (buf, pos) =
      Inr (overlay buf pos (pgs_image L ps t), pos + length (pgs_image L ps t))"
    by (simp add: MergePGs_def im host_8_of_nat) (simp add: head_def)
qed

end

text \<open>The header between its length and its count.\<close>

definition el_middle :: "bp_lib \<Rightarrow> ElementIndexHeader \<Rightarrow> bytes" where
  "el_middle L h = host L 4 (eh_MemberID h) @ name_record L (eh_GroupName h) @ name_record L (eh_Name h) @
     [eh_Order h] @ [0] @ [eh_DataType h]"

lemma element_header_middle:
  "element_header L h = host L 4 (eh_Length h) @ el_middle L h @ host L 8 (eh_CharacteristicsSetsCount h)"
  by (simp add: element_header_def el_middle_def)

lemma el_middle_update [simp]: "el_middle L (h\<lparr>eh_Length := n, eh_CharacteristicsSetsCount := k\<rparr>) = el_middle L h"
  by (simp add: el_middle_def)

context bp_merge_library
begin

lemma var_entry_bytes:
  assumes "var_entry L Z X e"
  shows "el_Bytes e = element_header L (el_Header e) @ el_sets L e" and "el_header_size L e = 23 + length (eh_Name (el_Header e))"
    and "header_ok (el_Header e)"
  using assms by (auto simp: var_entry_def element_entry_def Let_def el_sets_def el_header_size_def)

lemma MergeVar_writes:
  assumes little: "IsLittleEndian L" and items: "list_all2 (located serialized) items (map el_Bytes es)" and "es \<noteq> []"
    and es: "\<forall>e \<in> set es. var_entry L Z X e \<and> eh_Name (el_Header e) = name"
  shows "writes (MergeVar L serialized items) (merged_entry L es)"
  unfolding writes_def
proof (intro allI impI)
  fix buf :: bytes and pos
  assume "pos + length (merged_entry L es) \<le> length buf"
  obtain e es' where e: "es = e # es'" using assms(3) by (cases es) auto
  obtain s l items' where it: "items = (s, l) # items'" "located serialized (s, l) (el_Bytes e)"
    using items by (auto simp: e list_all2_Cons2)
  define h where "h = el_Header e"
  define hs where "hs = el_header_size L e"
  define body where "body = concat (map (el_sets L) es)"
  define n where "n = length es * eh_CharacteristicsSetsCount h"
  have ve: "var_entry L Z X e" using es by (simp add: e)
  note bytes = var_entry_bytes [OF ve, folded h_def hs_def]
  have hs: "hs = length (element_header L h)" "12 \<le> hs" by (simp_all add: hs_def el_header_size_def h_def)
  have mid: "length (el_middle L h) = hs - 12" using hs by (simp add: element_header_middle)
  have le: "pos + (hs + length body) \<le> length buf"
    using \<open>pos + length (merged_entry L es) \<le> length buf\<close> hs
    by (simp add: merged_entry_def merged_header_def Let_def e h_def body_def)
  have at: "holds_at serialized s (element_header L h)"
    using located_holds [OF it(2)] unfolding bytes(1) holds_at_append by blast
  then have at2: "holds_at serialized (s + 4) (el_middle L h)"
    unfolding element_header_middle holds_at_append by simp
  have fit: "s + hs \<le> length serialized" using holds_at_fits [OF at] hs by (cases "element_header L h") auto
  have rd: "ReadElementIndexHeader L serialized s True = Inr (h, s + hs)"
    using read_header [OF at bytes(3)] by (simp add: little hs(1))
  have all: "\<forall>e \<in> set es. el_header_size L e = hs \<and> hs \<le> length (el_Bytes e)"
    using es var_entry_bytes(2) [of e] bytes(2) ve
    by (auto simp: var_entry_bytes(1) el_header_size_def [symmetric] e) (auto simp: var_entry_bytes(2) hs_def)
  have sets: "copy_sets serialized hs (eh_CharacteristicsSetsCount h) items 0 (buf, pos + hs) =
      Inr (of_nat n, overlay buf (pos + hs) body, pos + hs + length body)"
    using copy_sets_writes [OF items all, of "pos + hs" buf "eh_CharacteristicsSetsCount h" 0] le
    by (simp add: body_def n_def add.assoc)
  let ?head = "[host L 4 (hs + length body - 4), el_middle L h, host L 8 n]"
  define buf' where "buf' = overlay buf (pos + hs) body"
  have head: "concat ?head = element_header L (merged_header L es)"
    by (simp add: merged_header_def Let_def e element_header_middle h_def hs_def body_def n_def)
  have head_len: "length (concat ?head) = hs" using mid hs(2) by simp
  have "puts L (map Put ?head) (buf', pos) = Inr (overlay buf' pos (concat ?head), pos + hs)"
    using puts_Puts_fits [of pos ?head buf'] le head_len by (simp add: buf'_def add.assoc)
  then obtain bp where w: "puts L [Put (host L 4 (hs + length body - 4))] (buf', pos) = Inr bp"
    "puts L [Put (el_middle L h), Put (host L 8 n)] bp = Inr (overlay buf' pos (concat ?head), pos + hs)"
    using puts_append [of L "[Put (host L 4 (hs + length body - 4))]" "[Put (el_middle L h), Put (host L 8 n)]"]
    by (auto simp: bind_sum_Inr_iff)
  have rd_mid: "mem_read serialized (s + 4) (hs - 8 - 4) = Inr (el_middle L h)"
    using at2 fit mid hs(2) by (simp add: mem_read_def holds_at_def)
  have whole: "overlay buf' pos (concat ?head) = overlay buf pos (merged_entry L es)"
    using overlay_before [of pos "concat ?head" body buf] le head_len
    by (simp add: buf'_def merged_entry_def head [symmetric] body_def add.assoc del: concat.simps)
  have len: "length (merged_entry L es) = hs + length body"
    unfolding merged_entry_def head [symmetric] body_def [symmetric] using head_len by simp
  have pos: "s + hs - s = hs" "pos + hs + length body - pos - 4 = hs + length body - 4" by simp_all
  show "MergeVar L serialized items (buf, pos) = Inr (overlay buf pos (merged_entry L es), pos + length (merged_entry L es))"
    unfolding MergeVar_def it(1) list.case prod.case rd bind_sum_simps Let_def pos(1) sets [unfolded it(1)] buf'_def [symmetric] pos(2)
      w(1) rd_mid host_8_of_nat w(2) whole len
    by (simp add: add.assoc)
qed

end

lemma MergeAttr_writes: "list_all2 (located serialized) items bss \<Longrightarrow> writes (MergeAttr serialized items) (concat bss)"
  unfolding MergeAttr_def by (rule writes_fold) (auto elim!: list_all2_mono intro: writes_range)

lemma in_names: "name \<in> names_at t es \<longleftrightarrow> elements_of t name es \<noteq> []"
  by (auto simp: names_at_def elements_of_def el_key_def filter_empty_conv)

lemma stands_for_names:
  assumes "stands_for serialized info es"
  shows "fst ` set (al_at t [] info) = names_at t es" and "distinct (map fst (al_at t [] info))"
    and "(name, items) \<in> set (al_at t [] info) \<Longrightarrow> entries_at t name info = items"
proof -
  have ok: "info_ok info" and el: "list_all2 (located serialized) (entries_at t name info) (elements_of t name es)" for name
    using assms by (auto simp: stands_for_def)
  show dist: "distinct (map fst (al_at t [] info))" using ok by (simp add: info_ok_def)
  have "name \<in> fst ` set (al_at t [] info) \<longleftrightarrow> entries_at t name info \<noteq> []" for name
  proof
    assume "name \<in> fst ` set (al_at t [] info)"
    with ok show "entries_at t name info \<noteq> []" unfolding info_ok_def by (metis list.set_map)
  next
    assume "entries_at t name info \<noteq> []"
    then have "map_of (al_at t [] info) name \<noteq> None"
      unfolding entries_at_def al_at_def [of name] by (auto split: option.splits)
    then show "name \<in> fst ` set (al_at t [] info)" by (metis map_of_eq_None_iff)
  qed
  moreover have "entries_at t name info \<noteq> [] \<longleftrightarrow> elements_of t name es \<noteq> []" for name
    using list_all2_lengthD [OF el [of name]] by (metis length_0_conv)
  ultimately show "fst ` set (al_at t [] info) = names_at t es" by (intro set_eqI) (simp only: in_names)
  show "entries_at t name info = items" if "(name, items) \<in> set (al_at t [] info)"
    using map_of_is_SomeI [OF dist that] by (simp add: entries_at_def al_at_def [of name])
qed

context bp_merge_library
begin

lemma MergeElements_writes:
  assumes st: "stands_for serialized info es"
    and merge: "\<And>name. name \<in> names_at t es \<Longrightarrow> writes (merge (entries_at t name info)) (entry name)"
  shows "\<exists>names. distinct names \<and> set names = names_at t es \<and>
    writes (MergeElements L X merge info t) (elements_image L entry names)"
proof -
  define m where "m = al_at t [] info"
  define order where "order = iteration_order X m"
  define names where "names = map fst order"
  have order: "mset order = mset m" by (simp add: order_def iteration)
  then have set: "set order = set m" "length order = length m" "mset names = mset (map fst m)"
    by (auto simp: names_def dest: mset_eq_setD mset_eq_length)
  have "distinct names" using mset_eq_imp_distinct_iff [OF set(3)] stands_for_names(2) [OF st] by (simp add: m_def)
  moreover have names: "set names = names_at t es" using set(1) stands_for_names(1) [OF st, of t] by (simp add: names_def m_def)
  moreover have "writes (MergeElements L X merge info t) (elements_image L entry names)"
    unfolding writes_def
  proof (intro allI impI)
    fix buf :: bytes and pos
    define body where "body = concat (map entry names)"
    assume "pos + length (elements_image L entry names) \<le> length buf"
    then have le: "pos + 12 + length body \<le> length buf" by (simp add: elements_image_def Let_def body_def)
    have im: "elements_image L entry names = (host L 4 (length m) @ host L 8 (length body)) @ body"
      using set(2) by (simp add: elements_image_def Let_def body_def names_def)
    show "MergeElements L X merge info t (buf, pos) =
        Inr (overlay buf pos (elements_image L entry names), pos + length (elements_image L entry names))"
    proof (cases "map_of info t")
      case None
      then have "m = []" by (simp add: m_def al_at_def)
      then have "body = []" using set by (simp add: body_def names_def)
      with None \<open>m = []\<close> show ?thesis
        using puts_Puts_fits [of pos "[host L 4 0, host L 8 0]" buf] le
        by (simp add: MergeElements_def im del: host_0)
    next
      case (Some m')
      then have m': "m' = m" by (simp add: m_def al_at_def)
      have "list_all2 (\<lambda>p bs. writes (case p of (_, items) \<Rightarrow> merge items) bs) order (map entry names)"
        using set(1) stands_for_names(3) [OF st, of _ _ t] merge names
        by (fastforce simp: names_def list_all2_map2 list_all2_same m_def)
      then have "writes (fold_sum (\<lambda>(_, items). merge items) order) body"
        unfolding body_def using writes_fold [of "\<lambda>(_, items). merge items"] by blast
      note fold = writesD [OF this, of "pos + 12"]
      define buf1 where "buf1 = overlay buf pos (host L 4 (length m))"
      define buf2 where "buf2 = overlay buf1 (pos + 12) body"
      have len: "length buf1 = length buf" "length buf2 = length buf" using le by (simp_all add: buf1_def buf2_def)
      have w1: "puts L [Put (host L 4 (length m))] (buf, pos) = Inr (buf1, pos + 4)"
        using puts_Puts_fits [of pos "[host L 4 (length m)]" buf] le by (simp add: buf1_def)
      have w2: "fold_sum (\<lambda>(_, items). merge items) order (buf1, pos + 12) = Inr (buf2, pos + 12 + length body)"
        using fold [of buf1] le len by (simp add: buf2_def)
      have w3: "puts L [Put (host L 8 (length body))] (buf2, pos + 4) = Inr (overlay buf2 (pos + 4) (host L 8 (length body)), pos + 12)"
        using puts_Puts_fits [of "pos + 4" "[host L 8 (length body)]" buf2] le len by simp
      have "overlay buf2 (pos + 4) (host L 8 (length body)) = overlay buf1 (pos + 4) (host L 8 (length body) @ body)"
        using overlay_before [of "pos + 4" "host L 8 (length body)" body buf1] le len by (simp add: buf2_def add.commute [of pos 12])
      also have "\<dots> = overlay buf pos (elements_image L entry names)"
        using overlay_then [of pos "host L 4 (length m)" "host L 8 (length body) @ body" buf] le by (simp add: buf1_def im)
      finally have whole: "overlay buf2 (pos + 4) (host L 8 (length body)) = overlay buf pos (elements_image L entry names)" .
      have pos: "pos + 12 + length body - (pos + 4) - 8 = length body" "length (elements_image L entry names) = 12 + length body"
        by (simp_all add: im)
      show ?thesis
        unfolding MergeElements_def prod.case Some m' option.case w1 bind_sum_simps order_def [symmetric] w2 pos w3 whole
        by (simp add: add.assoc)
    qed
  qed
  ultimately show ?thesis by blast
qed

end

section \<open>All steps\<close>

text \<open>The positions of a step: of its process groups, variables and attributes, and of its end.\<close>

definition step_ptrs ::
    "bp_lib \<Rightarrow> (32 word \<times> bytes) list \<Rightarrow> element list \<Rightarrow> element list \<Rightarrow> string list \<Rightarrow> string list \<Rightarrow> nat \<Rightarrow> nat \<Rightarrow> nat list" where
  "step_ptrs L ps vs as vnames anames t pos =
     (let vars = pos + length (pgs_image L ps t);
          attrs = vars + length (elements_image L (\<lambda>name. merged_entry L (els_at t name vs)) vnames)
      in [pos, vars, attrs, pos + length (step_image L ps vs as vnames anames t)])"

fun steps_table :: "size_t \<Rightarrow> (nat \<Rightarrow> bytes) \<Rightarrow> (nat \<Rightarrow> nat \<Rightarrow> nat list) \<Rightarrow> nat list \<Rightarrow> nat \<Rightarrow> index_table \<Rightarrow> index_table" where
  "steps_table rank img ptrs [] pos table = table"
| "steps_table rank img ptrs (t # ts) pos table =
     steps_table rank img ptrs ts (pos + length (img t)) (table_put rank (of_nat t) (map of_nat (ptrs t pos)) table)"

lemma steps_table_other: "(\<forall>t' \<in> set ts. (of_nat t' :: size_t) \<noteq> s) \<Longrightarrow> table_at rank s (steps_table rank img ptrs ts pos table) = table_at rank s table"
  by (induction ts arbitrary: pos table) (auto simp: table_at_put)

lemma steps_table_at:
  assumes "distinct (ts1 @ t # ts2)" and "\<forall>t' \<in> set (ts1 @ t # ts2). t' < 2 ^ 64"
  shows "table_at rank (of_nat t) (steps_table rank img ptrs (ts1 @ t # ts2) pos table) =
    map of_nat (ptrs t (pos + length (concat (map img ts1))))"
  using assms
proof (induction ts1 arbitrary: pos table)
  case Nil
  have "(of_nat t' :: size_t) \<noteq> of_nat t" if "t' \<in> set ts2" for t'
  proof -
    have "t' < 2 ^ 64" "t < 2 ^ 64" "t' \<noteq> t" using that Nil by auto
    then show ?thesis by (metis unat_of_length)
  qed
  then show ?case by (simp add: steps_table_other table_at_put)
next
  case (Cons t1 ts1)
  have "distinct (ts1 @ t # ts2)" "\<forall>t' \<in> set (ts1 @ t # ts2). t' < 2 ^ 64" using Cons.prems by simp_all
  from Cons.IH [OF this, of "pos + length (img t1)"] show ?case by (simp only: append_Cons steps_table.simps list.map concat.simps length_append add.assoc)
qed

context bp_merge_library
begin

lemma MergeStep_writes:
  assumes little: "IsLittleEndian L" and M: "indices_for serialized M ranks" and t: "t \<in> fst ` set (m_PGIndicesInfo M)"
    and vars: "\<forall>e \<in> set (vars_of ranks). var_entry L Z X e"
  shows "\<exists>vn an. distinct vn \<and> set vn = names_at t (vars_of ranks) \<and> distinct an \<and> set an = names_at t (attrs_of ranks) \<and>
    (let img = step_image L (pgs_of ranks) (vars_of ranks) (attrs_of ranks) vn an t
     in \<forall>table buf pos. pos + length img \<le> length buf \<longrightarrow> MergeStep L X rank M serialized t (table, buf, pos) =
        Inr (table_put rank (of_nat t) (map of_nat (step_ptrs L (pgs_of ranks) (vars_of ranks) (attrs_of ranks) vn an t pos)) table,
          overlay buf pos img, pos + length img))"
proof -
  let ?ps = "pgs_of ranks" and ?vs = "vars_of ranks" and ?as = "attrs_of ranks"
  have pgs: "stands_for_pgs serialized (m_PGIndicesInfo M) ?ps" and v: "stands_for serialized (m_VariableIndicesInfo M) ?vs"
    and a: "stands_for serialized (m_AttributesIndicesInfo M) ?as"
    using M by (simp_all add: indices_for_def)
  define runs where "runs = al_at t [] (m_PGIndicesInfo M)"
  have at: "map_of (m_PGIndicesInfo M) t = Some runs"
    using t by (cases "map_of (m_PGIndicesInfo M) t") (auto simp: runs_def al_at_def map_of_eq_None_iff)
  have "writes (MergePGs L serialized runs) (pgs_image L ?ps t)"
    using pgs by (intro MergePGs_writes) (simp_all add: stands_for_pgs_def pg_info_ok_def runs_def)
  note wp = writesD [OF this]
  have "writes (MergeVar L serialized (entries_at t name (m_VariableIndicesInfo M))) (merged_entry L (els_at t name ?vs))"
    if "name \<in> names_at t ?vs" for name
    using v that vars
    by (intro MergeVar_writes [OF little, of _ _ _ name]) (auto simp: stands_for_def elements_of_els in_names els_at_def el_key_def)
  from MergeElements_writes [OF v, where t = t and merge = "MergeVar L serialized" and
      entry = "\<lambda>name. merged_entry L (els_at t name ?vs)", OF this] obtain vn where vn: "distinct vn" "set vn = names_at t ?vs"
    and "writes (MergeElements L X (MergeVar L serialized) (m_VariableIndicesInfo M) t)
      (elements_image L (\<lambda>name. merged_entry L (els_at t name ?vs)) vn)" by blast
  note wv = writesD [OF this(3)]
  have "writes (MergeAttr serialized (entries_at t name (m_AttributesIndicesInfo M))) (concat (elements_of t name ?as))" for name
    using a by (intro MergeAttr_writes) (simp add: stands_for_def)
  from MergeElements_writes [OF a, where t = t and merge = "MergeAttr serialized" and
      entry = "\<lambda>name. concat (elements_of t name ?as)", OF this] obtain an where an: "distinct an" "set an = names_at t ?as"
    and "writes (MergeElements L X (MergeAttr serialized) (m_AttributesIndicesInfo M) t)
      (elements_image L (\<lambda>name. concat (elements_of t name ?as)) an)" by blast
  note wa = writesD [OF this(3)]
  define ip where "ip = pgs_image L ?ps t"
  define iv where "iv = elements_image L (\<lambda>name. merged_entry L (els_at t name ?vs)) vn"
  define ia where "ia = elements_image L (\<lambda>name. concat (elements_of t name ?as)) an"
  have img: "step_image L ?ps ?vs ?as vn an t = ip @ iv @ ia" by (simp add: step_image_def ip_def iv_def ia_def)
  have step: "MergeStep L X rank M serialized t (table, buf, pos) =
      Inr (table_put rank (of_nat t) (map of_nat (step_ptrs L ?ps ?vs ?as vn an t pos)) table,
        overlay buf pos (ip @ iv @ ia), pos + length (ip @ iv @ ia))"
    if le: "pos + length (ip @ iv @ ia) \<le> length buf" for table buf pos
  proof -
    define p1 p2 p3 where "p1 = pos + length ip" and "p2 = p1 + length iv" and "p3 = p2 + length ia"
    define b1 b2 b3 where "b1 = overlay buf pos ip" and "b2 = overlay b1 p1 iv" and "b3 = overlay b2 p2 ia"
    have p3: "p3 = pos + length (ip @ iv @ ia)" by (simp add: p1_def p2_def p3_def)
    have le': "p1 \<le> length buf" "p2 \<le> length buf" "p3 \<le> length buf" using le p3 by (simp_all add: p1_def p2_def p3_def)
    have len: "length b1 = length buf" "length b2 = length buf"
      using le' by (simp_all add: b1_def b2_def p1_def p2_def)
    have b3: "b3 = overlay buf pos (ip @ iv @ ia)"
      using overlay_then [of pos ip iv buf] overlay_then [of pos "ip @ iv" ia buf] le
      by (simp add: b3_def b2_def b1_def p1_def p2_def add.assoc)
    have m1: "MergePGs L serialized runs (buf, pos) = Inr (b1, p1)"
      using wp [folded ip_def, of pos buf] le' by (simp add: b1_def p1_def)
    have m2: "MergeElements L X (MergeVar L serialized) (m_VariableIndicesInfo M) t (b1, p1) = Inr (b2, p2)"
      using wv [folded iv_def, of p1 b1] le' len by (simp add: b2_def p2_def)
    have m3: "MergeElements L X (MergeAttr serialized) (m_AttributesIndicesInfo M) t (b2, p2) = Inr (b3, p3)"
      using wa [folded ia_def, of p2 b2] le' len by (simp add: b3_def p3_def)
    have ptrs: "step_ptrs L ?ps ?vs ?as vn an t pos = [pos, p1, p2, p3]"
      by (simp add: step_ptrs_def img ip_def [symmetric] iv_def [symmetric] Let_def p3) (simp add: p1_def p2_def)
    show ?thesis
      unfolding MergeStep_def prod.case at option.case m1 m2 m3 bind_sum_simps ptrs b3 [symmetric] p3 [symmetric] by (rule refl)
  qed
  show ?thesis
    unfolding Let_def by (rule exI [of _ vn], rule exI [of _ an], unfold img, intro conjI vn an allI impI, rule step)
qed

lemma SortMergeIndices_writes:
  assumes "IsLittleEndian L" and M: "indices_for serialized M ranks" and "\<forall>e \<in> set (vars_of ranks). var_entry L Z X e"
  defines "ts \<equiv> sort (map fst (m_PGIndicesInfo M))"
  shows "\<exists>vn an. (\<forall>t \<in> set ts. distinct (vn t) \<and> set (vn t) = names_at t (vars_of ranks) \<and>
      distinct (an t) \<and> set (an t) = names_at t (attrs_of ranks)) \<and>
    (let img = \<lambda>t. step_image L (pgs_of ranks) (vars_of ranks) (attrs_of ranks) (vn t) (an t) t;
         ptrs = \<lambda>t. step_ptrs L (pgs_of ranks) (vars_of ranks) (attrs_of ranks) (vn t) (an t) t
     in \<forall>table buf pos. pos + length (concat (map img ts)) \<le> length buf \<longrightarrow>
        SortMergeIndices L X rank M serialized (table, buf, pos) =
          Inr (steps_table rank img ptrs ts pos (AList.update rank [] table), overlay buf pos (concat (map img ts)),
            pos + length (concat (map img ts))))"
proof -
  have "\<forall>t \<in> set ts. \<exists>vn an. distinct vn \<and> set vn = names_at t (vars_of ranks) \<and> distinct an \<and> set an = names_at t (attrs_of ranks) \<and>
    (let img = step_image L (pgs_of ranks) (vars_of ranks) (attrs_of ranks) vn an t
     in \<forall>table buf pos. pos + length img \<le> length buf \<longrightarrow> MergeStep L X rank M serialized t (table, buf, pos) =
        Inr (table_put rank (of_nat t) (map of_nat (step_ptrs L (pgs_of ranks) (vars_of ranks) (attrs_of ranks) vn an t pos)) table,
          overlay buf pos img, pos + length img))"
    using MergeStep_writes [OF assms(1,2) _ assms(3)] by (simp add: ts_def)
  then obtain vn an where names: "\<forall>t \<in> set ts. distinct (vn t) \<and> set (vn t) = names_at t (vars_of ranks) \<and>
      distinct (an t) \<and> set (an t) = names_at t (attrs_of ranks)"
    and step: "\<And>t table buf pos. t \<in> set ts \<Longrightarrow>
      pos + length (step_image L (pgs_of ranks) (vars_of ranks) (attrs_of ranks) (vn t) (an t) t) \<le> length buf \<Longrightarrow>
      MergeStep L X rank M serialized t (table, buf, pos) =
        Inr (table_put rank (of_nat t) (map of_nat (step_ptrs L (pgs_of ranks) (vars_of ranks) (attrs_of ranks) (vn t) (an t) t pos)) table,
          overlay buf pos (step_image L (pgs_of ranks) (vars_of ranks) (attrs_of ranks) (vn t) (an t) t),
          pos + length (step_image L (pgs_of ranks) (vars_of ranks) (attrs_of ranks) (vn t) (an t) t))"
    unfolding Let_def by metis
  define img where "img = (\<lambda>t. step_image L (pgs_of ranks) (vars_of ranks) (attrs_of ranks) (vn t) (an t) t)"
  define ptrs where "ptrs = (\<lambda>t. step_ptrs L (pgs_of ranks) (vars_of ranks) (attrs_of ranks) (vn t) (an t) t)"
  have "fold_sum (MergeStep L X rank M serialized) us (table, buf, pos) =
      Inr (steps_table rank img ptrs us pos table, overlay buf pos (concat (map img us)), pos + length (concat (map img us)))"
    if "set us \<subseteq> set ts" "pos + length (concat (map img us)) \<le> length buf" for us table buf pos
    using that
  proof (induction us arbitrary: table buf pos)
    case (Cons t us)
    have "MergeStep L X rank M serialized t (table, buf, pos) =
        Inr (table_put rank (of_nat t) (map of_nat (ptrs t pos)) table, overlay buf pos (img t), pos + length (img t))"
      using step [of t pos buf table] Cons.prems by (simp add: img_def ptrs_def)
    moreover have "fold_sum (MergeStep L X rank M serialized) us
        (table_put rank (of_nat t) (map of_nat (ptrs t pos)) table, overlay buf pos (img t), pos + length (img t)) =
        Inr (steps_table rank img ptrs us (pos + length (img t)) (table_put rank (of_nat t) (map of_nat (ptrs t pos)) table),
          overlay (overlay buf pos (img t)) (pos + length (img t)) (concat (map img us)), pos + length (img t) + length (concat (map img us)))"
      using Cons.prems by (intro Cons.IH) simp_all
    ultimately show ?case
      using overlay_then [of pos "img t" "concat (map img us)" buf] Cons.prems by (simp add: add.assoc)
  qed simp
  then have "SortMergeIndices L X rank M serialized (table, buf, pos) =
      Inr (steps_table rank img ptrs ts pos (AList.update rank [] table), overlay buf pos (concat (map img ts)),
        pos + length (concat (map img ts)))"
    if "pos + length (concat (map img ts)) \<le> length buf" for table buf pos
    using that by (simp add: SortMergeIndices_def ts_def)
  then show ?thesis using names unfolding Let_def img_def ptrs_def by blast
qed

end

section \<open>The room for the metadata\<close>

text \<open>Disjoint selections from a list are together no larger than the list.\<close>

lemma sum_parts:
  fixes w :: "'e \<Rightarrow> nat"
  assumes "distinct ts"
  shows "sum_list (map (\<lambda>t. sum_list (map w (filter (\<lambda>e. k e = t) es))) ts) \<le> sum_list (map w es)"
proof (induction es)
  case (Cons e es)
  have one: "sum_list (map (\<lambda>t. if k e = t then c else 0) ts) \<le> c" for c :: nat
    using assms by (induction ts) (auto simp: sum_list_0 intro!: order.trans [OF _ le_refl])
  have "sum_list (map (\<lambda>t. sum_list (map w (filter (\<lambda>e. k e = t) (e # es)))) ts) =
      sum_list (map (\<lambda>t. if k e = t then w e else 0) ts) + sum_list (map (\<lambda>t. sum_list (map w (filter (\<lambda>e. k e = t) es))) ts)"
    by (induction ts) auto
  with one [of "w e"] Cons.IH show ?case by simp
qed (simp add: sum_list_0)

lemma length_merged_entry:
  assumes "es \<noteq> []" and "\<forall>e \<in> set es. el_header_size L e = hs \<and> hs \<le> length (el_Bytes e)"
  shows "length (merged_entry L es) \<le> sum_list (map (\<lambda>e. length (el_Bytes e)) es)"
proof -
  obtain e es' where es: "es = e # es'" using assms(1) by (cases es) auto
  have "length (concat (map (el_sets L) fs)) \<le> sum_list (map (\<lambda>e. length (el_Bytes e)) fs)" for fs
    by (induction fs) (simp_all add: el_sets_def)
  moreover have "length (element_header L (merged_header L es)) = hs"
    using assms(2) by (simp add: merged_header_def Let_def es el_header_size_def)
  moreover have "length (el_sets L e) = length (el_Bytes e) - hs" "hs \<le> length (el_Bytes e)"
    using assms(2) by (simp_all add: es el_sets_def)
  ultimately show ?thesis by (simp add: merged_entry_def es add_le_mono)
qed

lemma elements_image_size:
  assumes "distinct names" and "\<And>name. name \<in> set names \<Longrightarrow> length (entry name) \<le> sum_list (map (\<lambda>e. length (el_Bytes e)) (els_at t name es))"
  shows "length (elements_image L entry names) \<le>
    12 + sum_list (map (\<lambda>e. length (el_Bytes e)) (filter (\<lambda>e. unat (el_Step e) = t) es))"
proof -
  have "length (concat (map entry names)) = sum_list (map (\<lambda>name. length (entry name)) names)"
    by (simp add: length_concat comp_def)
  also have "\<dots> \<le> sum_list (map (\<lambda>name. sum_list (map (\<lambda>e. length (el_Bytes e)) (els_at t name es))) names)"
    using assms(2) by (rule sum_list_mono)
  also have "\<dots> = sum_list (map (\<lambda>name. sum_list (map (\<lambda>e. length (el_Bytes e))
      (filter (\<lambda>e. eh_Name (el_Header e) = name) (filter (\<lambda>e. unat (el_Step e) = t) es)))) names)"
    by (simp add: els_at_def el_key_def conj_commute)
  also have "\<dots> \<le> sum_list (map (\<lambda>e. length (el_Bytes e)) (filter (\<lambda>e. unat (el_Step e) = t) es))"
    by (rule sum_parts [OF assms(1)])
  finally show ?thesis by (simp add: elements_image_def Let_def)
qed

text \<open>What the ranks have sent, and the 40 bytes of counts and lengths of each step, suffice.\<close>

lemma new_attributes_size: "sum_list (map w (new_attributes known es)) \<le> sum_list (map (w :: element \<Rightarrow> nat) es)"
  by (induction known es rule: new_attributes.induct) auto

lemma ranks_size:
  "length (concat (map snd (pgs_of ranks))) + sum_list (map (\<lambda>e. length (el_Bytes e)) (vars_of ranks)) +
     sum_list (map (\<lambda>e. length (el_Bytes e)) (attrs_of ranks)) \<le> length (concat (map (rank_bytes L) ranks))"
proof (induction ranks rule: rev_induct)
  case (snoc r ranks)
  have "length (rank_bytes L r) = 36 + length (concat (map snd (ri_PGs r))) + sum_list (map (\<lambda>e. length (el_Bytes e)) (ri_Vars r)) +
      sum_list (map (\<lambda>e. length (el_Bytes e)) (ri_Attrs r))"
    by (simp add: rank_bytes_def length_concat comp_def)
  then show ?case
    using snoc new_attributes_size [of "\<lambda>e. length (el_Bytes e)" "attrs_of ranks" "ri_Attrs r"] by simp
qed simp

context bp_merge_library
begin

lemma step_images_size:
  assumes "distinct ts" and vars: "\<forall>e \<in> set vs. var_entry L Z X e"
    and names: "\<forall>t \<in> set ts. distinct (vn t) \<and> set (vn t) = names_at t vs \<and> distinct (an t)"
  shows "length (concat (map (\<lambda>t. step_image L ps vs as (vn t) (an t) t) ts)) \<le> 40 * length ts +
    (length (concat (map snd ps)) + sum_list (map (\<lambda>e. length (el_Bytes e)) vs) + sum_list (map (\<lambda>e. length (el_Bytes e)) as))"
proof -
  let ?len = "\<lambda>e. length (el_Bytes e)"
  let ?pg = "\<lambda>t. sum_list (map (\<lambda>e. length (snd e)) (filter (\<lambda>e. unat (fst e) = t) ps))"
  let ?at = "\<lambda>es t. sum_list (map ?len (filter (\<lambda>e. unat (el_Step e) = t) es))"
  have "length (merged_entry L (els_at t name vs)) \<le> sum_list (map ?len (els_at t name vs))" if "name \<in> names_at t vs" for t name
  proof (rule length_merged_entry)
    show "els_at t name vs \<noteq> []" using that by (simp add: in_names elements_of_els)
    show "\<forall>e \<in> set (els_at t name vs). el_header_size L e = 23 + length name \<and> 23 + length name \<le> length (el_Bytes e)"
      using vars var_entry_bytes(1,2) by (auto simp: els_at_def el_key_def el_header_size_def var_entry_def)
  qed
  then have v: "length (elements_image L (\<lambda>name. merged_entry L (els_at t name vs)) (vn t)) \<le> 12 + ?at vs t" if "t \<in> set ts" for t
    using names that by (intro elements_image_size) auto
  have a: "length (elements_image L (\<lambda>name. concat (elements_of t name as)) (an t)) \<le> 12 + ?at as t" if "t \<in> set ts" for t
    using names that by (intro elements_image_size) (auto simp: elements_of_els length_concat comp_def)
  have p: "length (pgs_image L ps t) = 16 + ?pg t" for t
    by (simp add: pgs_image_def Let_def records_of_def length_concat comp_def)
  have "length (concat (map (\<lambda>t. step_image L ps vs as (vn t) (an t) t) ts)) =
      sum_list (map (\<lambda>t. length (step_image L ps vs as (vn t) (an t) t)) ts)" by (simp add: length_concat comp_def)
  also have "\<dots> \<le> sum_list (map (\<lambda>t. 40 + (?pg t + ?at vs t + ?at as t)) ts)"
  proof (rule sum_list_mono)
    show "length (step_image L ps vs as (vn t) (an t) t) \<le> 40 + (?pg t + ?at vs t + ?at as t)" if "t \<in> set ts" for t
      using v [OF that] a [OF that] by (simp add: step_image_def p)
  qed
  also have "\<dots> = 40 * length ts + (sum_list (map ?pg ts) + sum_list (map (?at vs) ts) + sum_list (map (?at as) ts))"
    by (simp add: sum_list_addf sum_list_const_mult sum_list_triv)
  also have "\<dots> \<le> 40 * length ts + (sum_list (map (\<lambda>e. length (snd e)) ps) + sum_list (map ?len vs) + sum_list (map ?len as))"
    using sum_parts [OF assms(1), of "\<lambda>e. length (snd e)" "\<lambda>e. unat (fst e)" ps]
      sum_parts [OF assms(1), of ?len "\<lambda>e. unat (el_Step e)" vs] sum_parts [OF assms(1), of ?len "\<lambda>e. unat (el_Step e)" as]
    by linarith
  finally show ?thesis by (simp add: length_concat comp_def)
qed

end

section \<open>The entries that the writer makes\<close>

text \<open>What \<open>PutVariableMetadataInIndex\<close> has put into an index is an entry that is found.\<close>

definition index_element :: "bp_lib \<Rightarrow> Variable \<Rightarrow> 32 word \<Rightarrow> 32 word \<Rightarrow> bytes list \<Rightarrow> element" where
  "index_element L variable member step blocks =
     \<lparr>el_Header = entry_header variable member (19 + length (v_Name variable) + length (concat blocks)) (length blocks),
      el_Step = step, el_Bytes = index_entry L variable member blocks\<rparr>"

lemma index_element_var_entry:
  assumes "blocks \<noteq> []" and "hd blocks = characteristics_block L n (step_body L Z step rest)"
    and "length (index_entry L variable member blocks) < 2 ^ 32" and "length (v_Name variable) < 2 ^ 16" and "length blocks < 2 ^ 64"
    and "is_std_type X (type_enum variable) \<or> type_enum variable = type_string_array X"
  shows "var_entry L Z X (index_element L variable member step blocks)"
proof -
  let ?h = "entry_header variable member (19 + length (v_Name variable) + length (concat blocks)) (length blocks)"
  have "header_ok ?h" "eh_GroupName ?h = []" "eh_DataType ?h = type_enum variable"
    and "eh_Length ?h + 4 = length (index_entry L variable member blocks)"
    using assms(3-5) unsigned_less [of member, where 'a = nat] by (simp_all add: header_ok_def entry_header_def)
  moreover obtain blocks' where "blocks = characteristics_block L n (step_body L Z step rest) # blocks'"
    using assms(1,2) by (cases blocks) auto
  then have "index_entry L variable member blocks = element_header L ?h @ [n] @ host L 4 (length (step_body L Z step rest)) @
      [characteristic_time_index Z] @ host L 4 (unat step) @ rest @ concat blocks'"
    by (simp add: index_entry_def characteristics_block_def step_body_def)
  ultimately show ?thesis
    using assms(6) by (fastforce simp: var_entry_def element_entry_def index_element_def Let_def)
qed

section \<open>The collective metadata\<close>

text \<open>The table of the writer has one entry for each step.\<close>

lemma length_update_new: "map_of m k = None \<Longrightarrow> length (AList.update k v m) = Suc (length m)"
  by (induction m) (auto split: if_splits)

lemma steps_table_length:
  assumes "distinct ts" and "\<forall>t \<in> set ts. t < 2 ^ 64 \<and> map_of (al_at rank [] table) (of_nat t) = None"
  shows "length (al_at rank [] (steps_table rank img ptrs ts pos table)) = length (al_at rank [] table) + length ts"
  using assms
proof (induction ts arbitrary: pos table)
  case (Cons t ts)
  have ne: "(of_nat t' :: size_t) \<noteq> of_nat t" if "t' \<in> set ts" for t'
  proof -
    have "t < 2 ^ 64" "t' < 2 ^ 64" "t \<noteq> t'" using Cons.prems that by auto
    then show ?thesis by (simp add: word_unat_eq_iff unat_of_nat)
  qed
  have "length (al_at rank [] (table_put rank (of_nat t) (map of_nat (ptrs t pos)) table)) = Suc (length (al_at rank [] table))"
    using Cons.prems by (simp add: table_put_def length_update_new)
  then show ?case
    using Cons.prems ne by (subst steps_table.simps, subst Cons.IH) (auto simp: table_put_def update_conv')
qed simp

text \<open>The indices of a writer as those of a rank, and the steps of all ranks.\<close>

definition writer_rank :: "bp4_writer \<Rightarrow> rank_indices \<Rightarrow> bool" where
  "writer_rank W r \<longleftrightarrow>
     (let ms = w_MetadataSet W
      in ri_Rank r = 0 \<and> ri_Count r = unat (ms_DataPGCount ms) \<and> concat (map snd (ri_PGs r)) = ms_PGIndex_Buffer ms \<and>
         concat (map el_Bytes (ri_Vars r)) = index_buffers (ms_VarsIndices ms) \<and>
         concat (map el_Bytes (ri_Attrs r)) = index_buffers (ms_AttributesIndices ms))"

definition steps_of :: "rank_indices list \<Rightarrow> nat list" where
  "steps_of ranks = sort (remdups (map (\<lambda>p. unat (fst p)) (pgs_of ranks)))"

text \<open>The metadata of all steps one behind the other, for given orders of the names.\<close>

definition collective_image ::
    "bp_lib \<Rightarrow> rank_indices list \<Rightarrow> (nat \<Rightarrow> string list) \<Rightarrow> (nat \<Rightarrow> string list) \<Rightarrow> nat list \<Rightarrow> bytes" where
  "collective_image L ranks vn an ts =
     concat (map (\<lambda>t. step_image L (pgs_of ranks) (vars_of ranks) (attrs_of ranks) (vn t) (an t) t) ts)"

definition collective_ptrs ::
    "bp_lib \<Rightarrow> rank_indices list \<Rightarrow> (nat \<Rightarrow> string list) \<Rightarrow> (nat \<Rightarrow> string list) \<Rightarrow> nat \<Rightarrow> nat \<Rightarrow> nat list" where
  "collective_ptrs L ranks vn an t pos = step_ptrs L (pgs_of ranks) (vars_of ranks) (attrs_of ranks) (vn t) (an t) t pos"

definition names_ok :: "rank_indices list \<Rightarrow> (nat \<Rightarrow> string list) \<Rightarrow> (nat \<Rightarrow> string list) \<Rightarrow> bool" where
  "names_ok ranks vn an \<longleftrightarrow> (\<forall>t \<in> set (steps_of ranks). distinct (vn t) \<and> set (vn t) = names_at t (vars_of ranks) \<and>
     distinct (an t) \<and> set (an t) = names_at t (attrs_of ranks))"

lemma sort_distinct_set: "distinct xs \<Longrightarrow> set xs = set ys \<Longrightarrow> sort xs = sort (remdups (ys :: nat list))"
  by (rule sorted_distinct_set_unique) simp_all

lemma steps_of_info:
  assumes "indices_for serialized M ranks"
  shows "sort (map fst (m_PGIndicesInfo M)) = steps_of ranks"
  unfolding steps_of_def
proof (rule sort_distinct_set)
  have st: "stands_for_pgs serialized (m_PGIndicesInfo M) (pgs_of ranks)" using assms by (simp add: indices_for_def)
  then show "distinct (map fst (m_PGIndicesInfo M))" by (simp add: stands_for_pgs_def pg_info_ok_def)
  show "set (map fst (m_PGIndicesInfo M)) = set (map (\<lambda>p. unat (fst p)) (pgs_of ranks))"
    using stands_for_pgs_steps [OF st] by simp
qed

context bp_merge_library
begin

lemma AggregateCollectiveMetadata_image:
  assumes little: "IsLittleEndian L" and W: "writer_rank W r" and ok: "\<forall>r \<in> set (r # rs). rank_ok L Z X r"
    and vars: "\<forall>e \<in> set (vars_of (r # rs)). var_entry L Z X e"
    and gather: "\<And>own. gather own = (own @ concat (map (rank_bytes L) rs), length own + length (concat (map (rank_bytes L) rs)))"
    and small: "length (concat (map (rank_bytes L) (r # rs))) < 2 ^ 64"
    and out: "m_Position out \<le> length (m_Buffer out)"
  shows "\<exists>W' M' b vn an. AggregateCollectiveMetadata L X 0 gather inMetadata W M out = Some (Inr (W', M', b)) \<and> names_ok (r # rs) vn an \<and>
    (let img = collective_image L (r # rs) vn an; ts = steps_of (r # rs); pos = m_Position out
     in m_Buffer b = take pos (m_Buffer out) @ img ts \<and> m_Position b = pos + length (img ts) \<and>
        m_AbsolutePosition b = (if inMetadata then of_nat (m_Position b) else m_AbsolutePosition out + of_nat (m_Position b)) \<and>
        (\<forall>ts1 t ts2. ts = ts1 @ t # ts2 \<longrightarrow>
          table_at 0 (of_nat t) (w_MetadataIndexTable W') = map of_nat (collective_ptrs L (r # rs) vn an t (pos + length (img ts1)))) \<and>
        length (al_at 0 [] (w_MetadataIndexTable W')) = length ts)"
proof -
  define ranks where "ranks = r # rs"
  define serialized where "serialized = concat (map (rank_bytes L) ranks)"
  define pos where "pos = m_Position out"
  obtain W1 where ser: "SerializeAllIndices L 0 W = Inr W1" "w_SerializedIndices W1 = rank_bytes L r"
    using W unfolding SerializeAllIndices_image by (simp add: writer_rank_def Let_def rank_bytes_def)
  have gath: "gather (w_SerializedIndices W1) = (serialized, length serialized)"
    by (simp add: gather ser(2) serialized_def ranks_def)
  have "indices_for serialized no_indices []" by (simp add: indices_for_def no_indices_def)
  moreover have "holds_at serialized 0 (concat (map (rank_bytes L) ranks))" by (simp add: serialized_def holds_at_def)
  ultimately obtain M1 where loc: "LocateRanks L X serialized (length serialized) no_indices 0 = Some (Inr M1)"
    and M1: "indices_for serialized M1 ranks"
    using LocateRanks_finds [of ranks serialized no_indices "[]" 0 "length serialized"] ok small
    by (auto simp: ranks_def [symmetric] serialized_def)
  define ts where "ts = steps_of ranks"
  have ts: "sort (map fst (m_PGIndicesInfo M1)) = ts" using steps_of_info [OF M1] by (simp add: ts_def)
  have dist: "distinct ts" by (simp add: ts_def steps_of_def)
  obtain vn an where names: "names_ok ranks vn an"
    and merge: "\<And>table buf. pos + length (collective_image L ranks vn an ts) \<le> length buf \<Longrightarrow>
        SortMergeIndices L X 0 M1 serialized (table, buf, pos) =
          Inr (steps_table 0 (\<lambda>t. collective_image L ranks vn an [t]) (collective_ptrs L ranks vn an) ts pos (AList.update 0 [] table),
            overlay buf pos (collective_image L ranks vn an ts), pos + length (collective_image L ranks vn an ts))"
    using SortMergeIndices_writes [OF little M1 vars [folded ranks_def], of 0]
    unfolding ts Let_def names_ok_def collective_image_def collective_ptrs_def [abs_def] ts_def by auto
  define im where "im = collective_image L ranks vn an ts"
  have count: "length (m_PGIndicesInfo M1) = length ts" using ts by (metis length_map length_sort)
  have "length im \<le> 40 * length ts + length serialized"
    unfolding im_def collective_image_def
    using step_images_size [OF dist vars [folded ranks_def], of vn an "pgs_of ranks" "attrs_of ranks"] names
      ranks_size [of ranks L] unfolding serialized_def [symmetric] names_ok_def ts_def by fastforce
  define buf where "buf = resized (pos + length serialized + length ts * (16 + 12 + 12)) (m_Buffer out)"
  have fit: "pos + length im \<le> length buf" using \<open>length im \<le> _\<close> by (simp add: buf_def)
  have pre: "take pos buf = take pos (m_Buffer out)" using out by (simp add: buf_def pos_def take_resized)
  let ?table = "steps_table 0 (\<lambda>t. collective_image L ranks vn an [t]) (collective_ptrs L ranks vn an) ts pos
    (AList.update 0 [] (w_MetadataIndexTable W1))"
  have run: "AggregateCollectiveMetadataIndices L X 0 gather W M out =
      Some (Inr (W1\<lparr>w_MetadataIndexTable := ?table\<rparr>, M1, out\<lparr>m_Buffer := overlay buf pos im, m_Position := pos + length im\<rparr>))"
    using merge [of buf] fit
    by (simp add: AggregateCollectiveMetadataIndices_def ser(1) gath loc Let_def count buf_def [symmetric, simplified] pos_def [symmetric] im_def)
  have cut: "resized (pos + length im) (overlay buf pos im) = take pos (m_Buffer out) @ im"
    using fit pre out [folded pos_def] by (simp add: resized_def overlay_def min_def)
  have "\<forall>t \<in> set ts. t < 2 ^ 64"
  proof
    fix t assume "t \<in> set ts"
    then obtain p :: "32 word \<times> bytes" where "t = unat (fst p)" by (auto simp: ts_def steps_of_def)
    then show "t < 2 ^ 64" using unsigned_less [of "fst p", where 'a = nat] by simp
  qed
  then have table: "table_at 0 (of_nat t) ?table = map of_nat (collective_ptrs L ranks vn an t (pos + length (collective_image L ranks vn an ts1)))"
    if "ts = ts1 @ t # ts2" for ts1 t ts2
    using steps_table_at [of ts1 t ts2 0 "\<lambda>t. collective_image L ranks vn an [t]"] dist unfolding that
    by (simp add: collective_image_def)
  have "length (al_at 0 [] ?table) = length ts"
    using steps_table_length [OF dist] \<open>\<forall>t \<in> set ts. t < 2 ^ 64\<close> by simp
  note table = table this
  let ?a = "if inMetadata then of_nat (pos + length im) else m_AbsolutePosition out + of_nat (pos + length im)"
  define W' where "W' = W1\<lparr>w_MetadataIndexTable := ?table\<rparr>"
  define b where "b = \<lparr>m_Buffer = take pos (m_Buffer out) @ im, m_Position = pos + length im, m_AbsolutePosition = ?a\<rparr>"
  have "AggregateCollectiveMetadata L X 0 gather inMetadata W M out = Some (Inr (W', M1, b))"
    unfolding AggregateCollectiveMetadata_def run by (simp add: Let_def resize_zeros cut W'_def b_def)
  moreover have "w_MetadataIndexTable W' = ?table" by (simp add: W'_def)
  moreover have "m_Buffer b = take pos (m_Buffer out) @ im" "m_Position b = pos + length im" "m_AbsolutePosition b = ?a"
    by (simp_all add: b_def)
  ultimately show ?thesis
    unfolding ranks_def [symmetric] Let_def ts_def [symmetric] pos_def [symmetric]
    using names table by (intro exI [of _ W'] exI [of _ M1] exI [of _ b] exI [of _ vn] exI [of _ an]) (simp add: im_def)
qed

end

end
