(* ===== verification/Bp4_Parse.thy ===== *)
theory Bp4_Parse
  imports Bp4_Merge
begin

text \<open>
  Reading the metadata of a step (BP4Deserializer.cpp): \<open>ParsePGIndexPerStep\<close>,
  \<open>ParseVariablesIndexPerStep\<close>, \<open>ParseAttributesIndexPerStep\<close> and \<open>ParseMetadata\<close>, which calls
  them for the steps that are new or selected. What is done with an element that was read
  (\<open>DefineVariableInEngineIOPerStep\<close>, \<open>DefineAttributeInEngineIO\<close>) is an argument.
\<close>

section \<open>The state\<close>

record bp4_parser = bp4_reader +
  d_DataPGCount :: size_t
  d_StepsCount :: size_t
  d_CurrentStep :: size_t
  d_IsRowMajor :: bool
  d_ReverseDimensions :: bool

text \<open>
  \<open>m_MetadataIndexTable[file][step][k]\<close>. An absent entry is made by \<open>operator[]\<close>, and is empty:
  the last index is then out of range.
\<close>

definition table_ptr :: "index_table \<Rightarrow> size_t \<Rightarrow> size_t \<Rightarrow> nat \<Rightarrow> failure + nat" where
  "table_ptr table fileId step k =
     (let ptrs = table_at fileId step table
      in if k < length ptrs then Inr (unat (ptrs ! k)) else Inl (Crash Out_of_bounds))"

section \<open>ParsePGIndexPerStep\<close>

definition ParsePGIndexPerStep ::
    "bp_lib \<Rightarrow> bp_merge \<Rightarrow> bp4_parser \<Rightarrow> bytes \<Rightarrow> string \<Rightarrow> size_t \<Rightarrow> size_t \<Rightarrow> failure + bp4_parser" where
  "ParsePGIndexPerStep L X D buffer hostLanguage submetadatafileId step =
     bind_sum (table_ptr (m_MetadataIndexTable D) submetadatafileId step 0) (\<lambda>position.
     bind_sum (ReadValue L 8 buffer position (mf_IsLittleEndian D)) (\<lambda>(count, position).
     bind_sum (ReadValue L 8 buffer position (mf_IsLittleEndian D)) (\<lambda>(_, position).
     bind_sum (ReadProcessGroupIndexHeader X buffer position (mf_IsLittleEndian D)) (\<lambda>(index, _).
       (let D = D\<lparr>d_DataPGCount := d_DataPGCount D + of_nat count\<rparr>;
            D = (if pgi_IsColumnMajor index = CHR ''y'' then D\<lparr>d_IsRowMajor := False\<rparr> else D);
            D = (if d_IsRowMajor D \<noteq> IsRowMajor L hostLanguage then D\<lparr>d_ReverseDimensions := True\<rparr> else D)
        in Inr D)))))"

section \<open>ParseVariablesIndexPerStep and ParseAttributesIndexPerStep\<close>

text \<open>
  The loop over the elements: each is visited, then the position is moved behind it by its
  length. Nothing bounds the position by the buffer.
\<close>

type_synonym 'io visitor = "bytes \<Rightarrow> nat \<Rightarrow> 'io \<Rightarrow> failure + 'io"

partial_function (option) parse_elements ::
    "bp_lib \<Rightarrow> bool \<Rightarrow> 'io visitor \<Rightarrow> bytes \<Rightarrow> nat \<Rightarrow> nat \<Rightarrow> nat \<Rightarrow> 'io \<Rightarrow> (failure + 'io) option" where
  "parse_elements L little visit buffer startPosition len position io =
     (if position - startPosition < len then
        (case bind_sum (visit buffer position io) (\<lambda>io.
            bind_sum (ReadValue L 4 buffer position little) (\<lambda>(elementIndexSize, position). Inr (io, position + elementIndexSize))) of
           Inl e \<Rightarrow> Some (Inl e)
         | Inr (io, position) \<Rightarrow> parse_elements L little visit buffer startPosition len position io)
      else Some (Inr io))"

definition parse_index ::
    "bp_lib \<Rightarrow> bp4_parser \<Rightarrow> 'io visitor \<Rightarrow> bytes \<Rightarrow> size_t \<Rightarrow> size_t \<Rightarrow> nat \<Rightarrow> 'io \<Rightarrow> (failure + 'io) option" where
  "parse_index L D visit buffer submetadatafileId step k io =
     (case bind_sum (table_ptr (m_MetadataIndexTable D) submetadatafileId step k) (\<lambda>position.
         bind_sum (ReadValue L 4 buffer position (mf_IsLittleEndian D)) (\<lambda>(count, position).
           ReadValue L 8 buffer position (mf_IsLittleEndian D))) of
        Inl e \<Rightarrow> Some (Inl e)
      | Inr (len, position) \<Rightarrow> parse_elements L (mf_IsLittleEndian D) visit buffer position len position io)"

definition ReadVariableIndexPerStep ::
    "bp_lib \<Rightarrow> bp_merge \<Rightarrow> bool \<Rightarrow> (ElementIndexHeader \<Rightarrow> bytes \<Rightarrow> nat \<Rightarrow> size_t \<Rightarrow> 'io \<Rightarrow> failure + 'io) \<Rightarrow> size_t \<Rightarrow> 'io visitor" where
  "ReadVariableIndexPerStep L X little DefineVariable step buffer position io =
     bind_sum (ReadElementIndexHeader L buffer position little) (\<lambda>(header, position).
       if is_std_type X (eh_DataType header) then DefineVariable header buffer position step io else Inr io)"

definition ParseVariablesIndexPerStep ::
    "bp_lib \<Rightarrow> bp_merge \<Rightarrow> (ElementIndexHeader \<Rightarrow> bytes \<Rightarrow> nat \<Rightarrow> size_t \<Rightarrow> 'io \<Rightarrow> failure + 'io) \<Rightarrow> bp4_parser \<Rightarrow> bytes \<Rightarrow>
       size_t \<Rightarrow> size_t \<Rightarrow> 'io \<Rightarrow> (failure + 'io) option" where
  "ParseVariablesIndexPerStep L X DefineVariable D buffer submetadatafileId step io =
     parse_index L D (ReadVariableIndexPerStep L X (mf_IsLittleEndian D) DefineVariable step) buffer submetadatafileId step 1 io"

definition ReadAttributeIndex ::
    "bp_lib \<Rightarrow> bp_merge \<Rightarrow> bool \<Rightarrow> (ElementIndexHeader \<Rightarrow> bytes \<Rightarrow> nat \<Rightarrow> 'io \<Rightarrow> failure + 'io) \<Rightarrow> 'io visitor" where
  "ReadAttributeIndex L X little DefineAttribute buffer position io =
     bind_sum (ReadElementIndexHeader L buffer position little) (\<lambda>(header, position).
       if is_attribute_type X (eh_DataType header) \<or> eh_DataType header = type_string_array X
       then DefineAttribute header buffer position io else Inr io)"

definition ParseAttributesIndexPerStep ::
    "bp_lib \<Rightarrow> bp_merge \<Rightarrow> (ElementIndexHeader \<Rightarrow> bytes \<Rightarrow> nat \<Rightarrow> 'io \<Rightarrow> failure + 'io) \<Rightarrow> bp4_parser \<Rightarrow> bytes \<Rightarrow>
       size_t \<Rightarrow> size_t \<Rightarrow> 'io \<Rightarrow> (failure + 'io) option" where
  "ParseAttributesIndexPerStep L X DefineAttribute D buffer submetadatafileId step io =
     parse_index L D (ReadAttributeIndex L X (mf_IsLittleEndian D) DefineAttribute) buffer submetadatafileId step 2 io"

section \<open>ParseMetadata\<close>

text \<open>\<open>std::getline\<close> with a comma until the stream ends, and \<open>std::stoi\<close>.\<close>

function comma_items :: "string \<Rightarrow> string list" where
  "comma_items s =
     (if s = [] then []
      else takeWhile (\<lambda>c. c \<noteq> CHR '','') s #
        (case dropWhile (\<lambda>c. c \<noteq> CHR '','') s of [] \<Rightarrow> [] | _ # rest \<Rightarrow> comma_items rest))"
  by pat_completeness auto
termination
proof (relation "measure length")
  fix s c and rest :: string
  assume "dropWhile (\<lambda>c. c \<noteq> CHR '','') s = c # rest"
  then have "length (c # rest) \<le> length s" by (metis length_dropWhile_le)
  then show "(rest, s) \<in> measure length" by simp
qed simp

declare comma_items.simps [simp del]

definition is_space :: "char \<Rightarrow> bool" where
  "is_space c \<longleftrightarrow> c \<in> {CHR '' '', CHR 0x09, CHR 0x0A, CHR 0x0B, CHR 0x0C, CHR 0x0D}"

definition is_digit :: "char \<Rightarrow> bool" where
  "is_digit c \<longleftrightarrow> (48 \<le> (of_char c :: nat) \<and> (of_char c :: nat) \<le> 57)"

definition stoi :: "string \<Rightarrow> failure + int" where
  "stoi s =
     (let s = dropWhile is_space s;
          negative = (case s of CHR ''-'' # _ \<Rightarrow> True | _ \<Rightarrow> False);
          digits = takeWhile is_digit (case s of c # s' \<Rightarrow> if c = CHR ''-'' \<or> c = CHR ''+'' then s' else s | [] \<Rightarrow> []);
          v = foldl (\<lambda>n c. 10 * n + (of_char c - 48)) 0 digits :: int;
          v = (if negative then - v else v)
      in if digits = [] then Inl (Foreign_exn ''stoi: invalid_argument'')
         else if v < - (2 ^ 31) \<or> 2 ^ 31 \<le> v then Inl (Foreign_exn ''stoi: out_of_range'') else Inr v)"

fun selected_steps :: "string list \<Rightarrow> failure + size_t list" where
  "selected_steps [] = Inr []"
| "selected_steps (item # items) =
     bind_sum (stoi item) (\<lambda>i. bind_sum (selected_steps items) (\<lambda>is. Inr (of_int i # is)))"

text \<open>The three parts of a step, on a state of the deserializer and of the engine.\<close>

definition ParseStep ::
    "bp_lib \<Rightarrow> bp_merge \<Rightarrow> (ElementIndexHeader \<Rightarrow> bytes \<Rightarrow> nat \<Rightarrow> size_t \<Rightarrow> 'io \<Rightarrow> failure + 'io) \<Rightarrow>
       (ElementIndexHeader \<Rightarrow> bytes \<Rightarrow> nat \<Rightarrow> 'io \<Rightarrow> failure + 'io) \<Rightarrow> string \<Rightarrow> bytes \<Rightarrow> size_t \<Rightarrow>
       bp4_parser \<times> 'io \<Rightarrow> (failure + (bp4_parser \<times> 'io) \<times> size_t) option" where
  "ParseStep L X DefineVariable DefineAttribute hostLanguage buffer step Dio =
     (case Dio of (D, io) \<Rightarrow>
       (case ParsePGIndexPerStep L X D buffer hostLanguage 0 step of
          Inl e \<Rightarrow> Some (Inl e)
        | Inr D \<Rightarrow>
            (case ParseVariablesIndexPerStep L X DefineVariable D buffer 0 step io of
               None \<Rightarrow> None
             | Some (Inl e) \<Rightarrow> Some (Inl e)
             | Some (Inr io) \<Rightarrow>
                 map_option (\<lambda>r. bind_sum r (\<lambda>io.
                     bind_sum (table_ptr (m_MetadataIndexTable D) 0 step 3) (\<lambda>end. Inr ((D, io), of_nat end))))
                   (ParseAttributesIndexPerStep L X DefineAttribute D buffer 0 step io))))"

fun parse_steps ::
    "(size_t \<Rightarrow> 's \<Rightarrow> (failure + 's \<times> size_t) option) \<Rightarrow> size_t list \<Rightarrow> nat list \<Rightarrow> 's \<Rightarrow> size_t \<Rightarrow> (failure + 's \<times> size_t) option" where
  "parse_steps parse selected [] s lastposition = Some (Inr (s, lastposition))"
| "parse_steps parse selected (i # is) s lastposition =
     (if selected = [] \<or> of_nat i \<in> set selected then
        (case parse (of_nat i + 1) s of
           None \<Rightarrow> None
         | Some (Inl e) \<Rightarrow> Some (Inl e)
         | Some (Inr (s, lastposition)) \<Rightarrow> parse_steps parse selected is s lastposition)
      else parse_steps parse selected is s lastposition)"

text \<open>\<open>parameters\<close> is \<open>engine.m_IO.m_Parameters\<close>.\<close>

definition ParseMetadata ::
    "bp_lib \<Rightarrow> bp_merge \<Rightarrow> (ElementIndexHeader \<Rightarrow> bytes \<Rightarrow> nat \<Rightarrow> size_t \<Rightarrow> 'io \<Rightarrow> failure + 'io) \<Rightarrow>
       (ElementIndexHeader \<Rightarrow> bytes \<Rightarrow> nat \<Rightarrow> 'io \<Rightarrow> failure + 'io) \<Rightarrow> (string \<rightharpoonup> string) \<Rightarrow> string \<Rightarrow> string \<Rightarrow> bytes \<Rightarrow> bool \<Rightarrow>
       bp4_parser \<Rightarrow> 'io \<Rightarrow> (failure + (bp4_parser \<times> 'io) \<times> size_t) option" where
  "ParseMetadata L X DefineVariable DefineAttribute parameters engineName hostLanguage buffer firstStep D io =
     (let oldSteps = (if firstStep then 0 else d_StepsCount D);
          allSteps = of_nat (length (al_at 0 [] (m_MetadataIndexTable D)));
          D = D\<lparr>d_StepsCount := allSteps, d_CurrentStep := allSteps - 1\<rparr>
      in (case (case parameters engineName of None \<Rightarrow> Inr [] | Some s \<Rightarrow> selected_steps (comma_items s)) of
            Inl e \<Rightarrow> Some (Inl e)
          | Inr selected \<Rightarrow>
              parse_steps (ParseStep L X DefineVariable DefineAttribute hostLanguage buffer) selected
                [unat oldSteps..<unat allSteps] (D, io) 0))"

section \<open>InitPostOperatorBlockData\<close>

text \<open>The first operation whose type is one of \<open>m_TransformTypes\<close>; \<open>Info\<close> is its map of strings.\<close>

record BlockOperationInfo =
  bo_Info :: "string \<rightharpoonup> string"
  bo_PreShape :: "size_t list"
  bo_PreStart :: "size_t list"
  bo_PreCount :: "size_t list"
  bo_PreSizeOf :: nat
  bo_PayloadOffset :: size_t
  bo_PayloadSize :: size_t

fun find_operation :: "string set \<Rightarrow> BlockOperationInfo list \<Rightarrow> nat \<Rightarrow> failure + nat" where
  "find_operation transformTypes [] index = Inr index"
| "find_operation transformTypes (info # infos) index =
     (case bo_Info info ''Type'' of
        None \<Rightarrow> Inl (Foreign_exn ''map::at'')
      | Some type \<Rightarrow> if type \<in> transformTypes then Inr index else find_operation transformTypes infos (index + 1))"

definition InitPostOperatorBlockData :: "string set \<Rightarrow> BlockOperationInfo list \<Rightarrow> failure + BlockOperationInfo" where
  "InitPostOperatorBlockData transformTypes blockOperationsInfo =
     bind_sum (find_operation transformTypes blockOperationsInfo 0) (\<lambda>index.
       if index < length blockOperationsInfo then Inr (blockOperationsInfo ! index) else Inl (Foreign_exn ''vector::at''))"

lemma find_operation_spec:
  assumes "\<forall>info \<in> set infos. bo_Info info ''Type'' \<noteq> None"
  shows "find_operation transformTypes infos n =
    Inr (n + length (takeWhile (\<lambda>info. the (bo_Info info ''Type'') \<notin> transformTypes) infos))"
  using assms by (induction infos arbitrary: n) auto

section \<open>What is read\<close>

lemma host_Nil [simp]: "host L w n = [] \<longleftrightarrow> w = 0"
  by (metis length_0_conv length_host)

text \<open>The elements of an index: each starts with its length.\<close>

definition framed :: "bp_lib \<Rightarrow> bytes \<Rightarrow> bool" where
  "framed L bs \<longleftrightarrow> (\<exists>n rest. bs = host L 4 n @ rest \<and> n + 4 = length bs \<and> n < 2 ^ 32)"

fun visits :: "'io visitor \<Rightarrow> bytes \<Rightarrow> bytes list \<Rightarrow> nat \<Rightarrow> 'io \<Rightarrow> failure + 'io" where
  "visits visit buffer [] pos io = Inr io"
| "visits visit buffer (bs # bss) pos io = bind_sum (visit buffer pos io) (visits visit buffer bss (pos + length bs))"

context bp_library
begin

lemma parse_elements_visits:
  assumes "\<forall>bs \<in> set bss. framed L bs" and "holds_at buffer pos (concat bss)"
    and "startPosition \<le> pos" and "len = pos - startPosition + length (concat bss)"
  shows "parse_elements L (IsLittleEndian L) visit buffer startPosition len pos io = Some (visits visit buffer bss pos io)"
  using assms
proof (induction bss arbitrary: pos io)
  case Nil
  then show ?case by (simp add: parse_elements.simps)
next
  case (Cons bs bss)
  obtain n rest where bs: "bs = host L 4 n @ rest" "n + 4 = length bs" "n < 2 ^ 32" using Cons.prems(1) by (auto simp: framed_def)
  have at: "holds_at buffer pos (host L 4 n)" using Cons.prems(2) by (simp add: bs(1))
  have rd: "ReadValue L 4 buffer pos (IsLittleEndian L) = Inr (n, pos + 4)" using read_written [OF at] bs(3) by simp
  have pos: "pos + 4 + n = pos + length bs" using bs(2) by simp
  have "length (concat (bs # bss)) = length bs + length (concat bss)" by simp
  then have less: "pos - startPosition < len" using bs(2) Cons.prems(3,4) by linarith
  show ?case
  proof (cases "visit buffer pos io")
    case (Inl e)
    then show ?thesis using less by (subst parse_elements.simps) simp
  next
    case (Inr io')
    have "parse_elements L (IsLittleEndian L) visit buffer startPosition len (pos + length bs) io' =
        Some (visits visit buffer bss (pos + length bs) io')"
      using Cons.prems by (intro Cons.IH) simp_all
    then show ?thesis using less by (subst parse_elements.simps) (simp add: Inr rd pos)
  qed
qed

text \<open>An index of elements whose headers are read and handed on.\<close>

definition element_of :: "ElementIndexHeader \<Rightarrow> bytes \<Rightarrow> bool" where
  "element_of h bs \<longleftrightarrow> header_ok h \<and> eh_Length h + 4 = length bs \<and> (\<exists>rest. bs = element_header L h @ rest)"

lemma element_of_framed: "element_of h bs \<Longrightarrow> framed L bs"
  unfolding element_of_def framed_def header_ok_def element_header_def by (metis append.assoc)

lemma visits_log:
  assumes "list_all2 element_of hs bss" and "holds_at buffer pos (concat bss)"
    and "\<And>pos io h p. ReadElementIndexHeader L buffer pos (IsLittleEndian L) = Inr (h, p) \<Longrightarrow>
      visit buffer pos io = Inr (if sel h then io @ [h] else io)"
  shows "visits visit buffer bss pos io = Inr (io @ filter sel hs)"
  using assms(1,2)
proof (induction hs bss arbitrary: pos io rule: list_all2_induct)
  case (Cons h hs bs bss)
  obtain rest where h: "header_ok h" "bs = element_header L h @ rest" using Cons.hyps(1) by (auto simp: element_of_def)
  have "holds_at buffer pos (element_header L h)" using Cons.prems by (simp add: h(2))
  from assms(3) [OF read_header [OF this h(1)]] Cons.IH [of "pos + length bs"] Cons.prems show ?case by simp
qed simp

lemma parse_index_log:
  assumes "table_ptr (m_MetadataIndexTable D) fileId step k = Inr pos" and "mf_IsLittleEndian D = IsLittleEndian L"
    and at: "holds_at buffer pos (elements_image L entry names)" and "length buffer < 2 ^ 64"
    and els: "\<And>name. name \<in> set names \<Longrightarrow> element_of (head name) (entry name)"
    and "\<And>pos io h p. ReadElementIndexHeader L buffer pos (IsLittleEndian L) = Inr (h, p) \<Longrightarrow>
      visit buffer pos io = Inr (if sel h then io @ [h] else io)"
  shows "parse_index L D visit buffer fileId step k io = Some (Inr (io @ filter sel (map head names)))"
proof -
  define bss where "bss = map entry names"
  define p where "p = pos + 4"
  have ats: "holds_at buffer pos (host L 4 (length names))" "holds_at buffer p (host L 8 (length (concat bss)))"
    "holds_at buffer (p + 8) (concat bss)"
    using at unfolding elements_image_def Let_def bss_def [symmetric] holds_at_append length_host p_def by simp_all
  have "host L 8 (length (concat bss)) \<noteq> []" using length_host [of L 8] by (metis list.size(3) zero_neq_numeral)
  from holds_at_fits [OF ats(2) this] have "p + 8 \<le> length buffer" by simp
  then have small: "length (concat bss) mod 256 ^ 8 = length (concat bss)"
    using holds_at_fits_le [OF ats(3)] assms(4) by simp
  have "list_all2 element_of (map head names) bss" using els by (simp add: bss_def list_all2_map1 list_all2_map2 list_all2_same)
  from visits_log [OF this ats(3), where visit = visit and sel = sel, OF assms(6)] have v: "visits visit buffer bss (p + 8) io = Inr (io @ filter sel (map head names))" .
  have "\<forall>bs \<in> set bss. framed L bs" using els element_of_framed by (auto simp: bss_def)
  from parse_elements_visits [OF this ats(3), of "p + 8" _ visit io]
  show ?thesis
    by (simp add: parse_index_def assms(1,2) read_written [OF ats(1), folded p_def] read_written [OF ats(2)] small [simplified] v)
qed

end

text \<open>On other bytes the loop ends too, if reads are bounded: the position grows by at least 4.\<close>

lemma parse_elements_returns:
  assumes "bounded_reads L"
  shows "\<exists>r. parse_elements L little visit buffer startPosition len pos io = Some r"
proof (induction "length buffer - pos" arbitrary: pos io rule: less_induct)
  case less
  let ?body = "bind_sum (visit buffer pos io) (\<lambda>io. bind_sum (ReadValue L 4 buffer pos little) (\<lambda>(n, p). Inr (io, p + n)))"
  show ?case
  proof (cases ?body)
    case (Inl e)
    then show ?thesis by (subst parse_elements.simps) simp
  next
    case (Inr x)
    then obtain io' n p where x: "x = (io', p + n)" and "ReadValue L 4 buffer pos little = Inr (n, p)"
      by (auto simp: bind_sum_Inr_iff)
    from bounded_readsD [OF assms this(2)] have "length buffer - (p + n) < length buffer - pos" by linarith
    from less [OF this, of io'] show ?thesis using Inr x by (subst parse_elements.simps) simp
  qed
qed

lemma parse_index_returns:
  assumes "bounded_reads L"
  shows "\<exists>r. parse_index L D visit buffer fileId step k io = Some r"
  using parse_elements_returns [OF assms] by (auto simp: parse_index_def split: sum.splits)

section \<open>Reading the collective metadata\<close>

text \<open>A header that is read is noted.\<close>

definition note_variable :: "ElementIndexHeader \<Rightarrow> bytes \<Rightarrow> nat \<Rightarrow> size_t \<Rightarrow> ElementIndexHeader list \<Rightarrow> failure + ElementIndexHeader list" where
  "note_variable h buffer position step log = Inr (log @ [h])"

definition note_attribute :: "ElementIndexHeader \<Rightarrow> bytes \<Rightarrow> nat \<Rightarrow> ElementIndexHeader list \<Rightarrow> failure + ElementIndexHeader list" where
  "note_attribute h buffer position log = Inr (log @ [h])"

text \<open>The reader has the metadata of a step, and the positions of it in its table.\<close>

definition has_step ::
    "bp_lib \<Rightarrow> bp4_parser \<Rightarrow> bytes \<Rightarrow> size_t \<Rightarrow> nat \<Rightarrow> (32 word \<times> bytes) list \<Rightarrow> element list \<Rightarrow> element list \<Rightarrow> string list \<Rightarrow> string list \<Rightarrow>
       nat \<Rightarrow> bool" where
  "has_step L D buffer step t ps vs as vn an pos \<longleftrightarrow>
     table_at 0 step (m_MetadataIndexTable D) = map of_nat (step_ptrs L ps vs as vn an t pos) \<and>
     holds_at buffer pos (step_image L ps vs as vn an t) \<and> length buffer < 2 ^ 64 \<and> mf_IsLittleEndian D = IsLittleEndian L"

context bp_merge_library
begin

lemma has_step_parts:
  assumes "has_step L D buffer step t ps vs as vn an pos"
  defines "v \<equiv> pos + length (pgs_image L ps t)"
  defines "a \<equiv> v + length (elements_image L (\<lambda>name. merged_entry L (els_at t name vs)) vn)"
  shows "holds_at buffer pos (pgs_image L ps t)"
    and "holds_at buffer v (elements_image L (\<lambda>name. merged_entry L (els_at t name vs)) vn)"
    and "holds_at buffer a (elements_image L (\<lambda>name. concat (elements_of t name as)) an)"
    and "table_ptr (m_MetadataIndexTable D) 0 step 0 = Inr pos" and "table_ptr (m_MetadataIndexTable D) 0 step (Suc 0) = Inr v"
    and "table_ptr (m_MetadataIndexTable D) 0 step 2 = Inr a"
    and "table_ptr (m_MetadataIndexTable D) 0 step 3 = Inr (pos + length (step_image L ps vs as vn an t))"
proof -
  have im: "holds_at buffer pos (step_image L ps vs as vn an t)" and small: "length buffer < 2 ^ 64"
    and table: "table_at 0 step (m_MetadataIndexTable D) = map of_nat (step_ptrs L ps vs as vn an t pos)"
    using assms(1) by (simp_all add: has_step_def)
  then show "holds_at buffer pos (pgs_image L ps t)"
    and "holds_at buffer v (elements_image L (\<lambda>name. merged_entry L (els_at t name vs)) vn)"
    and "holds_at buffer a (elements_image L (\<lambda>name. concat (elements_of t name as)) an)"
    unfolding step_image_def holds_at_append v_def a_def by (simp_all add: add.assoc)
  have "step_image L ps vs as vn an t \<noteq> []"
    by (simp add: step_image_def pgs_image_def Let_def)
  from holds_at_fits [OF im this] have e: "pos + length (step_image L ps vs as vn an t) \<le> length buffer" .
  then have "a \<le> length buffer" by (simp add: step_image_def a_def v_def)
  then have le: "pos < 2 ^ 64" "v < 2 ^ 64" "a < 2 ^ 64" "pos + length (step_image L ps vs as vn an t) < 2 ^ 64"
    using small e by (simp_all add: a_def v_def)
  show "table_ptr (m_MetadataIndexTable D) 0 step 0 = Inr pos" and "table_ptr (m_MetadataIndexTable D) 0 step (Suc 0) = Inr v"
    and "table_ptr (m_MetadataIndexTable D) 0 step 2 = Inr a"
    using le unfolding table_ptr_def table step_ptrs_def Let_def
    by (simp_all add: numeral_2_eq_2 v_def [symmetric] a_def [symmetric] del: unat_of_nat)
  define w where "w = pos + length (step_image L ps vs as vn an t)"
  show "table_ptr (m_MetadataIndexTable D) 0 step 3 = Inr w"
    using le(4) unfolding table_ptr_def table step_ptrs_def Let_def w_def [symmetric] by (simp add: numeral_3_eq_3 unat_of_nat)
qed

lemma merged_element_of:
  assumes "es \<noteq> []" and "\<forall>e \<in> set es. var_entry L Z X e"
    and "length (merged_entry L es) < 2 ^ 32" and "length es * eh_CharacteristicsSetsCount (el_Header (hd es)) < 2 ^ 64"
  shows "element_of (merged_header L es) (merged_entry L es)"
proof -
  have ok: "header_ok (el_Header (hd es))" using assms(1,2) var_entry_bytes(3) by simp
  have "el_header_size L (hd es) = length (element_header L (merged_header L es))"
    by (simp add: el_header_size_def merged_header_def Let_def)
  then have "eh_Length (merged_header L es) + 4 = length (merged_entry L es)"
    by (simp add: merged_entry_def) (simp add: merged_header_def Let_def)
  then show ?thesis
    using ok assms(3,4) by (auto simp: element_of_def merged_entry_def header_ok_def merged_header_def Let_def)
qed

lemma ParsePG_step:
  assumes "has_step L D buffer step t ps vs as vn an pos" and "\<forall>p \<in> set ps. pg_entry L p" and "records_of t ps \<noteq> []"
  shows "\<exists>D'. ParsePGIndexPerStep L X D buffer hostLanguage 0 step = Inr D' \<and>
    d_DataPGCount D' = d_DataPGCount D + of_nat (length (records_of t ps)) \<and> m_MetadataIndexTable D' = m_MetadataIndexTable D \<and>
    mf_IsLittleEndian D' = mf_IsLittleEndian D \<and> d_StepsCount D' = d_StepsCount D"
proof -
  note parts = has_step_parts [OF assms(1)]
  have little: "mf_IsLittleEndian D = IsLittleEndian L" using assms(1) by (simp add: has_step_def)
  obtain r rs where rs: "records_of t ps = r # rs" using assms(3) by (cases "records_of t ps") auto
  then have "r \<in> set (records_of t ps)" by simp
  then obtain p where p: "p \<in> set ps" "snd p = r" unfolding records_of_def by auto
  define q where "q = pos + 8"
  have ats: "holds_at buffer pos (host L 8 (length (records_of t ps)))" "holds_at buffer q (host L 8 (length (concat (records_of t ps))))"
    "holds_at buffer (q + 8) r"
    using parts(1) unfolding pgs_image_def Let_def holds_at_append length_host q_def by (simp_all add: rs)
  obtain header p' where "ReadProcessGroupIndexHeader X buffer (q + 8) (IsLittleEndian L) = Inr (header, p')"
    using read_pg_entry [of p buffer "q + 8"] assms(2) p ats(3) by metis
  moreover have "of_nat (length (records_of t ps) mod 256 ^ 8) = (of_nat (length (records_of t ps)) :: size_t)"
    by (simp add: word_unat_eq_iff unat_of_nat)
  ultimately show ?thesis
    by (simp add: ParsePGIndexPerStep_def parts(4) little read_written [OF ats(1), folded q_def] read_written [OF ats(2)] Let_def)
qed

lemma ParseVariables_step:
  assumes "has_step L D buffer step t ps vs as vn an pos" and "set vn = names_at t vs" and "\<forall>e \<in> set vs. var_entry L Z X e"
    and "\<forall>name \<in> set vn. length (merged_entry L (els_at t name vs)) < 2 ^ 32 \<and>
      length (els_at t name vs) * eh_CharacteristicsSetsCount (el_Header (hd (els_at t name vs))) < 2 ^ 64"
  shows "ParseVariablesIndexPerStep L X note_variable D buffer 0 step log =
    Some (Inr (log @ filter (\<lambda>h. is_std_type X (eh_DataType h)) (map (\<lambda>name. merged_header L (els_at t name vs)) vn)))"
proof -
  note parts = has_step_parts [OF assms(1)]
  have D: "mf_IsLittleEndian D = IsLittleEndian L" "length buffer < 2 ^ 64" using assms(1) by (simp_all add: has_step_def)
  have "element_of (merged_header L (els_at t name vs)) (merged_entry L (els_at t name vs))" if "name \<in> set vn" for name
    using that assms(2-4) by (intro merged_element_of) (auto simp: in_names elements_of_els els_at_def)
  from parse_index_log [OF parts(5) D(1) parts(2) D(2) this, where sel = "\<lambda>h. is_std_type X (eh_DataType h)"
      and visit = "ReadVariableIndexPerStep L X (mf_IsLittleEndian D) note_variable step" and io = log]
  show ?thesis by (simp add: ParseVariablesIndexPerStep_def ReadVariableIndexPerStep_def note_variable_def D(1))
qed

lemma ParseAttributes_step:
  assumes "has_step L D buffer step t ps vs as vn an pos" and "set an = names_at t as" and "\<forall>e \<in> set as. element_entry L Z X e"
    and "distinct (map el_key as)"
  shows "ParseAttributesIndexPerStep L X note_attribute D buffer 0 step log =
    Some (Inr (log @ filter (\<lambda>h. is_attribute_type X (eh_DataType h) \<or> eh_DataType h = type_string_array X)
      (map (\<lambda>name. el_Header (hd (els_at t name as))) an)))"
proof -
  note parts = has_step_parts [OF assms(1)]
  have D: "mf_IsLittleEndian D = IsLittleEndian L" "length buffer < 2 ^ 64" using assms(1) by (simp_all add: has_step_def)
  have el: "element_of (el_Header (hd (els_at t name as))) (concat (elements_of t name as))" if "name \<in> set an" for name
  proof -
    have "els_at t name as \<noteq> []" using that assms(2) by (simp add: in_names elements_of_els)
    moreover have "length (els_at t name as) \<le> 1"
      using length_filter_distinct [OF assms(4), of "(t, name)"] by (simp add: els_at_def filter_map comp_def split: if_splits)
    ultimately obtain e where e: "els_at t name as = [e]" by (cases "els_at t name as") (auto simp: le_Suc_eq)
    then have "e \<in> set as" by (auto simp: els_at_def dest: filter_eq_ConsD)
    then have "element_entry L Z X e" using assms(3) by simp
    then show ?thesis by (auto simp: e elements_of_els element_of_def element_entry_def Let_def)
  qed
  from parse_index_log [OF parts(6) D(1) parts(3) D(2) this, where
      sel = "\<lambda>h. is_attribute_type X (eh_DataType h) \<or> eh_DataType h = type_string_array X"
      and visit = "ReadAttributeIndex L X (mf_IsLittleEndian D) note_attribute" and io = log]
  show ?thesis by (simp add: ParseAttributesIndexPerStep_def ReadAttributeIndex_def note_attribute_def D(1))
qed

end

end
