(* ===== verification/Bp4_Readback.thy ===== *)
theory Bp4_Readback
  imports Bp4_Parse
begin

text \<open>
  What \<open>AggregateCollectiveMetadata\<close> (BP4Serializer.cpp) has written for all steps is read by
  \<open>ParseMetadata\<close> (BP4Deserializer.cpp): the shared part of the two, in terms of the headers
  that are handed on to the engine.
\<close>

section \<open>One step\<close>

text \<open>The headers that a step hands on, the variables before the attributes.\<close>

definition step_log ::
    "bp_lib \<Rightarrow> bp_merge \<Rightarrow> element list \<Rightarrow> element list \<Rightarrow> string list \<Rightarrow> string list \<Rightarrow> nat \<Rightarrow> ElementIndexHeader list" where
  "step_log L X vs as vn an t =
     filter (\<lambda>h. is_std_type X (eh_DataType h)) (map (\<lambda>name. merged_header L (els_at t name vs)) vn) @
     filter (\<lambda>h. is_attribute_type X (eh_DataType h) \<or> eh_DataType h = type_string_array X)
       (map (\<lambda>name. el_Header (hd (els_at t name as))) an)"

text \<open>The lengths of the variables of a step fit into their fields.\<close>

definition entries_small :: "bp_lib \<Rightarrow> element list \<Rightarrow> string list \<Rightarrow> nat \<Rightarrow> bool" where
  "entries_small L vs vn t \<longleftrightarrow> (\<forall>name \<in> set vn. length (merged_entry L (els_at t name vs)) < 2 ^ 32 \<and>
     length (els_at t name vs) * eh_CharacteristicsSetsCount (el_Header (hd (els_at t name vs))) < 2 ^ 64)"

lemma has_step_other:
  "has_step L D buffer step t ps vs as vn an pos \<Longrightarrow> m_MetadataIndexTable D' = m_MetadataIndexTable D \<Longrightarrow>
     mf_IsLittleEndian D' = mf_IsLittleEndian D \<Longrightarrow> has_step L D' buffer step t ps vs as vn an pos"
  by (simp add: has_step_def)

context bp_merge_library
begin

lemma ParseStep_log:
  assumes "has_step L D buffer step t ps vs as vn an pos" and "set vn = names_at t vs" "set an = names_at t as"
    and "\<forall>p \<in> set ps. pg_entry L p" "\<forall>e \<in> set vs. var_entry L Z X e" "\<forall>e \<in> set as. element_entry L Z X e"
    and "records_of t ps \<noteq> []" "entries_small L vs vn t" "distinct (map el_key as)"
  shows "\<exists>D'. ParseStep L X note_variable note_attribute hostLanguage buffer step (D, log) =
      Some (Inr ((D', log @ step_log L X vs as vn an t), of_nat (pos + length (step_image L ps vs as vn an t)))) \<and>
    d_DataPGCount D' = d_DataPGCount D + of_nat (length (records_of t ps)) \<and> m_MetadataIndexTable D' = m_MetadataIndexTable D \<and>
    mf_IsLittleEndian D' = mf_IsLittleEndian D \<and> d_StepsCount D' = d_StepsCount D"
proof -
  obtain D' where pg: "ParsePGIndexPerStep L X D buffer hostLanguage 0 step = Inr D'"
    and D': "d_DataPGCount D' = d_DataPGCount D + of_nat (length (records_of t ps))" "m_MetadataIndexTable D' = m_MetadataIndexTable D"
      "mf_IsLittleEndian D' = mf_IsLittleEndian D" "d_StepsCount D' = d_StepsCount D"
    using ParsePG_step [OF assms(1,4,7)] by blast
  note step = has_step_other [OF assms(1) D'(2,3)]
  note small = assms(8) [unfolded entries_small_def]
  have fin: "table_ptr (m_MetadataIndexTable D') 0 step 3 = Inr (pos + length (step_image L ps vs as vn an t))"
    by (rule has_step_parts(7) [OF step])
  note fin_D = fin [unfolded D'(2)]
  show ?thesis
    using ParseVariables_step [OF step assms(2,5) small, of log] D'
      ParseAttributes_step [OF step assms(3,6,9), of "log @ filter (\<lambda>h. is_std_type X (eh_DataType h)) (map (\<lambda>name. merged_header L (els_at t name vs)) vn)"]
    by (intro exI [of _ D']) (simp add: ParseStep_def pg fin_D step_log_def)
qed

lemma parse_steps_log:
  assumes "\<forall>i \<in> set is. has_step L D buffer (of_nat i + 1) (Suc i) ps vs as (vn (Suc i)) (an (Suc i)) (pos i) \<and>
      set (vn (Suc i)) = names_at (Suc i) vs \<and> set (an (Suc i)) = names_at (Suc i) as \<and>
      records_of (Suc i) ps \<noteq> [] \<and> entries_small L vs (vn (Suc i)) (Suc i)"
    and ok: "\<forall>p \<in> set ps. pg_entry L p" "\<forall>e \<in> set vs. var_entry L Z X e" "\<forall>e \<in> set as. element_entry L Z X e" "distinct (map el_key as)"
  shows "\<exists>D'. parse_steps (ParseStep L X note_variable note_attribute hostLanguage buffer) [] is (D, log) lastposition =
      Some (Inr ((D', log @ concat (map (\<lambda>i. step_log L X vs as (vn (Suc i)) (an (Suc i)) (Suc i)) is)),
        last (lastposition # map (\<lambda>i. of_nat (pos i + length (step_image L ps vs as (vn (Suc i)) (an (Suc i)) (Suc i)))) is))) \<and>
    d_DataPGCount D' = d_DataPGCount D + of_nat (sum_list (map (\<lambda>i. length (records_of (Suc i) ps)) is)) \<and>
    d_StepsCount D' = d_StepsCount D"
  using assms(1)
proof (induction "is" arbitrary: D log lastposition)
  case (Cons i "is")
  let ?stop = "of_nat (pos i + length (step_image L ps vs as (vn (Suc i)) (an (Suc i)) (Suc i)))"
  obtain D1 where step: "ParseStep L X note_variable note_attribute hostLanguage buffer (of_nat i + 1) (D, log) =
      Some (Inr ((D1, log @ step_log L X vs as (vn (Suc i)) (an (Suc i)) (Suc i)), ?stop))"
    and D1: "d_DataPGCount D1 = d_DataPGCount D + of_nat (length (records_of (Suc i) ps))" "m_MetadataIndexTable D1 = m_MetadataIndexTable D"
      "mf_IsLittleEndian D1 = mf_IsLittleEndian D" "d_StepsCount D1 = d_StepsCount D"
    using ParseStep_log [of D buffer "of_nat i + 1" "Suc i" ps vs as "vn (Suc i)" "an (Suc i)" "pos i" hostLanguage log] Cons.prems ok by auto
  have "\<forall>i \<in> set is. has_step L D1 buffer (of_nat i + 1) (Suc i) ps vs as (vn (Suc i)) (an (Suc i)) (pos i) \<and>
      set (vn (Suc i)) = names_at (Suc i) vs \<and> set (an (Suc i)) = names_at (Suc i) as \<and>
      records_of (Suc i) ps \<noteq> [] \<and> entries_small L vs (vn (Suc i)) (Suc i)"
    using Cons.prems has_step_other [OF _ D1(2,3)] by simp
  from Cons.IH [OF this, of "log @ step_log L X vs as (vn (Suc i)) (an (Suc i)) (Suc i)" ?stop] show ?case
    by (rule ex_forward) (simp add: step D1(1,4))
qed simp

end

section \<open>All steps\<close>

text \<open>Steps are 32 bits wide.\<close>

lemma distinct_steps_bound: "length (steps_of ranks) \<le> 2 ^ 32"
proof -
  have "set (steps_of ranks) \<subseteq> {0..<2 ^ 32}"
  proof
    fix t assume "t \<in> set (steps_of ranks)"
    then obtain p :: "32 word \<times> bytes" where "t = unat (fst p)" by (auto simp: steps_of_def)
    then show "t \<in> {0..<2 ^ 32}" using unsigned_less [of "fst p", where 'a = nat] by simp
  qed
  from card_mono [OF _ this] have "card (set (steps_of ranks)) \<le> 2 ^ 32" by simp
  moreover have "distinct (steps_of ranks)" by (simp add: steps_of_def)
  ultimately show ?thesis by (simp only: distinct_card)
qed

text \<open>Each record of a process group belongs to one step.\<close>

lemma records_total:
  assumes "distinct ts" and "\<forall>p \<in> set ps. unat (fst p) \<in> set ts"
  shows "sum_list (map (\<lambda>t. length (records_of t ps)) ts) = length ps"
  using assms(2)
proof (induction ps)
  case (Cons p ps)
  have "sum_list (map (\<lambda>t. length (records_of t (p # ps))) ts) =
      sum_list (map (\<lambda>t. length (records_of t ps)) ts) + sum_list (map (\<lambda>t. of_bool (t = unat (fst p))) ts)"
    by (simp add: records_of_def sum_list_addf [symmetric]) (rule arg_cong [where f = sum_list], simp)
  moreover have "sum_list (map (\<lambda>t. of_bool (t = unat (fst p))) ts) = (1 :: nat)"
    using assms(1) Cons.prems by (simp add: sum_list_distinct_conv_sum_set sum.delta of_bool_def)
  ultimately show ?case using Cons by simp
qed (simp add: records_of_def)

text \<open>What a merged entry needs fits if all that was gathered is below 4 GiB.\<close>

lemma member_size: "e \<in> set es \<Longrightarrow> w e \<le> sum_list (map (w :: 'a \<Rightarrow> nat) es)"
  by (induction es) auto

lemma count_size: "(\<forall>e \<in> set es. 1 \<le> (w e :: nat)) \<Longrightarrow> length es \<le> sum_list (map w es)"
  by (induction es) auto

lemma els_size: "sum_list (map (w :: element \<Rightarrow> nat) (els_at t name es)) \<le> sum_list (map w es)"
  by (induction es) (auto simp: els_at_def)

lemma attrs_of_subset: "e \<in> set (attrs_of ranks) \<Longrightarrow> \<exists>r \<in> set ranks. e \<in> set (ri_Attrs r)"
proof (induction ranks rule: rev_induct)
  case (snoc r ranks)
  have "set (new_attributes known es) \<subseteq> set es" for known es by (induction known es rule: new_attributes.induct) auto
  then show ?case using snoc by fastforce
qed simp

context bp_merge_library
begin

lemma entries_small_ranks:
  assumes "length (concat (map (rank_bytes L) ranks)) < 2 ^ 32" and vars: "\<forall>e \<in> set (vars_of ranks). var_entry L Z X e"
    and "\<forall>e \<in> set (vars_of ranks). eh_CharacteristicsSetsCount (el_Header e) < 2 ^ 32" and "set vn = names_at t (vars_of ranks)"
  shows "entries_small L (vars_of ranks) vn t"
  unfolding entries_small_def
proof (intro ballI conjI)
  let ?len = "\<lambda>e. length (el_Bytes e)"
  fix name assume name: "name \<in> set vn"
  define es where "es = els_at t name (vars_of ranks)"
  have ne: "es \<noteq> []" using name assms(4) by (simp add: es_def in_names elements_of_els)
  have sub: "\<forall>e \<in> set es. e \<in> set (vars_of ranks)" by (simp add: es_def els_at_def)
  have hs: "\<forall>e \<in> set es. el_header_size L e = 23 + length name \<and> 23 + length name \<le> ?len e"
    using vars var_entry_bytes(1,2) by (auto simp: es_def els_at_def el_key_def el_header_size_def var_entry_def)
  have total: "sum_list (map ?len es) < 2 ^ 32"
    using els_size [of ?len t name "vars_of ranks"] ranks_size [of ranks L] assms(1) by (simp add: es_def)
  then show "length (merged_entry L (els_at t name (vars_of ranks))) < 2 ^ 32"
    using length_merged_entry [OF ne hs] by (simp add: es_def)
  have "\<forall>e \<in> set es. 1 \<le> ?len e" using hs by auto
  from count_size [OF this] have "length es < 2 ^ 32" using total by simp
  moreover have "eh_CharacteristicsSetsCount (el_Header (hd es)) < 2 ^ 32" using ne sub assms(3) by simp
  ultimately have "length es * eh_CharacteristicsSetsCount (el_Header (hd es)) < 2 ^ 32 * 2 ^ 32" by (intro mult_strict_mono) simp_all
  then show "length (els_at t name (vars_of ranks)) * eh_CharacteristicsSetsCount (el_Header (hd (els_at t name (vars_of ranks)))) < 2 ^ 64"
    by (simp add: es_def)
qed

lemma collective_size:
  assumes "names_ok ranks vn an" and "\<forall>e \<in> set (vars_of ranks). var_entry L Z X e"
  shows "length (collective_image L ranks vn an (steps_of ranks)) \<le> 40 * length (steps_of ranks) + length (concat (map (rank_bytes L) ranks))"
  unfolding collective_image_def
  using step_images_size [of "steps_of ranks" "vars_of ranks" vn an "pgs_of ranks" "attrs_of ranks"] assms ranks_size [of ranks L]
  unfolding names_ok_def steps_of_def by fastforce

lemma ParseMetadata_log:
  assumes names: "names_ok ranks vn an" and n: "steps_of ranks = map Suc [0..<n]" "0 < n" "length (al_at 0 [] (m_MetadataIndexTable D)) = n"
    and table: "\<forall>ts1 t ts2. steps_of ranks = ts1 @ t # ts2 \<longrightarrow> table_at 0 (of_nat t) (m_MetadataIndexTable D) =
      map of_nat (collective_ptrs L ranks vn an t (length pre + length (collective_image L ranks vn an ts1)))"
    and buffer: "buffer = pre @ collective_image L ranks vn an (steps_of ranks)" "length buffer < 2 ^ 64"
    and D: "mf_IsLittleEndian D = IsLittleEndian L" and ok: "\<forall>r \<in> set ranks. rank_ok L Z X r"
    and vars: "\<forall>e \<in> set (vars_of ranks). var_entry L Z X e" and attrs: "\<forall>e \<in> set (attrs_of ranks). element_entry L Z X e"
    and small: "length (concat (map (rank_bytes L) ranks)) < 2 ^ 32"
      "\<forall>e \<in> set (vars_of ranks). eh_CharacteristicsSetsCount (el_Header e) < 2 ^ 32"
    and all: "parameters engine = None"
  shows "\<exists>D'. ParseMetadata L X note_variable note_attribute parameters engine hostLanguage buffer True D [] =
      Some (Inr ((D', concat (map (\<lambda>t. step_log L X (vars_of ranks) (attrs_of ranks) (vn t) (an t) t) (steps_of ranks))),
        of_nat (length buffer))) \<and>
    d_DataPGCount D' = d_DataPGCount D + of_nat (length (pgs_of ranks)) \<and> d_StepsCount D' = of_nat n"
proof -
  let ?img = "collective_image L ranks vn an"
  let ?one = "\<lambda>t. step_image L (pgs_of ranks) (vars_of ranks) (attrs_of ranks) (vn t) (an t) t"
  define D0 where "D0 = D\<lparr>d_StepsCount := of_nat n, d_CurrentStep := of_nat n - 1\<rparr>"
  define pos where "pos i = length pre + length (?img (map Suc [0..<i]))" for i
  have split: "steps_of ranks = map Suc [0..<i] @ Suc i # map Suc [Suc i..<n]" if "i < n" for i
    using upt_add_eq_append [of 0 i "n - i"] upt_conv_Cons [OF that] that by (simp add: n(1))
  have img: "?img (steps_of ranks) = ?img (map Suc [0..<i]) @ ?one (Suc i) @ ?img (map Suc [Suc i..<n])" if "i < n" for i
    by (subst split [OF that]) (simp add: collective_image_def)
  have small_n: "n \<le> 2 ^ 32" using distinct_steps_bound [of ranks] by (simp add: n(1))
  have step: "has_step L D0 buffer (of_nat i + 1) (Suc i) (pgs_of ranks) (vars_of ranks) (attrs_of ranks) (vn (Suc i)) (an (Suc i)) (pos i)"
    if "i < n" for i
  proof -
    have at: "holds_at buffer (pos i) (?one (Suc i))"
      unfolding buffer(1) img [OF that] pos_def using holds_at_prefix [of "pre @ ?img (map Suc [0..<i])"] by simp
    have "table_at 0 (of_nat (Suc i)) (m_MetadataIndexTable D) = map of_nat (collective_ptrs L ranks vn an (Suc i) (pos i))"
      using table [rule_format, OF split [OF that]] unfolding pos_def by blast
    then have "table_at 0 (of_nat i + 1) (m_MetadataIndexTable D0) = map of_nat (collective_ptrs L ranks vn an (Suc i) (pos i))"
      by (simp add: D0_def add.commute)
    then show ?thesis using at buffer(2) D by (simp add: has_step_def D0_def collective_ptrs_def)
  qed
  have mem: "Suc i \<in> set (steps_of ranks)" if "i < n" for i using that by (simp add: n(1))
  have "\<forall>i \<in> set [0..<n]. has_step L D0 buffer (of_nat i + 1) (Suc i) (pgs_of ranks) (vars_of ranks) (attrs_of ranks) (vn (Suc i)) (an (Suc i)) (pos i) \<and>
      set (vn (Suc i)) = names_at (Suc i) (vars_of ranks) \<and> set (an (Suc i)) = names_at (Suc i) (attrs_of ranks) \<and>
      records_of (Suc i) (pgs_of ranks) \<noteq> [] \<and> entries_small L (vars_of ranks) (vn (Suc i)) (Suc i)"
  proof
    fix i assume "i \<in> set [0..<n]"
    then have i: "i < n" by simp
    have nm: "set (vn (Suc i)) = names_at (Suc i) (vars_of ranks)" "set (an (Suc i)) = names_at (Suc i) (attrs_of ranks)"
      using names mem [OF i] by (simp_all add: names_ok_def)
    obtain p where "p \<in> set (pgs_of ranks)" "unat (fst p) = Suc i" using mem [OF i] by (auto simp: steps_of_def)
    then have "records_of (Suc i) (pgs_of ranks) \<noteq> []" by (auto simp: records_of_def filter_empty_conv)
    then show "has_step L D0 buffer (of_nat i + 1) (Suc i) (pgs_of ranks) (vars_of ranks) (attrs_of ranks) (vn (Suc i)) (an (Suc i)) (pos i) \<and>
      set (vn (Suc i)) = names_at (Suc i) (vars_of ranks) \<and> set (an (Suc i)) = names_at (Suc i) (attrs_of ranks) \<and>
      records_of (Suc i) (pgs_of ranks) \<noteq> [] \<and> entries_small L (vars_of ranks) (vn (Suc i)) (Suc i)"
      using step [OF i] nm entries_small_ranks [OF small(1) vars small(2) nm(1)] by blast
  qed
  moreover have "\<forall>p \<in> set (pgs_of ranks). pg_entry L p" using ok by (auto simp: pgs_of_def rank_ok_def)
  ultimately obtain D' where run: "parse_steps (ParseStep L X note_variable note_attribute hostLanguage buffer) [] [0..<n] (D0, []) 0 =
      Some (Inr ((D', concat (map (\<lambda>i. step_log L X (vars_of ranks) (attrs_of ranks) (vn (Suc i)) (an (Suc i)) (Suc i)) [0..<n])),
        last (0 # map (\<lambda>i. of_nat (pos i + length (?one (Suc i)))) [0..<n])))"
    and D': "d_DataPGCount D' = d_DataPGCount D0 + of_nat (sum_list (map (\<lambda>i. length (records_of (Suc i) (pgs_of ranks))) [0..<n]))"
      "d_StepsCount D' = d_StepsCount D0"
    using parse_steps_log [OF _ _ vars attrs attrs_of_distinct, of "[0..<n]" D0 buffer "pgs_of ranks" vn an pos hostLanguage "[]" 0] by auto
  have "sum_list (map (\<lambda>t. length (records_of t (pgs_of ranks))) (steps_of ranks)) = length (pgs_of ranks)"
    by (rule records_total) (simp_all add: steps_of_def)
  then have total: "sum_list (map (\<lambda>i. length (records_of (Suc i) (pgs_of ranks))) [0..<n]) = length (pgs_of ranks)"
    by (simp add: n(1) comp_def)
  obtain m where m: "n = Suc m" using n(2) by (cases n) auto
  have "length buffer = pos m + length (?one (Suc m))"
    using img [of m] by (simp add: m buffer(1) pos_def collective_image_def)
  then have last: "last (0 # map (\<lambda>i. of_nat (pos i + length (?one (Suc i)))) [0..<n]) = (of_nat (length buffer) :: size_t)"
    by (simp add: m)
  have "unat (of_nat n :: size_t) = n" using small_n by (simp add: unat_of_nat)
  then have "ParseMetadata L X note_variable note_attribute parameters engine hostLanguage buffer True D [] =
      parse_steps (ParseStep L X note_variable note_attribute hostLanguage buffer) [] [0..<n] (D0, []) 0"
    by (simp add: ParseMetadata_def all n(3) D0_def Let_def)
  with run D' total last show ?thesis by (intro exI [of _ D']) (simp add: D0_def n(1) comp_def)
qed

end

section \<open>Returning\<close>

text \<open>On any bytes the parser returns, if reads are bounded and what the engine does returns.\<close>

lemma ParseMetadataIndex_returns:
  assumes "bounded_reads L"
  shows "\<exists>r. ParseMetadataIndex L R b absoluteStartPos hasHeader oneStepOnly = Some r"
  using parse_records_returns [OF assms] by (auto simp: ParseMetadataIndex_def split: sum.splits)

lemma ParseStep_returns:
  assumes "bounded_reads L"
  shows "\<exists>r. ParseStep L X DefineVariable DefineAttribute hostLanguage buffer step Dio = Some r"
proof -
  obtain D io where Dio: "Dio = (D, io)" by (cases Dio)
  show ?thesis
  proof (cases "ParsePGIndexPerStep L X D buffer hostLanguage 0 step")
    case (Inl e)
    then show ?thesis by (simp add: ParseStep_def Dio)
  next
    case (Inr D')
    have "\<exists>v. ParseVariablesIndexPerStep L X DefineVariable D' buffer 0 step io = Some v"
      unfolding ParseVariablesIndexPerStep_def by (rule parse_index_returns [OF assms])
    then obtain v where v: "ParseVariablesIndexPerStep L X DefineVariable D' buffer 0 step io = Some v" by blast
    show ?thesis
    proof (cases v)
      case (Inl e)
      then show ?thesis using v \<open>ParsePGIndexPerStep L X D buffer hostLanguage 0 step = Inr D'\<close> by (simp add: ParseStep_def Dio)
    next
      case (Inr io')
      have "\<exists>a. ParseAttributesIndexPerStep L X DefineAttribute D' buffer 0 step io' = Some a"
        unfolding ParseAttributesIndexPerStep_def by (rule parse_index_returns [OF assms])
      then show ?thesis using Inr v \<open>ParsePGIndexPerStep L X D buffer hostLanguage 0 step = Inr D'\<close> by (auto simp: ParseStep_def Dio)
    qed
  qed
qed

lemma parse_steps_returns:
  assumes "\<And>step s. \<exists>r. parse step s = Some r"
  shows "\<exists>r. parse_steps parse selected is s lastposition = Some r"
proof (induction "is" arbitrary: s lastposition)
  case (Cons i "is")
  obtain r where "parse (of_nat i + 1) s = Some r" using assms by blast
  then show ?case using Cons by (cases r) auto
qed simp

lemma ParseMetadata_returns:
  assumes "bounded_reads L"
  shows "\<exists>r. ParseMetadata L X DefineVariable DefineAttribute parameters engine hostLanguage buffer firstStep D io = Some r"
  using parse_steps_returns [OF ParseStep_returns [OF assms]] unfolding ParseMetadata_def Let_def by (auto split: sum.splits)

lemma bounded_reads_ref_bp: "bounded_reads ref_bp"
  by (auto simp: bounded_reads_def ref_value_def mem_read_def bind_sum_Inr_iff split: if_splits)

end
