(* ===== verification/Bp4_Read.thy ===== *)
theory Bp4_Read
  imports Bp4_Parse
begin

text \<open>
  Reading variables (BP4Deserializer.tcc): \<open>DefineVariableInEngineIOPerStep\<close> makes the variables
  of a step known with the places of their blocks in the metadata; \<open>BlocksInfo\<close> tells what
  blocks there are.
\<close>

section \<open>What the code uses\<close>

text \<open>A \<open>std::map\<close> with numbers as keys is the list of its pairs in the order of the keys.\<close>

fun map_put :: "nat \<Rightarrow> 'a \<Rightarrow> (nat \<times> 'a) list \<Rightarrow> (nat \<times> 'a) list" where
  "map_put k x [] = [(k, x)]"
| "map_put k x ((k', y) # m) = (if k < k' then (k, x) # (k', y) # m else if k = k' then (k, x) # m else (k', y) # map_put k x m)"

definition map_push :: "nat \<Rightarrow> 'a \<Rightarrow> (nat \<times> 'a list) list \<Rightarrow> (nat \<times> 'a list) list" where
  "map_push k x m = map_put k (al_at k [] m @ [x]) m"

text \<open>The members of ADIOS2's types that the code uses.\<close>

datatype ShapeID = GlobalValue | GlobalArray | LocalValue | LocalArray | OtherShape

type_synonym Box = "size_t list \<times> size_t list"

record BPOpInfo =
  op_IsActive :: bool
  op_Type :: string
  op_PreShape :: "size_t list"
  op_PreStart :: "size_t list"
  op_PreCount :: "size_t list"
  op_Metadata :: bytes

record Characteristics =
  ch_Shape :: "size_t list"
  ch_Start :: "size_t list"
  ch_Count :: "size_t list"
  ch_EntryShapeID :: ShapeID
  ch_EntryLength :: nat
  ch_Step :: "32 word"
  ch_FileIndex :: "32 word"
  ch_PayloadOffset :: size_t
  ch_IsValue :: bool
  ch_Value :: bytes
  ch_Values :: "bytes list"
  ch_Min :: bytes
  ch_Max :: bytes
  ch_MinMaxs :: "bytes list"
  ch_SubBlockInfo :: SubBlockInfo
  ch_Op :: BPOpInfo

record SubStreamBoxInfo =
  ss_BlockBox :: Box
  ss_IntersectionBox :: Box
  ss_Seeks :: "size_t \<times> size_t"
  ss_OperationsInfo :: "BlockOperationInfo list"
  ss_SubStreamID :: size_t
  ss_ZeroBlock :: bool

record SubFileInfo =
  sf_BlockBox :: Box
  sf_IntersectionBox :: Box
  sf_Seeks :: "size_t \<times> size_t"

text \<open>\<open>SubFileInfoMap\<close>: by sub-file and by step.\<close>

type_synonym SubFileInfoMap = "(nat \<times> (nat \<times> SubFileInfo list) list) list"

text \<open>
  A variable that is read; \<open>m_Data\<close> is a place in a buffer. \<open>BPInfo\<close> has further members when
  it is read.
\<close>

record ReadVariable = Variable +
  rv_ShapeID :: ShapeID
  rv_Min :: bytes
  rv_Max :: bytes
  rv_Value :: bytes
  rv_Data :: "nat option"
  rv_StepsStart :: nat
  rv_StepsCount :: nat
  rv_AvailableStepsCount :: nat
  rv_AvailableStepBlockIndexOffsets :: "(nat \<times> nat list) list"
  rv_AvailableShapes :: "(nat \<times> size_t list) list"
  rv_IndexStart :: nat
  rv_WriteBlock :: bool
  rv_BlockID :: nat

record ReadInfo = BPInfo +
  ri_StepsStart :: nat
  ri_StepsCount :: nat
  ri_BlockID :: nat
  ri_StepBlockSubStreamsInfo :: "(nat \<times> SubStreamBoxInfo list) list"
  ri_WriterID :: "32 word"
  ri_IsReverseDims :: bool
  ri_IsValue :: bool
  ri_Value :: bytes
  ri_Min :: bytes
  ri_Max :: bytes
  ri_MinMaxs :: "bytes list"
  ri_SubBlockInfo :: SubBlockInfo
  ri_Step :: size_t

text \<open>The IO of the engine: its variables and attributes by name; an attribute has a type and values.\<close>

record engine_io =
  io_Variables :: "(string \<times> ReadVariable) list"
  io_Attributes :: "(string \<times> byte \<times> bool \<times> bytes list) list"

text \<open>
  Functions that are not in the repository: \<open>BPBase\<close>'s \<open>ReadElementIndexCharacteristics<T>\<close>
  (by the number of \<open>T\<close>), helpers on values, boxes and memory, \<open>BPOperation\<close>, and the
  members of \<open>IO\<close> and \<open>Variable\<close>. \<open>InquireVariable\<close> finds a variable of the type \<open>T\<close>;
  \<open>IO_DefineVariable\<close> returns the new one, which the code changes where it is.
\<close>

record bp_read =
  ReadElementIndexCharacteristics :: "byte \<Rightarrow> bytes \<Rightarrow> nat \<Rightarrow> byte \<Rightarrow> bool \<Rightarrow> failure + Characteristics \<times> nat"
  LessThan :: "byte \<Rightarrow> bytes \<Rightarrow> bytes \<Rightarrow> bool"
  GreaterThan :: "byte \<Rightarrow> bytes \<Rightarrow> bytes \<Rightarrow> bool"
  StartEndBox :: "size_t list \<Rightarrow> size_t list \<Rightarrow> bool \<Rightarrow> Box"
  IntersectionBox :: "Box \<Rightarrow> Box \<Rightarrow> Box"
  LinearIndex :: "Box \<Rightarrow> size_t list \<Rightarrow> bool \<Rightarrow> size_t"
  DimsToString :: "size_t list \<Rightarrow> string"
  ClipVector :: "bytes \<Rightarrow> size_t \<Rightarrow> size_t \<Rightarrow> bytes"
  ClipContiguousMemory :: "byte \<Rightarrow> bytes option \<Rightarrow> size_t list \<Rightarrow> size_t list \<Rightarrow> bytes \<Rightarrow> Box \<Rightarrow> Box \<Rightarrow> bool \<Rightarrow> bool \<Rightarrow> bool \<Rightarrow>
    failure + bytes option"
  InquireVariable :: "byte \<Rightarrow> string \<Rightarrow> engine_io \<Rightarrow> ReadVariable option"
  IO_DefineVariable :: "byte \<Rightarrow> string \<Rightarrow> size_t list \<Rightarrow> size_t list \<Rightarrow> size_t list \<Rightarrow> engine_io \<Rightarrow> failure + ReadVariable"
  IO_DefineAttribute :: "byte \<Rightarrow> string \<Rightarrow> bool \<Rightarrow> bytes list \<Rightarrow> engine_io \<Rightarrow> failure + engine_io"
  InquireVariableType :: "string \<Rightarrow> engine_io \<Rightarrow> byte option"
  SetSelection :: "ReadVariable \<Rightarrow> Box \<Rightarrow> failure + ReadVariable"
  SetBlockInfo :: "ReadVariable \<Rightarrow> bytes option \<Rightarrow> nat \<Rightarrow> nat \<Rightarrow> ReadInfo"
  GetDataTypeName :: "byte \<Rightarrow> string"
  OperationMetadata :: "string \<Rightarrow> bytes \<Rightarrow> (string \<rightharpoonup> string) \<Rightarrow> failure + (string \<rightharpoonup> string)"
  OperationData :: "string \<Rightarrow> bytes \<Rightarrow> BlockOperationInfo \<Rightarrow> failure + bytes"
  LocalValueDim :: size_t
  br_type_string :: byte
  br_type_string_array :: byte

text \<open>The members of the deserializer: its metadata, the transforms it knows, the deferred variables.\<close>

record bp4_deserializer = bp4_parser +
  d_Metadata :: bytes
  d_TransformTypes :: "string set"
  d_DeferredVariablesMap :: "(string \<times> SubFileInfoMap) list"

text \<open>\<open>std::stoull\<close>.\<close>

definition stoull :: "string \<Rightarrow> failure + size_t" where
  "stoull s =
     (let s = dropWhile is_space s;
          negative = (case s of CHR ''-'' # _ \<Rightarrow> True | _ \<Rightarrow> False);
          digits = takeWhile is_digit (case s of c # s' \<Rightarrow> if c = CHR ''-'' \<or> c = CHR ''+'' then s' else s | [] \<Rightarrow> []);
          v = foldl (\<lambda>n c. 10 * n + (of_char c - 48)) 0 digits :: nat
      in if digits = [] then Inl (Foreign_exn ''stoull: invalid_argument'')
         else if 2 ^ 64 \<le> v then Inl (Foreign_exn ''stoull: out_of_range'')
         else Inr (if negative then - of_nat v else of_nat v))"

definition reversed :: "bool \<Rightarrow> 'a list \<Rightarrow> 'a list" where
  "reversed b xs = (if b then rev xs else xs)"

section \<open>DefineVariableInEngineIOPerStep\<close>

text \<open>\<open>m_Shape[0]\<close> and \<open>m_Count[0]\<close>.\<close>

definition set_first :: "(size_t \<Rightarrow> size_t) \<Rightarrow> ReadVariable \<Rightarrow> failure + ReadVariable" where
  "set_first f v =
     (if v_Shape v = [] \<or> v_Count v = [] then Inl (Crash Out_of_bounds)
      else Inr (v\<lparr>v_Shape := (v_Shape v)[0 := f (hd (v_Shape v))], v_Count := (v_Count v)[0 := f (hd (v_Count v))]\<rparr>))"

definition reset_or_count :: "bool \<Rightarrow> Characteristics \<Rightarrow> ReadVariable \<Rightarrow> failure + ReadVariable" where
  "reset_or_count is_first c v =
     (if ch_EntryShapeID c = LocalValue then set_first (if is_first then (\<lambda>_. 1) else (\<lambda>n. n + 1)) v else Inr v)"

definition note_offset :: "nat \<Rightarrow> nat \<Rightarrow> ReadVariable \<Rightarrow> ReadVariable" where
  "note_offset step position v =
     v\<lparr>rv_AvailableStepBlockIndexOffsets := map_push step position (rv_AvailableStepBlockIndexOffsets v)\<rparr>"

definition note_shape :: "bool \<Rightarrow> nat \<Rightarrow> Characteristics \<Rightarrow> ReadVariable \<Rightarrow> ReadVariable" where
  "note_shape reverse step c v =
     (if ch_EntryShapeID c = GlobalArray then
        (let shape = reversed reverse (ch_Shape c)
         in v\<lparr>v_Shape := shape, rv_AvailableShapes := map_put step shape (rv_AvailableShapes v)\<rparr>)
      else v)"

text \<open>The bounds of a block; whether they are a value is asked of the first block.\<close>

definition note_bounds :: "bp_read \<Rightarrow> bool \<Rightarrow> Characteristics \<Rightarrow> ReadVariable \<Rightarrow> ReadVariable" where
  "note_bounds R isValue c v =
     (let blockMin = (if isValue then ch_Value c else ch_Min c);
          blockMax = (if isValue then ch_Value c else ch_Max c);
          v = (if LessThan R (type_enum v) blockMin (rv_Min v) then v\<lparr>rv_Min := blockMin\<rparr> else v)
      in if GreaterThan R (type_enum v) blockMax (rv_Max v) then v\<lparr>rv_Max := blockMax\<rparr> else v)"

text \<open>What a block changes: of a variable that is known, and of a new one.\<close>

definition known_block :: "bp_read \<Rightarrow> bool \<Rightarrow> bool \<Rightarrow> nat \<Rightarrow> nat \<Rightarrow> nat \<Rightarrow> Characteristics \<Rightarrow> ReadVariable \<Rightarrow> failure + ReadVariable" where
  "known_block R reverse isValue step initialPosition subsetPosition c v =
     (if type_enum v = br_type_string R
      then bind_sum (reset_or_count (subsetPosition = initialPosition) c v) (\<lambda>v. Inr (note_offset step subsetPosition v))
      else bind_sum (reset_or_count (subsetPosition = initialPosition) c (note_bounds R isValue c v)) (\<lambda>v.
        Inr (note_offset step subsetPosition (note_shape reverse step c v))))"

function known_blocks ::
    "bp_read \<Rightarrow> bool \<Rightarrow> bool \<Rightarrow> bytes \<Rightarrow> byte \<Rightarrow> bool \<Rightarrow> nat \<Rightarrow> nat \<Rightarrow> nat \<Rightarrow> nat \<Rightarrow> ReadVariable \<Rightarrow> failure + ReadVariable" where
  "known_blocks R reverse little buffer dataType isValue step initialPosition endPosition position v =
     (if position < endPosition then
        bind_sum (ReadElementIndexCharacteristics R (type_enum v) buffer position dataType little) (\<lambda>(c, _).
        bind_sum (known_block R reverse isValue step initialPosition position c v) (\<lambda>v.
          known_blocks R reverse little buffer dataType isValue step initialPosition endPosition (position + ch_EntryLength c + 5) v))
      else Inr v)"
  by pat_completeness auto
termination by (relation "measure (\<lambda>(R, rev, l, buf, t, iv, st, ini, e, p, v). e - p)") auto

declare known_blocks.simps [simp del]

text \<open>The loop of a new variable finds the steps itself.\<close>

definition new_block ::
    "bp_read \<Rightarrow> bool \<Rightarrow> bool \<Rightarrow> nat \<Rightarrow> Characteristics \<Rightarrow> (32 word) set \<times> nat \<times> ReadVariable \<Rightarrow> failure + (32 word) set \<times> nat \<times> ReadVariable" where
  "new_block R reverse isValue subsetPosition c state =
     (case state of (stepsFound, currentStep, v) \<Rightarrow>
       (let isNextStep = (ch_Step c \<notin> stepsFound);
            currentStep = (if isNextStep then unat (ch_Step c) else currentStep);
            v = (if isNextStep then v\<lparr>rv_AvailableStepsCount := rv_AvailableStepsCount v + 1\<rparr> else v)
        in bind_sum (reset_or_count isNextStep c v) (\<lambda>v.
             (let v = (if type_enum v = br_type_string R then v
                  else (let v = note_shape reverse currentStep c v
                        in if isNextStep \<and> ch_EntryShapeID c = GlobalValue \<or> ch_EntryShapeID c \<noteq> GlobalValue
                           then note_bounds R isValue c v else v))
              in Inr (insert (ch_Step c) stepsFound, currentStep, note_offset currentStep subsetPosition v)))))"

function new_blocks ::
    "bp_read \<Rightarrow> bool \<Rightarrow> bool \<Rightarrow> bytes \<Rightarrow> byte \<Rightarrow> byte \<Rightarrow> bool \<Rightarrow> nat \<Rightarrow> nat \<Rightarrow> (32 word) set \<times> nat \<times> ReadVariable \<Rightarrow>
       failure + (32 word) set \<times> nat \<times> ReadVariable" where
  "new_blocks R reverse little buffer T dataType isValue endPosition position state =
     (if position < endPosition then
        bind_sum (ReadElementIndexCharacteristics R T buffer position dataType little) (\<lambda>(c, _).
        bind_sum (new_block R reverse isValue position c state) (\<lambda>state.
          new_blocks R reverse little buffer T dataType isValue endPosition (position + ch_EntryLength c + 5) state))
      else Inr state)"
  by pat_completeness auto
termination by (relation "measure (\<lambda>(R, rev, l, buf, T, t, iv, e, p, s). e - p)") auto

declare new_blocks.simps [simp del]

text \<open>The variable is defined by the shape of its first block.\<close>

definition define_plain :: "bp_read \<Rightarrow> bool \<Rightarrow> byte \<Rightarrow> string \<Rightarrow> Characteristics \<Rightarrow> engine_io \<Rightarrow> failure + ReadVariable" where
  "define_plain R reverse T variableName c io =
     bind_sum
       (case ch_EntryShapeID c of
          GlobalValue \<Rightarrow> IO_DefineVariable R T variableName [] [] [] io
        | GlobalArray \<Rightarrow>
            (let shape = reversed reverse (ch_Shape c)
             in bind_sum (IO_DefineVariable R T variableName shape (replicate (length shape) 0) shape io) (\<lambda>v.
                  Inr (v\<lparr>rv_AvailableShapes := map_put (unat (ch_Step c)) (v_Shape v) (rv_AvailableShapes v)\<rparr>)))
        | LocalValue \<Rightarrow>
            bind_sum (IO_DefineVariable R T variableName [1] [0] [1] io) (\<lambda>v. Inr (v\<lparr>rv_ShapeID := LocalValue\<rparr>))
        | LocalArray \<Rightarrow> IO_DefineVariable R T variableName [] [] (reversed reverse (ch_Count c)) io
        | OtherShape \<Rightarrow> Inl (Foreign_exn ''runtime_error''))
       (\<lambda>v. Inr (if ch_IsValue c then v\<lparr>rv_Value := ch_Value c, rv_Min := ch_Value c, rv_Max := ch_Value c\<rparr>
          else v\<lparr>rv_Min := ch_Min c, rv_Max := ch_Max c\<rparr>))"

definition define_string :: "bp_read \<Rightarrow> byte \<Rightarrow> string \<Rightarrow> Characteristics \<Rightarrow> engine_io \<Rightarrow> failure + ReadVariable" where
  "define_string R T variableName c io =
     (if ch_IsValue c then
        bind_sum (IO_DefineVariable R T variableName [] [] [] io) (\<lambda>v.
          (let v = v\<lparr>rv_Value := ch_Value c\<rparr>
           in Inr (if ch_EntryShapeID c = LocalValue
             then v\<lparr>v_Shape := [1], v_Start := [0], v_Count := [1], rv_ShapeID := LocalValue\<rparr> else v)))
      else Inl (Foreign_exn ''runtime_error''))"

definition DefineVariableInEngineIOPerStep ::
    "bp_lib \<Rightarrow> bp_read \<Rightarrow> 'a bp4_parser_scheme \<Rightarrow> ElementIndexHeader \<Rightarrow> bytes \<Rightarrow> nat \<Rightarrow> size_t \<Rightarrow> engine_io \<Rightarrow> failure + engine_io" where
  "DefineVariableInEngineIOPerStep L R D header buffer position step io =
     (let initialPosition = position; T = eh_DataType header; little = mf_IsLittleEndian D; reverse = d_ReverseDimensions D
      in bind_sum (ReadElementIndexCharacteristics R T buffer position T little) (\<lambda>(characteristics, _).
         (let variableName = (if eh_Path header = [] then eh_Name header else eh_Path header @ PathSeparator L @ eh_Name header);
              indexStart = initialPosition - (length (eh_Name header) + length (eh_GroupName header) + length (eh_Path header) + 23);
              endPosition = indexStart + eh_Length header + 4
          in (case InquireVariable R T variableName io of
                Some v \<Rightarrow>
                  bind_sum (known_blocks R reverse little buffer T (ch_IsValue characteristics) (unat step) initialPosition endPosition
                      initialPosition (v\<lparr>rv_AvailableStepsCount := rv_AvailableStepsCount v + 1\<rparr>)) (\<lambda>v.
                    Inr (io\<lparr>io_Variables := AList.update variableName v (io_Variables io)\<rparr>))
              | None \<Rightarrow>
                  bind_sum (if T = br_type_string R then define_string R T variableName characteristics io
                      else define_plain R reverse T variableName characteristics io) (\<lambda>v.
                  bind_sum (new_blocks R reverse little buffer T T (ch_IsValue characteristics) endPosition initialPosition
                      ({}, 0, v\<lparr>rv_IndexStart := indexStart, rv_AvailableStepsCount := 0\<rparr>)) (\<lambda>(_, _, v).
                    (let v = (if rv_ShapeID v = LocalValue then v\<lparr>rv_ShapeID := GlobalArray, v_SingleValue := True\<rparr> else v);
                         v = v\<lparr>rv_StepsStart := 0\<rparr>
                     in Inr (io\<lparr>io_Variables := AList.update variableName v (io_Variables io)\<rparr>))))))))"

definition DefineAttributeInEngineIO ::
    "bp_lib \<Rightarrow> bp_read \<Rightarrow> 'a bp4_parser_scheme \<Rightarrow> ElementIndexHeader \<Rightarrow> bytes \<Rightarrow> nat \<Rightarrow> engine_io \<Rightarrow> failure + engine_io" where
  "DefineAttributeInEngineIO L R D header buffer position io =
     (let T = (if eh_DataType header = br_type_string_array R then br_type_string R else eh_DataType header)
      in bind_sum (ReadElementIndexCharacteristics R T buffer position (eh_DataType header) (mf_IsLittleEndian D)) (\<lambda>(characteristics, _).
         (let attributeName = (if eh_Path header \<noteq> [] then eh_Path header @ PathSeparator L @ eh_Name header else eh_Name header)
          in if ch_IsValue characteristics then IO_DefineAttribute R T attributeName True [ch_Value characteristics] io
             else IO_DefineAttribute R T attributeName False (ch_Values characteristics) io)))"

section \<open>BlocksInfo\<close>

text \<open>\<open>ReadElementIndexCharacteristics\<close> in the metadata.\<close>

definition block_characteristics :: "bp_read \<Rightarrow> bp4_deserializer \<Rightarrow> byte \<Rightarrow> byte \<Rightarrow> nat \<Rightarrow> failure + Characteristics" where
  "block_characteristics R D T dataType position =
     bind_sum (ReadElementIndexCharacteristics R T (d_Metadata D) position dataType (mf_IsLittleEndian D)) (\<lambda>(c, _). Inr c)"

definition block_info :: "bp_read \<Rightarrow> bp4_deserializer \<Rightarrow> nat \<Rightarrow> nat \<Rightarrow> Characteristics \<Rightarrow> ReadInfo" where
  "block_info R D blocks n c =
     (let info = \<lparr>bi_Shape = reversed (d_ReverseDimensions D) (ch_Shape c), bi_Start = reversed (d_ReverseDimensions D) (ch_Start c),
            bi_Count = reversed (d_ReverseDimensions D) (ch_Count c), bi_MemoryStart = [], bi_MemoryCount = [], bi_Data = None,
            bi_Operations = [], ri_StepsStart = 0, ri_StepsCount = 0, ri_BlockID = n, ri_StepBlockSubStreamsInfo = [],
            ri_WriterID = ch_FileIndex c, ri_IsReverseDims = d_ReverseDimensions D, ri_IsValue = ch_IsValue c,
            ri_Value = (if ch_IsValue c then ch_Value c else []), ri_Min = (if ch_IsValue c then [] else ch_Min c),
            ri_Max = (if ch_IsValue c then [] else ch_Max c), ri_MinMaxs = (if ch_IsValue c then [] else ch_MinMaxs c),
            ri_SubBlockInfo = ch_SubBlockInfo c, ri_Step = ucast (ch_Step c - 1)\<rparr>
      in if length (bi_Shape info) = 1 \<and> hd (bi_Shape info) = LocalValueDim R
         then info\<lparr>bi_Shape := [of_nat blocks], bi_Count := [1], bi_Start := [of_nat n], ri_Min := ch_Value c, ri_Max := ch_Value c\<rparr>
         else info)"

fun blocks_info_from :: "bp_read \<Rightarrow> bp4_deserializer \<Rightarrow> byte \<Rightarrow> nat \<Rightarrow> nat \<Rightarrow> nat list \<Rightarrow> failure + ReadInfo list" where
  "blocks_info_from R D T blocks n [] = Inr []"
| "blocks_info_from R D T blocks n (blockIndexOffset # rest) =
     bind_sum (block_characteristics R D T T blockIndexOffset) (\<lambda>c.
     bind_sum (blocks_info_from R D T blocks (n + 1) rest) (\<lambda>infos. Inr (block_info R D blocks n c # infos)))"

definition BlocksInfoCommon :: "bp_read \<Rightarrow> bp4_deserializer \<Rightarrow> ReadVariable \<Rightarrow> nat list \<Rightarrow> failure + ReadInfo list" where
  "BlocksInfoCommon R D variable blocksIndexOffsets =
     blocks_info_from R D (type_enum variable) (length blocksIndexOffsets) 0 blocksIndexOffsets"

definition BlocksInfo :: "bp_read \<Rightarrow> bp4_deserializer \<Rightarrow> ReadVariable \<Rightarrow> nat \<Rightarrow> failure + ReadInfo list" where
  "BlocksInfo R D variable step =
     (case map_of (rv_AvailableStepBlockIndexOffsets variable) (step + 1) of
        None \<Rightarrow> Inr []
      | Some offsets \<Rightarrow> BlocksInfoCommon R D variable offsets)"

fun all_blocks :: "(nat list \<Rightarrow> failure + ReadInfo list) \<Rightarrow> (nat \<times> nat list) list \<Rightarrow> failure + (nat \<times> ReadInfo list) list" where
  "all_blocks blocks [] = Inr []"
| "all_blocks blocks ((step, positions) # steps) =
     bind_sum (blocks positions) (\<lambda>infos. bind_sum (all_blocks blocks steps) (\<lambda>rest. Inr ((step, infos) # rest)))"

definition AllStepsBlocksInfo :: "bp_read \<Rightarrow> bp4_deserializer \<Rightarrow> ReadVariable \<Rightarrow> failure + (nat \<times> ReadInfo list) list" where
  "AllStepsBlocksInfo R D variable =
     bind_sum (all_blocks (BlocksInfoCommon R D variable) (rv_AvailableStepBlockIndexOffsets variable)) (\<lambda>all.
       Inr (foldl (\<lambda>m (step, infos). map_put (step - 1) infos m) [] all))"

definition AllRelativeStepsBlocksInfo :: "bp_read \<Rightarrow> bp4_deserializer \<Rightarrow> ReadVariable \<Rightarrow> failure + ReadInfo list list" where
  "AllRelativeStepsBlocksInfo R D variable =
     bind_sum (all_blocks (BlocksInfoCommon R D variable) (rv_AvailableStepBlockIndexOffsets variable)) (\<lambda>all.
       Inr (map snd all))"

end
