(* ===== verification/Bp4_Select.thy ===== *)
theory Bp4_Select
  imports Bp4_Read
begin

text \<open>
  Selections of variables (BP4Deserializer.tcc): \<open>InitVariableBlockInfo\<close>, \<open>SetVariableBlockInfo\<close>
  and \<open>GetSubFileInfo\<close> find the bytes of a selection in the data files, \<open>PreDataRead\<close> and
  \<open>PostDataRead\<close> are called around the read of them, \<open>GetValueFromMetadata\<close> needs no data.
\<close>

section \<open>InitVariableBlockInfo\<close>

text \<open>
  \<open>std::next (begin, stepsStart)\<close> is behind the last step when there are fewer of them, and
  must not be read there; \<open>rbegin\<close> neither when there is none.
\<close>

definition InitVariableBlockInfo :: "bp_read \<Rightarrow> bp4_deserializer \<Rightarrow> ReadVariable \<Rightarrow> bytes option \<Rightarrow> failure + ReadVariable \<times> ReadInfo" where
  "InitVariableBlockInfo R D variable data =
     (let stepsStart = rv_StepsStart variable; stepsCount = rv_StepsCount variable;
          indices = rv_AvailableStepBlockIndexOffsets variable
      in if indices = [] then Inl (Crash Out_of_bounds)
         else if stepsStart + 1 > fst (last indices) then Inl (Foreign_exn ''invalid_argument'')
         else if stepsStart \<ge> length indices then Inl (Crash Out_of_bounds)
         else
           (let absStep = fst (indices ! stepsStart)
            in if stepsStart + stepsCount > length indices then Inl (Foreign_exn ''invalid_argument'')
               else bind_sum
                 (if rv_WriteBlock variable then
                    bind_sum (BlocksInfo R D variable (absStep - 1)) (\<lambda>blocksInfo.
                      if rv_BlockID variable \<ge> length blocksInfo then Inl (Foreign_exn ''invalid_argument'')
                      else
                        (let block = blocksInfo ! rv_BlockID variable
                         in if rv_ShapeID variable = GlobalArray then SetSelection R variable (bi_Start block, bi_Count block)
                            else if rv_ShapeID variable = LocalArray then Inr (variable\<lparr>v_Count := bi_Count block\<rparr>)
                            else Inr variable))
                  else Inr variable)
                 (\<lambda>variable. Inr (variable, SetBlockInfo R variable data stepsStart stepsCount))))"

section \<open>SetVariableBlockInfo\<close>

definition operation_info :: "bp_read \<Rightarrow> byte \<Rightarrow> nat \<Rightarrow> BPOpInfo \<Rightarrow> size_t \<Rightarrow> failure + BlockOperationInfo" where
  "operation_info R T sizeof_T bpOpInfo payloadOffset =
     (let info = [''PreDataType'' \<mapsto> GetDataTypeName R T, ''Type'' \<mapsto> op_Type bpOpInfo]
      in bind_sum (OperationMetadata R (op_Type bpOpInfo) (op_Metadata bpOpInfo) info) (\<lambda>info.
           (case info ''OutputSize'' of
              None \<Rightarrow> Inl (Foreign_exn ''map::at'')
            | Some s \<Rightarrow>
                bind_sum (stoull s) (\<lambda>size.
                  Inr \<lparr>bo_Info = info, bo_PreShape = op_PreShape bpOpInfo, bo_PreStart = op_PreStart bpOpInfo,
                    bo_PreCount = op_PreCount bpOpInfo, bo_PreSizeOf = sizeof_T, bo_PayloadOffset = payloadOffset,
                    bo_PayloadSize = size\<rparr>))))"

text \<open>The seeks of a box that intersects the selection, absolute where there is no operation.\<close>

definition sub_stream ::
    "bp_lib \<Rightarrow> bp_read \<Rightarrow> bp4_deserializer \<Rightarrow> ReadVariable \<Rightarrow> Characteristics \<Rightarrow> Box \<Rightarrow> Box \<Rightarrow> failure + SubStreamBoxInfo" where
  "sub_stream L R D variable c blockBox intersection =
     (let size = of_nat (type_size variable);
          first = size * LinearIndex R blockBox (fst intersection) (d_IsRowMajor D);
          second = size * (LinearIndex R blockBox (snd intersection) (d_IsRowMajor D) + 1);
          zero = (GetTotalSize L (ch_Count c) = 0);
          payloadOffset = ch_PayloadOffset c;
          info = \<lparr>ss_BlockBox = blockBox, ss_IntersectionBox = intersection, ss_Seeks = (first, second), ss_OperationsInfo = [],
            ss_SubStreamID = ucast (ch_FileIndex c), ss_ZeroBlock = zero\<rparr>
      in if op_IsActive (ch_Op c)
         then bind_sum (operation_info R (type_enum variable) (type_size variable) (ch_Op c) payloadOffset) (\<lambda>blockOperation.
           Inr (info\<lparr>ss_OperationsInfo := [blockOperation]\<rparr>))
         else Inr (info\<lparr>ss_Seeks := (first + payloadOffset, second + payloadOffset)\<rparr>))"

definition push_sub_stream :: "nat \<Rightarrow> SubStreamBoxInfo \<Rightarrow> ReadInfo \<Rightarrow> ReadInfo" where
  "push_sub_stream step info blockInfo =
     blockInfo\<lparr>ri_StepBlockSubStreamsInfo := map_push step info (ri_StepBlockSubStreamsInfo blockInfo)\<rparr>"

definition global_block ::
    "bp_lib \<Rightarrow> bp_read \<Rightarrow> bp4_deserializer \<Rightarrow> ReadVariable \<Rightarrow> Box \<Rightarrow> nat \<Rightarrow> ReadInfo \<Rightarrow> nat \<Rightarrow> failure + ReadInfo" where
  "global_block L R D variable selectionBox step blockInfo blockIndexOffset =
     bind_sum (block_characteristics R D (type_enum variable) (type_enum variable) blockIndexOffset) (\<lambda>c.
       (let blockBox = StartEndBox R (ch_Start c) (ch_Count c) False;
            intersection = IntersectionBox R selectionBox blockBox
        in if fst intersection = [] \<or> snd intersection = [] then Inr blockInfo
           else bind_sum (sub_stream L R D variable c blockBox intersection) (\<lambda>info. Inr (push_sub_stream step info blockInfo))))"

text \<open>The bounds are those of \<open>size_t\<close>: a sum that wraps passes.\<close>

fun check_bounds :: "size_t list \<Rightarrow> size_t list \<Rightarrow> size_t list \<Rightarrow> failure + unit" where
  "check_bounds start cnt [] = Inr ()"
| "check_bounds (s # start) (c # cnt) (n # shape) =
     (if s + c > n then Inl (Foreign_exn ''invalid_argument'') else check_bounds start cnt shape)"
| "check_bounds start cnt (n # shape) = Inl (Crash Out_of_bounds)"

definition local_block ::
    "bp_lib \<Rightarrow> bp_read \<Rightarrow> bp4_deserializer \<Rightarrow> ReadVariable \<Rightarrow> Box \<Rightarrow> nat \<Rightarrow> ReadInfo \<Rightarrow> nat \<Rightarrow> failure + ReadInfo" where
  "local_block L R D variable selectionBox step blockInfo blockIndexOffset =
     bind_sum (block_characteristics R D (type_enum variable) (type_enum variable) blockIndexOffset) (\<lambda>c.
       (let blockBox = StartEndBox R (replicate (length (ch_Count c)) 0) (ch_Count c) False;
            intersection = (if fst selectionBox \<noteq> [] then IntersectionBox R selectionBox blockBox else blockBox)
        in if fst intersection = [] \<or> snd intersection = [] then Inr blockInfo
           else if length (ch_Count c) \<noteq> length (bi_Count blockInfo) then Inl (Foreign_exn ''invalid_argument'')
           else
             (let start = (if bi_Start blockInfo = [] then replicate (length (bi_Count blockInfo)) 0 else bi_Start blockInfo)
              in bind_sum (check_bounds start (bi_Count blockInfo) (reversed (d_ReverseDimensions D) (ch_Count c))) (\<lambda>_.
                 bind_sum (sub_stream L R D variable c blockBox intersection) (\<lambda>info. Inr (push_sub_stream step info blockInfo))))))"

fun fold_sum :: "('b \<Rightarrow> 'a \<Rightarrow> failure + 'b) \<Rightarrow> 'a list \<Rightarrow> 'b \<Rightarrow> failure + 'b" where
  "fold_sum f [] b = Inr b"
| "fold_sum f (x # xs) b = bind_sum (f b x) (fold_sum f xs)"

definition step_info ::
    "bp_lib \<Rightarrow> bp_read \<Rightarrow> bp4_deserializer \<Rightarrow> ReadVariable \<Rightarrow> Box \<Rightarrow> ReadInfo \<Rightarrow> nat \<times> nat list \<Rightarrow> failure + ReadInfo" where
  "step_info L R D variable selectionBox blockInfo step_offsets =
     (case step_offsets of (step, blockOffsets) \<Rightarrow>
       if rv_ShapeID variable = GlobalArray then
         (let readInShape = al_at step [] (rv_AvailableShapes variable)
          in if length readInShape \<noteq> length (bi_Shape blockInfo) then Inl (Foreign_exn ''invalid_argument'')
             else bind_sum (check_bounds (bi_Start blockInfo) (bi_Count blockInfo) readInShape) (\<lambda>_.
               fold_sum (global_block L R D variable selectionBox step) blockOffsets blockInfo))
       else if rv_ShapeID variable = LocalArray then
         (if ri_BlockID blockInfo < length blockOffsets
          then local_block L R D variable selectionBox step blockInfo (blockOffsets ! ri_BlockID blockInfo)
          else Inl (Crash Out_of_bounds))
       else Inr blockInfo)"

definition SetVariableBlockInfo :: "bp_lib \<Rightarrow> bp_read \<Rightarrow> bp4_deserializer \<Rightarrow> ReadVariable \<Rightarrow> ReadInfo \<Rightarrow> failure + ReadInfo" where
  "SetVariableBlockInfo L R D variable blockInfo =
     (let indices = rv_AvailableStepBlockIndexOffsets variable;
          selectionBox = StartEndBox R (bi_Start blockInfo) (bi_Count blockInfo) (d_ReverseDimensions D)
      in if ri_StepsStart blockInfo > length indices then Inl (Crash Out_of_bounds)
         else bind_sum (fold_sum (step_info L R D variable selectionBox) (take (ri_StepsCount blockInfo) (drop (ri_StepsStart blockInfo) indices)) blockInfo)
           (\<lambda>blockInfo'. if ri_StepsStart blockInfo + ri_StepsCount blockInfo \<le> length indices then Inr blockInfo'
              else Inl (Crash Out_of_bounds)))"

section \<open>Values in the metadata\<close>

definition GetSyncVariableDataFromStream :: "bp_read \<Rightarrow> bp4_deserializer \<Rightarrow> ReadVariable \<Rightarrow> bytes \<Rightarrow> failure + ReadVariable" where
  "GetSyncVariableDataFromStream R D variable buffer =
     (case map_of (rv_AvailableStepBlockIndexOffsets variable) (rv_StepsStart variable + 1) of
        None \<Rightarrow> Inr (variable\<lparr>rv_Data := None\<rparr>)
      | Some [] \<Rightarrow> Inl (Crash Out_of_bounds)
      | Some (position # _) \<Rightarrow>
          bind_sum (ReadElementIndexCharacteristics R (type_enum variable) buffer position (type_enum variable) (mf_IsLittleEndian D))
            (\<lambda>(characteristics, _). Inr (variable\<lparr>rv_Data := Some (unat (ch_PayloadOffset characteristics))\<rparr>)))"

text \<open>\<open>data[dataCounter] = value\<close>, the elements of the user's memory one by one.\<close>

fun values_at :: "bp_read \<Rightarrow> bp4_deserializer \<Rightarrow> byte \<Rightarrow> nat list \<Rightarrow> bytes list \<times> nat \<Rightarrow> failure + bytes list \<times> nat" where
  "values_at R D T [] dc = Inr dc"
| "values_at R D T (localPosition # positions) (data, dataCounter) =
     bind_sum (block_characteristics R D T (br_type_string R) localPosition) (\<lambda>c.
       if dataCounter < length data then values_at R D T positions (data[dataCounter := ch_Value c], dataCounter + 1)
       else Inl (Crash Out_of_bounds))"

definition step_values ::
    "bp_read \<Rightarrow> bp4_deserializer \<Rightarrow> ReadVariable \<Rightarrow> ReadInfo \<Rightarrow> bytes list \<times> nat \<Rightarrow> nat list \<Rightarrow> failure + bytes list \<times> nat" where
  "step_values R D variable blockInfo dc positions =
     (let global = (rv_ShapeID variable = GlobalArray)
      in if global \<and> (bi_Start blockInfo = [] \<or> v_Count variable = []) then Inl (Crash Out_of_bounds)
         else
           (let blocksStart = (if global then hd (bi_Start blockInfo) else 0);
                blocksCount = (if global then hd (v_Count variable) else 1)
            in if unat (blocksStart + blocksCount) > length positions then Inl (Foreign_exn ''invalid_argument'')
               else values_at R D (type_enum variable) (map (\<lambda>b. positions ! b) [unat blocksStart..<unat (blocksStart + blocksCount)]) dc))"

definition GetValueFromMetadata ::
    "bp_read \<Rightarrow> bp4_deserializer \<Rightarrow> ReadVariable \<Rightarrow> bytes list \<Rightarrow> failure + ReadVariable \<times> bytes list" where
  "GetValueFromMetadata R D variable data =
     bind_sum (InitVariableBlockInfo R D variable (Some (concat data))) (\<lambda>(variable, blockInfo).
       (let indices = rv_AvailableStepBlockIndexOffsets variable
        in if ri_StepsStart blockInfo + ri_StepsCount blockInfo > length indices then Inl (Crash Out_of_bounds)
           else bind_sum (fold_sum (step_values R D variable blockInfo)
               (map snd (take (ri_StepsCount blockInfo) (drop (ri_StepsStart blockInfo) indices))) (data, 0)) (\<lambda>(data, _).
             if data = [] then Inl (Crash Out_of_bounds) else Inr (variable\<lparr>rv_Value := hd data\<rparr>, data))))"

section \<open>PreDataRead and PostDataRead\<close>

text \<open>
  The two buffers of a thread, and where the transport is told to put the bytes: into the
  user's memory or one of them.
\<close>

datatype read_target = User_memory | Thread_buffer nat

type_synonym thread_buffers = "bytes \<times> bytes"

definition IdentityOperation :: "string list \<Rightarrow> bool" where
  "IdentityOperation operations = foldl (\<lambda>identity op. if op = ''identity'' then True else identity) False operations"

definition PreDataRead ::
    "bp4_deserializer \<Rightarrow> ReadInfo \<Rightarrow> SubStreamBoxInfo \<Rightarrow> thread_buffers \<Rightarrow> failure + (read_target \<times> size_t \<times> size_t) \<times> thread_buffers" where
  "PreDataRead D blockInfo subStreamBoxInfo buffers =
     (if ss_OperationsInfo subStreamBoxInfo \<noteq> [] then
        bind_sum (InitPostOperatorBlockData (d_TransformTypes D) (ss_OperationsInfo subStreamBoxInfo)) (\<lambda>op.
          Inr (if IdentityOperation (bi_Operations blockInfo) then ((User_memory, bo_PayloadSize op, bo_PayloadOffset op), buffers)
               else ((Thread_buffer 1, bo_PayloadSize op, bo_PayloadOffset op), (fst buffers, resized (unat (bo_PayloadSize op)) (snd buffers)))))
      else
        (let payloadOffset = fst (ss_Seeks subStreamBoxInfo);
             payloadSize = snd (ss_Seeks subStreamBoxInfo) - payloadOffset
         in Inr ((Thread_buffer 0, payloadSize, payloadOffset), (resized (unat payloadSize) (fst buffers), snd buffers))))"

definition PostDataRead ::
    "bp_lib \<Rightarrow> bp_read \<Rightarrow> bp4_deserializer \<Rightarrow> ReadVariable \<Rightarrow> ReadInfo \<Rightarrow> SubStreamBoxInfo \<Rightarrow> thread_buffers \<Rightarrow>
       failure + ReadInfo \<times> thread_buffers" where
  "PostDataRead L R D variable blockInfo subStreamBoxInfo buffers =
     bind_sum
       (if ss_OperationsInfo subStreamBoxInfo \<noteq> [] \<and> \<not> IdentityOperation (bi_Operations blockInfo) then
          bind_sum (InitPostOperatorBlockData (d_TransformTypes D) (ss_OperationsInfo subStreamBoxInfo)) (\<lambda>op.
          (case bo_Info op ''Type'' of
             None \<Rightarrow> Inl (Foreign_exn ''map::at'')
           | Some type \<Rightarrow>
               bind_sum (OperationData R type (snd buffers) op) (\<lambda>preOpData.
                 (let preOpPayloadSize = GetTotalSize L (bo_PreCount op) * of_nat (bo_PreSizeOf op)
                  in bind_sum (mem_write (resized (unat preOpPayloadSize) (fst buffers)) 0 preOpData) (\<lambda>block.
                       Inr (ClipVector R block (fst (ss_Seeks subStreamBoxInfo)) (snd (ss_Seeks subStreamBoxInfo)), snd buffers))))))
        else Inr buffers) (\<lambda>buffers.
     (let endianReverse = (has_endian_reverse L \<and> IsLittleEndian L \<noteq> mf_IsLittleEndian D);
          blockInfoStart = (if rv_ShapeID variable = LocalArray \<and> bi_Start blockInfo = []
            then replicate (length (bi_Count blockInfo)) 0 else bi_Start blockInfo)
      in bind_sum (ClipContiguousMemory R (type_enum variable) (bi_Data blockInfo) blockInfoStart (bi_Count blockInfo) (fst buffers)
           (ss_BlockBox subStreamBoxInfo) (ss_IntersectionBox subStreamBoxInfo) (d_IsRowMajor D) (d_ReverseDimensions D) endianReverse)
           (\<lambda>data. Inr (blockInfo\<lparr>bi_Data := data\<rparr>, buffers))))"

text \<open>The member of the same name; the last argument of the helper has the default \<open>false\<close>.\<close>

definition ClipBlockMemory ::
    "bp_read \<Rightarrow> bp4_deserializer \<Rightarrow> byte \<Rightarrow> ReadInfo \<Rightarrow> bytes \<Rightarrow> Box \<Rightarrow> Box \<Rightarrow> failure + ReadInfo" where
  "ClipBlockMemory R D T blockInfo contiguousMemory blockBox intersectionBox =
     bind_sum (ClipContiguousMemory R T (bi_Data blockInfo) (bi_Start blockInfo) (bi_Count blockInfo) contiguousMemory blockBox
         intersectionBox (d_IsRowMajor D) (d_ReverseDimensions D) False) (\<lambda>data. Inr (blockInfo\<lparr>bi_Data := data\<rparr>))"

section \<open>GetSubFileInfo\<close>

definition sub_file_block ::
    "bp_read \<Rightarrow> bp4_deserializer \<Rightarrow> ReadVariable \<Rightarrow> Box \<Rightarrow> nat \<Rightarrow> SubFileInfoMap \<Rightarrow> nat \<Rightarrow> failure + SubFileInfoMap" where
  "sub_file_block R D variable selectionBox step infoMap blockPosition =
     bind_sum (block_characteristics R D (type_enum variable) (type_enum variable) blockPosition) (\<lambda>c.
       (let blockBox = StartEndBox R (ch_Start c) (ch_Count c) False;
            intersection = IntersectionBox R selectionBox blockBox;
            size = of_nat (type_size variable)
        in if fst intersection = [] \<or> snd intersection = [] then Inr infoMap
           else
             (let info = \<lparr>sf_BlockBox = blockBox, sf_IntersectionBox = intersection,
                    sf_Seeks = (ch_PayloadOffset c + LinearIndex R blockBox (fst intersection) (d_IsRowMajor D) * size,
                      ch_PayloadOffset c + (LinearIndex R blockBox (snd intersection) (d_IsRowMajor D) + 1) * size)\<rparr>;
                  fileIndex = unat (ch_FileIndex c)
              in Inr (map_put fileIndex (map_push step info (al_at fileIndex [] infoMap)) infoMap))))"

definition sub_file_step ::
    "bp_read \<Rightarrow> bp4_deserializer \<Rightarrow> ReadVariable \<Rightarrow> Box \<Rightarrow> SubFileInfoMap \<Rightarrow> nat \<Rightarrow> failure + SubFileInfoMap" where
  "sub_file_step R D variable selectionBox infoMap step =
     (case map_of (rv_AvailableStepBlockIndexOffsets variable) step of
        None \<Rightarrow> Inr infoMap
      | Some blockStarts \<Rightarrow> fold_sum (sub_file_block R D variable selectionBox step) blockStarts infoMap)"

definition GetSubFileInfo :: "bp_read \<Rightarrow> bp4_deserializer \<Rightarrow> ReadVariable \<Rightarrow> failure + SubFileInfoMap" where
  "GetSubFileInfo R D variable =
     (let stepStart = rv_StepsStart variable + 1;
          stepEnd = stepStart + rv_StepsCount variable;
          selectionBox = StartEndBox R (v_Start variable) (v_Count variable) (d_ReverseDimensions D)
      in fold_sum (sub_file_step R D variable selectionBox) [stepStart..<stepEnd] [])"

definition GetSyncVariableSubFileInfo :: "bp_read \<Rightarrow> bp4_deserializer \<Rightarrow> ReadVariable \<Rightarrow> failure + (string \<times> SubFileInfoMap) list" where
  "GetSyncVariableSubFileInfo R D variable = bind_sum (GetSubFileInfo R D variable) (\<lambda>info. Inr [(v_Name variable, info)])"

definition GetDeferredVariable :: "bp4_deserializer \<Rightarrow> ReadVariable \<Rightarrow> nat option \<Rightarrow> bp4_deserializer \<times> ReadVariable" where
  "GetDeferredVariable D variable data =
     (D\<lparr>d_DeferredVariablesMap := AList.update (v_Name variable) [] (d_DeferredVariablesMap D)\<rparr>, variable\<lparr>rv_Data := data\<rparr>)"

text \<open>\<open>is_std\<close> says which numbers are types of \<open>ADIOS2_FOREACH_STDTYPE_1ARG\<close>.\<close>

fun perform_gets ::
    "bp_read \<Rightarrow> (byte \<Rightarrow> bool) \<Rightarrow> bp4_deserializer \<Rightarrow> engine_io \<Rightarrow> (string \<times> SubFileInfoMap) list \<Rightarrow> failure + (string \<times> SubFileInfoMap) list" where
  "perform_gets R is_std D io [] = Inr []"
| "perform_gets R is_std D io ((variableName, info) # rest) =
     bind_sum
       (case InquireVariableType R variableName io of
          None \<Rightarrow> Inr info
        | Some T \<Rightarrow>
            if is_std T then
              (case InquireVariable R T variableName io of
                 None \<Rightarrow> Inl (Crash Null_deref)
               | Some v \<Rightarrow> GetSubFileInfo R D v)
            else Inr info) (\<lambda>info.
     bind_sum (perform_gets R is_std D io rest) (\<lambda>rest. Inr ((variableName, info) # rest)))"

definition PerformGetsVariablesSubFileInfo ::
    "bp_read \<Rightarrow> (byte \<Rightarrow> bool) \<Rightarrow> bp4_deserializer \<Rightarrow> engine_io \<Rightarrow> failure + bp4_deserializer \<times> (string \<times> SubFileInfoMap) list" where
  "PerformGetsVariablesSubFileInfo R is_std D io =
     (if d_DeferredVariablesMap D = [] then Inr (D, [])
      else bind_sum (perform_gets R is_std D io (d_DeferredVariablesMap D)) (\<lambda>m. Inr (D\<lparr>d_DeferredVariablesMap := m\<rparr>, m)))"

text \<open>\<open>m_Data\<close> of the variable is given by the memory it points to.\<close>

definition ClipMemory ::
    "bp_read \<Rightarrow> (byte \<Rightarrow> bool) \<Rightarrow> bp4_deserializer \<Rightarrow> string \<Rightarrow> engine_io \<Rightarrow> bytes option \<Rightarrow> bytes \<Rightarrow> Box \<Rightarrow> Box \<Rightarrow> failure + bytes option" where
  "ClipMemory R is_std D variableName io data contiguousMemory blockBox intersectionBox =
     (case InquireVariableType R variableName io of
        None \<Rightarrow> Inr data
      | Some T \<Rightarrow>
          if is_std T then
            (case InquireVariable R T variableName io of
               None \<Rightarrow> Inr data
             | Some v \<Rightarrow> ClipContiguousMemory R T data (v_Start v) (v_Count v) contiguousMemory blockBox intersectionBox
                 (d_IsRowMajor D) (d_ReverseDimensions D) False)
          else Inr data)"

end
