(* ===== verification/Bp4_Data.thy ===== *)
theory Bp4_Data
  imports Bp4_Group
begin

text \<open>
  The variables and attributes in the data buffer (BP4Serializer.tcc): \<open>PutVariableMetadata\<close>
  and \<open>PutVariablePayload\<close> write a record of a block into the open process group and its
  characteristics into the index of the variable; \<open>PutSpanMetadata\<close> fills in the bounds of a
  span; \<open>PutAttributeInDataCommon\<close> writes the record of an attribute.
\<close>

section \<open>What the code uses\<close>

text \<open>The parameters of the engine and of the aggregator.\<close>

record bp4_config =
  cf_StatsLevel :: int
  cf_StatsBlockSize :: size_t
  cf_Threads :: nat
  cf_IsActive :: bool
  cf_IsConsumer :: bool

text \<open>
  Functions of \<open>BPBase\<close>, \<open>BPSerializer\<close> and \<open>helper\<close> that are not part of the repository.
  \<open>GetSerialElementIndex\<close> returns the index it finds or makes, whether it is new, and the
  map; \<open>Stats_init\<close> is what the constructor of \<open>Stats<T>\<close> makes, \<open>is_default\<close> says whether a value
  of type \<open>T\<close> equals \<open>T{}\<close>. The third argument of \<open>DivideBlock\<close> is always \<open>Contiguous\<close>.
\<close>

record bp_data =
  GetFileIndex :: "bp4_writer \<Rightarrow> 32 word"
  GetSerialElementIndex :: "string \<Rightarrow> (string \<times> SerialElementIndex) list \<Rightarrow> SerialElementIndex \<times> bool \<times> (string \<times> SerialElementIndex) list"
  Stats_init :: "byte \<Rightarrow> Stats"
  is_default :: "byte \<Rightarrow> bytes \<Rightarrow> bool"
  DivideBlock :: "size_t list \<Rightarrow> size_t \<Rightarrow> SubBlockInfo"
  GetMinMaxSubblocks :: "byte \<Rightarrow> bytes option \<Rightarrow> size_t list \<Rightarrow> SubBlockInfo \<Rightarrow> nat \<Rightarrow> bytes list \<times> bytes \<times> bytes \<Rightarrow>
    failure + bytes list \<times> bytes \<times> bytes"
  GetMinMaxSelection :: "byte \<Rightarrow> bytes option \<Rightarrow> size_t list \<Rightarrow> size_t list \<Rightarrow> size_t list \<Rightarrow> bool \<Rightarrow> bytes \<times> bytes \<Rightarrow> failure + bytes \<times> bytes"
  PutPayloadInBuffer :: "Variable \<Rightarrow> BPInfo \<Rightarrow> bool \<Rightarrow> BufferSTL \<Rightarrow> failure + BufferSTL"
  PutOperationPayloadInBuffer :: "Variable \<Rightarrow> BPInfo \<Rightarrow> bp4_writer \<Rightarrow> failure + bp4_writer"
  Align :: "nat \<Rightarrow> BufferSTL \<Rightarrow> nat"
  bd_type_string :: byte
  bd_type_string_array :: byte

section \<open>GetBPStats\<close>

text \<open>\<open>T{}\<close> of an arithmetic type.\<close>

definition zero_value :: "Variable \<Rightarrow> bytes" where
  "zero_value variable = replicate (type_size variable) 0"

text \<open>The call of \<open>GetMinMaxSubblocks\<close> after \<open>DivideBlock\<close>, on some data.\<close>

definition subblock_stats :: "bp_data \<Rightarrow> bp4_config \<Rightarrow> Variable \<Rightarrow> bytes option \<Rightarrow> size_t list \<Rightarrow> Stats \<Rightarrow> failure + Stats" where
  "subblock_stats B C variable data Count stats =
     (let info = DivideBlock B Count (cf_StatsBlockSize C)
      in bind_sum (GetMinMaxSubblocks B (type_enum variable) data Count info (cf_Threads C) (st_MinMaxs stats, st_Min stats, st_Max stats))
           (\<lambda>(MinMaxs, Min, Max). Inr (stats\<lparr>st_MinMaxs := MinMaxs, st_Min := Min, st_Max := Max, st_SubBlockInfo := info\<rparr>)))"

definition GetBPStats ::
    "bp_data \<Rightarrow> bp4_config \<Rightarrow> 32 word \<Rightarrow> 32 word \<Rightarrow> Variable \<Rightarrow> BPInfo \<Rightarrow> bool \<Rightarrow> failure + Stats" where
  "GetBPStats B C TimeStep FileIndex variable blockInfo isRowMajor =
     (let stats = (Stats_init B (type_enum variable))\<lparr>st_Step := TimeStep, st_FileIndex := FileIndex\<rparr>
      in if bi_Data blockInfo = None \<and> cf_StatsLevel C > 0 then
           subblock_stats B C variable (bi_Data blockInfo) (bi_Count blockInfo)
             (stats\<lparr>st_Min := zero_value variable, st_Max := zero_value variable\<rparr>)
         else if v_SingleValue variable then
           (case bi_Data blockInfo of
              None \<Rightarrow> Inl (Crash Null_deref)
            | Some d \<Rightarrow> Inr (stats\<lparr>st_Value := d, st_Min := d, st_Max := d\<rparr>))
         else if cf_StatsLevel C > 0 then
           (if bi_MemoryStart blockInfo = [] then
              subblock_stats B C variable (bi_Data blockInfo) (bi_Count blockInfo) stats
            else
              bind_sum (GetMinMaxSelection B (type_enum variable) (bi_Data blockInfo) (bi_MemoryCount blockInfo)
                  (bi_MemoryStart blockInfo) (bi_Count blockInfo) isRowMajor (st_Min stats, st_Max stats))
                (\<lambda>(Min, Max). Inr (stats\<lparr>st_Min := Min, st_Max := Max\<rparr>)))
         else Inr stats)"

definition GetBPStats_string :: "bp_data \<Rightarrow> 32 word \<Rightarrow> 32 word \<Rightarrow> Variable \<Rightarrow> Stats" where
  "GetBPStats_string B TimeStep FileIndex variable =
     (Stats_init B (type_enum variable))\<lparr>st_Step := TimeStep, st_FileIndex := FileIndex\<rparr>"

section \<open>The record of a variable in the data\<close>

definition PutVariableCharacteristicsInData ::
    "bp_lib \<Rightarrow> bp_serial \<Rightarrow> int \<Rightarrow> Variable \<Rightarrow> BPInfo \<Rightarrow> Stats \<Rightarrow> bytes \<times> nat \<Rightarrow> failure + bytes \<times> nat" where
  "PutVariableCharacteristicsInData L Z StatsLevel variable blockInfo stats bp =
     (case bp of (buffer, position) \<Rightarrow>
       (let characteristicsCountPosition = position
        in bind_sum
             (if bi_Data blockInfo \<noteq> None \<and> \<not> v_SingleValue variable
              then PutBoundsRecord L Z StatsLevel (v_SingleValue variable) stats (buffer, position + 5, 0)
              else Inr (buffer, position + 5, 0)) (\<lambda>(buffer, position, characteristicsCounter).
           bind_sum (puts L [Put [characteristicsCounter], Put (host L 4 (position - characteristicsCountPosition - 4 - 1))]
               (buffer, characteristicsCountPosition)) (\<lambda>(buffer, _).
             Inr (buffer, position)))))"

text \<open>The fields in front of the dimensions; both versions write the same.\<close>

definition variable_fields :: "bp_lib \<Rightarrow> Variable \<Rightarrow> Stats \<Rightarrow> size_t list \<Rightarrow> put list" where
  "variable_fields L variable stats Count =
     (let dimensions = (of_nat (length Count) :: byte)
      in [Put (host L 4 (unat (st_MemberID stats))), Name (v_Name variable), Put [of_char CHR ''K''], Put [0],
          Put [type_enum variable], Put [of_char CHR ''n''], Put [dimensions], Put (host L 2 (27 * unat dimensions))])"

definition PutVariableMetadataInData ::
    "bp_lib \<Rightarrow> bp_serial \<Rightarrow> bp_data \<Rightarrow> bp4_config \<Rightarrow> bp4_writer \<Rightarrow> Variable \<Rightarrow> BPInfo \<Rightarrow> Stats \<Rightarrow> Span option \<Rightarrow>
       failure + bp4_writer \<times> nat" where
  "PutVariableMetadataInData L Z B C W variable blockInfo stats span =
     (let D = w_Data W; mdBeginPosition = m_Position D
      in bind_sum (puts L [Put (str_bytes ''[VMD'')] (m_Buffer D, mdBeginPosition)) (\<lambda>(buffer, varLengthPosition).
         bind_sum (puts L ([Skip 8] @ variable_fields L variable stats (v_Count variable)) (buffer, varLengthPosition)) (\<lambda>bp.
         bind_sum (PutDimensionsRecord Z (v_Count variable) (v_Shape variable) (v_Start variable) bp) (\<lambda>bp.
         bind_sum (PutVariableCharacteristicsInData L Z (cf_StatsLevel C) variable blockInfo stats bp) (\<lambda>(buffer, padLengthPosition).
         bind_sum (puts L [Put (replicate 5 0)] (buffer, padLengthPosition)) (\<lambda>(buffer, position).
           (let extraBytes = (case span of None \<Rightarrow> 0 | Some _ \<Rightarrow> Align B (type_size variable) (D\<lparr>m_Buffer := buffer, m_Position := position\<rparr>));
                pad = (case span of None \<Rightarrow> str_bytes ''VMD]'' | Some _ \<Rightarrow> replicate extraBytes 0 @ str_bytes ''VMD]'')
            in bind_sum (puts L [Put [of_nat (length pad)], Put pad] (buffer, padLengthPosition)) (\<lambda>(buffer, _).
                 (let position = position + extraBytes
                  in Inr (W\<lparr>w_Data := \<lparr>m_Buffer = buffer, m_Position = position,
                       m_AbsolutePosition = m_AbsolutePosition D + of_nat (position - mdBeginPosition)\<rparr>\<rparr>, varLengthPosition))))))))))"

definition PutVariableMetadataInData_string ::
    "bp_lib \<Rightarrow> bp_serial \<Rightarrow> bp4_writer \<Rightarrow> Variable \<Rightarrow> BPInfo \<Rightarrow> Stats \<Rightarrow> failure + bp4_writer \<times> nat" where
  "PutVariableMetadataInData_string L Z W variable blockInfo stats =
     (let D = w_Data W; mdBeginPosition = m_Position D
      in bind_sum (puts L [Put (str_bytes ''[VMD'')] (m_Buffer D, mdBeginPosition)) (\<lambda>(buffer, varLengthPosition).
         bind_sum (puts L ([Skip 8] @ variable_fields L variable stats (bi_Count blockInfo)) (buffer, varLengthPosition)) (\<lambda>bp.
         bind_sum (PutDimensionsRecord Z (bi_Count blockInfo) (bi_Shape blockInfo) (bi_Start blockInfo) bp) (\<lambda>bp.
         bind_sum (puts L [Skip 5, Put (4 # str_bytes ''VMD]'')] bp) (\<lambda>(buffer, position).
           Inr (W\<lparr>w_Data := \<lparr>m_Buffer = buffer, m_Position = position,
             m_AbsolutePosition = m_AbsolutePosition D + of_nat (position - mdBeginPosition)\<rparr>\<rparr>, varLengthPosition))))))"

section \<open>PutVariableMetadata\<close>

text \<open>The lambda \<open>lf_SetOffset\<close>.\<close>

definition lf_SetOffset :: "bp4_config \<Rightarrow> bp4_writer \<Rightarrow> size_t" where
  "lf_SetOffset C W =
     (if cf_IsActive C \<and> \<not> cf_IsConsumer C then of_nat (m_Position (w_Data W))
      else m_AbsolutePosition (w_Data W) + w_PreDataFileLength W)"

text \<open>The template of a type \<open>T\<close>; for strings it calls the specializations.\<close>

definition PutVariableMetadata ::
    "bp_lib \<Rightarrow> bp_serial \<Rightarrow> bp_data \<Rightarrow> bp4_config \<Rightarrow> bp4_writer \<Rightarrow> Variable \<Rightarrow> BPInfo \<Rightarrow> bool \<Rightarrow> Span option \<Rightarrow>
       failure + bp4_writer \<times> Span option" where
  "PutVariableMetadata L Z B C W variable blockInfo sourceRowMajor span =
     (let is_string = (type_enum variable = bd_type_string B); ms = w_MetadataSet W
      in bind_sum
           (if is_string then Inr (GetBPStats_string B (ms_TimeStep ms) (GetFileIndex B W) variable)
            else GetBPStats B C (ms_TimeStep ms) (GetFileIndex B W) variable blockInfo sourceRowMajor) (\<lambda>stats.
         (let (variableIndex, isNew, VarsIndices) = GetSerialElementIndex B (v_Name variable) (ms_VarsIndices ms);
              variableIndex = variableIndex\<lparr>ix_Valid := True\<rparr>;
              stats = stats\<lparr>st_MemberID := ix_MemberID variableIndex, st_Offset := lf_SetOffset C W\<rparr>
          in bind_sum
               (if is_string then PutVariableMetadataInData_string L Z W variable blockInfo stats
                else PutVariableMetadataInData L Z B C W variable blockInfo stats span) (\<lambda>(W, varLengthPosition).
             (let stats = stats\<lparr>st_PayloadOffset := lf_SetOffset C W\<rparr>;
                  span = map_option (\<lambda>sp. sp\<lparr>sp_PayloadPosition := m_Position (w_Data W)\<rparr>) span
              in bind_sum
                   (if is_string then PutVariableMetadataInIndex_string L Z variable blockInfo stats variableIndex span
                    else PutVariableMetadataInIndex L Z (cf_StatsLevel C) variable blockInfo stats variableIndex span)
                   (\<lambda>(variableIndex, span).
                 Inr (W\<lparr>w_LastVarLengthPosInBuffer := varLengthPosition,
                     w_MetadataSet := ms\<lparr>ms_VarsIndices := AList.update (v_Name variable) variableIndex VarsIndices,
                       ms_DataPGVarsCount := ms_DataPGVarsCount ms + 1\<rparr>\<rparr>, span)))))))"

section \<open>PutVariablePayload and PutSpanMetadata\<close>

definition PutVariablePayload ::
    "bp_lib \<Rightarrow> bp_data \<Rightarrow> bp4_writer \<Rightarrow> Variable \<Rightarrow> BPInfo \<Rightarrow> bool \<Rightarrow> Span option \<Rightarrow> failure + bp4_writer" where
  "PutVariablePayload L B W variable blockInfo sourceRowMajor span =
     (case span of
        Some sp \<Rightarrow>
          (let blockSize = unat (GetTotalSize L (bi_Count blockInfo)); D = w_Data W
           in bind_sum
                (if \<not> is_default B (type_enum variable) (sp_Value sp)
                 then mem_write (m_Buffer D) (m_Position D) (concat (replicate blockSize (sp_Value sp)))
                 else Inr (m_Buffer D)) (\<lambda>buffer.
              Inr (W\<lparr>w_Data := \<lparr>m_Buffer = buffer, m_Position = m_Position D + blockSize * type_size variable,
                m_AbsolutePosition = m_AbsolutePosition D + of_nat (blockSize * type_size variable)\<rparr>\<rparr>)))
      | None \<Rightarrow>
          bind_sum
            (if bi_Operations blockInfo = []
             then bind_sum (PutPayloadInBuffer B variable blockInfo sourceRowMajor (w_Data W)) (\<lambda>D. Inr (W\<lparr>w_Data := D\<rparr>))
             else PutOperationPayloadInBuffer B variable blockInfo W) (\<lambda>W.
          (let varLength = (of_nat (m_Position (w_Data W)) - of_nat (w_LastVarLengthPosInBuffer W) :: size_t)
           in bind_sum (CopyToBuffer L (m_Buffer (w_Data W)) (w_LastVarLengthPosInBuffer W) (host L 8 (unat varLength))) (\<lambda>(buffer, _).
                Inr (W\<lparr>w_Data := (w_Data W)\<lparr>m_Buffer := buffer\<rparr>\<rparr>)))))"

text \<open>\<open>Span::Data\<close> is an argument; \<open>map::at\<close> throws when the variable has no index.\<close>

definition PutSpanMetadata ::
    "bp_lib \<Rightarrow> bp_serial \<Rightarrow> bp_data \<Rightarrow> bp4_config \<Rightarrow> bp4_writer \<Rightarrow> Variable \<Rightarrow> BPInfo \<Rightarrow> Span \<Rightarrow> bytes \<Rightarrow> failure + bp4_writer" where
  "PutSpanMetadata L Z B C W variable blockInfo span span_data =
     (if cf_StatsLevel C > 0 then
        bind_sum (subblock_stats B C variable (Some span_data) (bi_Count blockInfo)
            ((Stats_init B (type_enum variable))\<lparr>st_Min := zero_value variable, st_Max := zero_value variable\<rparr>)) (\<lambda>stats.
        (case map_of (ms_VarsIndices (w_MetadataSet W)) (v_Name variable) of
           None \<Rightarrow> Inl (Foreign_exn ''out_of_range'')
         | Some variableIndex \<Rightarrow>
             bind_sum (PutBoundsRecord L Z (cf_StatsLevel C) False stats
                 (ix_Buffer variableIndex, fst (sp_MinMaxMetadataPositions span), 0)) (\<lambda>(buffer, _, _).
               Inr (W\<lparr>w_MetadataSet := (w_MetadataSet W)\<lparr>ms_VarsIndices :=
                 AList.update (v_Name variable) (variableIndex\<lparr>ix_Buffer := buffer\<rparr>) (ms_VarsIndices (w_MetadataSet W))\<rparr>\<rparr>))))
      else Inr W)"

section \<open>Attributes\<close>

record Attribute =
  at_Name :: string
  at_IsSingleValue :: bool
  at_DataSingleValue :: bytes
  at_DataArray :: "bytes list"
  at_Elements :: size_t
  at_type_enum :: byte
  at_type_size :: nat

definition PutAttributeHeaderInData ::
    "bp_lib \<Rightarrow> Attribute \<Rightarrow> Stats \<Rightarrow> bytes \<Rightarrow> bytes \<times> nat \<Rightarrow> failure + (bytes \<times> nat) \<times> nat" where
  "PutAttributeHeaderInData L attribute stats headerID bp =
     bind_sum (puts L [Put headerID] bp) (\<lambda>(buffer, attributeLengthPosition).
     bind_sum (puts L [Skip 4, Put (host L 4 (unat (st_MemberID stats))), Name (at_Name attribute), Skip 2, Put [of_char CHR ''n'']]
         (buffer, attributeLengthPosition)) (\<lambda>bp.
       Inr (bp, attributeLengthPosition)))"

definition PutAttributeLengthInData :: "bp_lib \<Rightarrow> nat \<Rightarrow> bytes \<times> nat \<Rightarrow> failure + bytes \<times> nat" where
  "PutAttributeLengthInData L attributeLengthPosition bp =
     (case bp of (buffer, position) \<Rightarrow>
       bind_sum (CopyToBuffer L buffer attributeLengthPosition (host L 4 (position - attributeLengthPosition))) (\<lambda>(buffer, _).
         Inr (buffer, position)))"

text \<open>The first so many elements of the array: behind its end they cannot be read.\<close>

definition array_elements :: "Attribute \<Rightarrow> failure + bytes list" where
  "array_elements attribute =
     (if unat (at_Elements attribute) \<le> length (at_DataArray attribute)
      then Inr (take (unat (at_Elements attribute)) (at_DataArray attribute)) else Inl (Crash Out_of_bounds))"

text \<open>The value of an attribute of strings: one string, or each with its terminating zero.\<close>

definition string_values :: "bp_lib \<Rightarrow> Attribute \<Rightarrow> failure + bytes list" where
  "string_values L attribute =
     (if at_IsSingleValue attribute
      then Inr [host L 4 (length (at_DataSingleValue attribute)), at_DataSingleValue attribute]
      else bind_sum (array_elements attribute) (\<lambda>elements.
        Inr (host L 4 (unat (at_Elements attribute)) #
          concat (map (\<lambda>element. [host L 4 (length (element @ [0])), element @ [0]]) elements))))"

definition plain_values :: "bp_lib \<Rightarrow> Attribute \<Rightarrow> failure + bytes list" where
  "plain_values L attribute =
     bind_sum (if at_IsSingleValue attribute then Inr [at_DataSingleValue attribute] else array_elements attribute) (\<lambda>values.
       Inr [host L 4 (unat (at_Elements attribute * of_nat (at_type_size attribute))), concat values])"

text \<open>Both versions of \<open>PutAttributeInDataCommon\<close>: they differ in the data type and the values.\<close>

definition PutAttributeInDataCommon ::
    "bp_lib \<Rightarrow> bp_data \<Rightarrow> bp4_writer \<Rightarrow> Attribute \<Rightarrow> Stats \<Rightarrow> failure + bp4_writer \<times> Stats" where
  "PutAttributeInDataCommon L B W attribute stats =
     (let D = w_Data W; mdBeginPosition = m_Position D; is_string = (at_type_enum attribute = bd_type_string B)
      in bind_sum (PutAttributeHeaderInData L attribute stats (str_bytes ''[AMD'') (m_Buffer D, mdBeginPosition))
           (\<lambda>(bp, attributeLengthPosition).
         (let dataType = (if is_string \<and> \<not> at_IsSingleValue attribute then bd_type_string_array B else at_type_enum attribute)
          in bind_sum (puts L [Put [dataType]] bp) (\<lambda>(buffer, position).
             (let stats = stats\<lparr>st_PayloadOffset :=
                    m_AbsolutePosition D + of_nat position - of_nat mdBeginPosition + w_PreDataFileLength W\<rparr>
              in bind_sum (if is_string then string_values L attribute else plain_values L attribute) (\<lambda>values.
                 bind_sum (puts L (map Put values) (buffer, position)) (\<lambda>bp.
                 bind_sum (puts L [Put (str_bytes ''AMD]'')] bp) (\<lambda>bp.
                 bind_sum (PutAttributeLengthInData L attributeLengthPosition bp) (\<lambda>(buffer, position).
                   Inr (W\<lparr>w_Data := \<lparr>m_Buffer = buffer, m_Position = position,
                     m_AbsolutePosition = m_AbsolutePosition D + of_nat (position - mdBeginPosition)\<rparr>\<rparr>, stats))))))))))"

definition DoPutAttributeInData ::
    "bp_lib \<Rightarrow> bp_data \<Rightarrow> bp4_writer \<Rightarrow> Attribute \<Rightarrow> Stats \<Rightarrow> failure + bp4_writer \<times> Stats" where
  "DoPutAttributeInData L B W attribute stats = PutAttributeInDataCommon L B W attribute stats"

section \<open>What is written\<close>

text \<open>Bytes that are written at the position, behind each other.\<close>

lemma overlay_next:
  "pos + length xs + length ys \<le> length buf \<Longrightarrow> overlay (overlay buf pos xs) (pos + length xs) ys = overlay buf pos (xs @ ys)"
  by (simp add: overlay_def ac_simps)

lemma overlay_again:
  "pos + length ys \<le> length buf \<Longrightarrow> length xs \<le> length ys \<Longrightarrow> overlay (overlay buf pos xs) pos ys = overlay buf pos ys"
  by (cases ys) (auto simp: overlay_def min_def add.commute)

lemma overlay_prefix:
  "pos + length xs + length ys \<le> length buf \<Longrightarrow> overlay (overlay buf (pos + length xs) ys) pos xs = overlay buf pos (xs @ ys)"
  by (simp add: overlay_def ac_simps)

lemma overlay_inside:
  "pos + length (xs @ ys @ zs) \<le> length buf \<Longrightarrow> length ys' = length ys \<Longrightarrow>
     overlay (overlay buf pos (xs @ ys @ zs)) (pos + length xs) ys' = overlay buf pos (xs @ ys' @ zs)"
  by (simp add: overlay_def)

definition put_data :: "bp4_writer \<Rightarrow> bytes \<Rightarrow> bp4_writer" where
  "put_data W bs =
     (let D = w_Data W
      in W\<lparr>w_Data := \<lparr>m_Buffer = overlay (m_Buffer D) (m_Position D) bs, m_Position = m_Position D + length bs,
           m_AbsolutePosition = m_AbsolutePosition D + of_nat (length bs)\<rparr>\<rparr>)"

definition room_for :: "nat \<Rightarrow> bp4_writer \<Rightarrow> bool" where
  "room_for n W \<longleftrightarrow> m_Position (w_Data W) + n \<le> length (m_Buffer (w_Data W))"

lemma put_data_sel [simp]:
  "m_Position (w_Data (put_data W bs)) = m_Position (w_Data W) + length bs"
  "m_Buffer (w_Data (put_data W bs)) = overlay (m_Buffer (w_Data W)) (m_Position (w_Data W)) bs"
  "w_MetadataSet (put_data W bs) = w_MetadataSet W" "w_PreDataFileLength (put_data W bs) = w_PreDataFileLength W"
  "w_IsClosed (put_data W bs) = w_IsClosed W"
  by (simp_all add: put_data_def Let_def)

lemma put_data_Nil: "put_data W [] = W"
  by (simp add: put_data_def Let_def overlay_def)

lemma put_data_append: "room_for (length xs + length ys) W \<Longrightarrow> put_data (put_data W xs) ys = put_data W (xs @ ys)"
  by (simp add: put_data_def Let_def room_for_def overlay_next add.assoc)

lemma room_for_put: "room_for (length xs) W \<Longrightarrow> room_for n (put_data W xs) \<longleftrightarrow> room_for (length xs + n) W"
  by (simp add: room_for_def add.assoc)

lemma offset_put_data: "lf_SetOffset C (put_data W bs) = lf_SetOffset C W + of_nat (length bs)"
  by (simp add: lf_SetOffset_def put_data_def Let_def)

text \<open>The record of a block: its tag, its length, and what the length covers.\<close>

definition variable_frame :: "bp_lib \<Rightarrow> bytes \<Rightarrow> bytes" where
  "variable_frame L body = str_bytes ''[VMD'' @ host L 8 (8 + length body) @ body"

lemma length_variable_frame [simp]: "length (variable_frame L body) = 12 + length body"
  by (simp add: variable_frame_def)

definition variable_head :: "bp_lib \<Rightarrow> Variable \<Rightarrow> 32 word \<Rightarrow> size_t list \<Rightarrow> bytes" where
  "variable_head L variable member Count =
     host L 4 (unat member) @ name_record L (v_Name variable) @
     [of_char CHR ''K'', 0, type_enum variable, of_char CHR ''n'', of_nat (length Count)] @
     host L 2 (27 * unat (of_nat (length Count) :: byte))"

lemma length_variable_head [simp]: "length (variable_head L variable member Count) = 13 + length (v_Name variable)"
  by (simp add: variable_head_def)

text \<open>The record of the bounds.\<close>

definition bounds_record :: "bp_lib \<Rightarrow> bp_serial \<Rightarrow> Stats \<Rightarrow> bytes" where
  "bounds_record L Z stats =
     characteristic_minmax Z # host L 2 (unat (sub_blocks stats)) @ st_Min stats @ st_Max stats @
     (if sub_blocks stats > 1
      then sb_DivisionMethod (st_SubBlockInfo stats) # host L 8 (unat (sb_SubBlockSize (st_SubBlockInfo stats))) @
        concat (sb_Div (st_SubBlockInfo stats)) @ concat (st_MinMaxs stats)
      else [])"

definition data_bounds :: "bp_lib \<Rightarrow> bp_serial \<Rightarrow> int \<Rightarrow> Variable \<Rightarrow> BPInfo \<Rightarrow> Stats \<Rightarrow> bytes" where
  "data_bounds L Z StatsLevel variable blockInfo stats =
     (if bi_Data blockInfo \<noteq> None \<and> \<not> v_SingleValue variable \<and> StatsLevel > 0 then bounds_record L Z stats else [])"

definition data_characteristics :: "bp_lib \<Rightarrow> bp_serial \<Rightarrow> int \<Rightarrow> Variable \<Rightarrow> BPInfo \<Rightarrow> Stats \<Rightarrow> bytes" where
  "data_characteristics L Z StatsLevel variable blockInfo stats =
     characteristics_block L (of_bool (bi_Data blockInfo \<noteq> None \<and> \<not> v_SingleValue variable \<and> StatsLevel > 0))
       (data_bounds L Z StatsLevel variable blockInfo stats)"

lemma length_characteristics_block [simp]: "length (characteristics_block L n body) = 5 + length body"
  by (simp add: characteristics_block_def)

context bp_serial_library
begin

lemma PutBoundsRecord_fits:
  assumes "StatsLevel > 0" and "pos + length (bounds_record L Z stats) \<le> length buf"
  shows "PutBoundsRecord L Z StatsLevel False stats (buf, pos, n) =
    Inr (overlay buf pos (bounds_record L Z stats), pos + length (bounds_record L Z stats), n + 1)"
proof -
  let ?xs = "[[characteristic_minmax Z], host L 2 (unat (sub_blocks stats)), st_Min stats, st_Max stats]"
  let ?ys = "[[sb_DivisionMethod (st_SubBlockInfo stats)], host L 8 (unat (sb_SubBlockSize (st_SubBlockInfo stats)))] @
    sb_Div (st_SubBlockInfo stats) @ st_MinMaxs stats"
  have rec: "bounds_record L Z stats = concat ?xs @ (if sub_blocks stats > 1 then concat ?ys else [])"
    by (simp add: bounds_record_def)
  have xs: "puts L (map Put ?xs) (buf, pos) = Inr (overlay buf pos (concat ?xs), pos + length (concat ?xs))"
    by (rule puts_Puts_fits) (use assms(2) in \<open>simp add: rec\<close>)
  have ys: "puts L (map Put ?ys) (overlay buf pos (concat ?xs), pos + length (concat ?xs)) =
      Inr (overlay buf pos (concat ?xs @ concat ?ys), pos + length (concat ?xs) + length (concat ?ys))"
    if "sub_blocks stats > 1"
  proof -
    have fits: "pos + length (concat ?xs) + length (concat ?ys) \<le> length buf" using assms(2) that by (simp add: rec)
    show ?thesis
      by (subst puts_Puts_fits) (use fits in \<open>simp_all only: overlay_next length_overlay add_leD1\<close>)
  qed
  show ?thesis
    using assms(1) xs ys by (simp add: PutBoundsRecord_def rec Let_def)
qed

lemma PutVariableCharacteristicsInData_fits:
  assumes "pos + length (data_characteristics L Z StatsLevel variable b stats) \<le> length buf"
  shows "PutVariableCharacteristicsInData L Z StatsLevel variable b stats (buf, pos) =
    Inr (overlay buf pos (data_characteristics L Z StatsLevel variable b stats),
         pos + length (data_characteristics L Z StatsLevel variable b stats))"
proof -
  let ?has = "bi_Data b \<noteq> None \<and> \<not> v_SingleValue variable"
  let ?bounds = "data_bounds L Z StatsLevel variable b stats" and ?n = "of_bool (?has \<and> StatsLevel > 0) :: byte"
  let ?head = "[?n] @ host L 4 (length ?bounds)"
  have block: "data_characteristics L Z StatsLevel variable b stats = ?head @ ?bounds"
    by (simp add: data_characteristics_def characteristics_block_def)
  have fits: "pos + 5 + length ?bounds \<le> length buf" using assms by (simp add: block)
  have put: "(if ?has then PutBoundsRecord L Z StatsLevel (v_SingleValue variable) stats (buf, pos + 5, 0)
      else Inr (buf, pos + 5, 0)) = Inr (overlay buf (pos + 5) ?bounds, pos + 5 + length ?bounds, ?n)"
  proof (cases "?has \<and> StatsLevel > 0")
    case True
    then show ?thesis using fits by (auto simp: data_bounds_def PutBoundsRecord_fits)
  next
    case False
    then have "?bounds = []" by (auto simp: data_bounds_def)
    then show ?thesis using False fits by (auto simp: PutBoundsRecord_def overlay_def)
  qed
  have head: "puts L (map Put [[?n], host L 4 (length ?bounds)]) (overlay buf (pos + 5) ?bounds, pos) =
      Inr (overlay buf pos (?head @ ?bounds), pos + 5)"
    using puts_Puts_fits [of pos "[[?n], host L 4 (length ?bounds)]" "overlay buf (pos + 5) ?bounds"]
      overlay_prefix [of pos ?head ?bounds buf] fits by simp
  have len: "pos + 5 + length ?bounds - pos - 4 - 1 = length ?bounds" by simp
  show ?thesis
    unfolding PutVariableCharacteristicsInData_def prod.case Let_def put bind_sum_simps len block
    using head by simp
qed

text \<open>The tag and the fields, the same in both versions.\<close>

definition vmd_open :: "Variable \<Rightarrow> 32 word \<Rightarrow> size_t list \<Rightarrow> bytes \<Rightarrow> bytes" where
  "vmd_open variable member Count old = str_bytes ''[VMD'' @ take 8 old @ variable_head L variable member Count"

lemma puts_vmd_open:
  assumes "pos + 25 + length (v_Name v) \<le> length buf"
  shows "\<exists>buf1. puts L [Put (str_bytes ''[VMD'')] (buf, pos) = Inr (buf1, pos + 4) \<and>
    puts L ([Skip 8] @ variable_fields L v stats Count) (buf1, pos + 4) =
      Inr (overlay buf pos (vmd_open v (st_MemberID stats) Count (drop (pos + 4) buf)), pos + 25 + length (v_Name v))"
proof -
  define vmd where "vmd = str_bytes ''[VMD''"
  have vmd [simp]: "length vmd = 4" by (simp add: vmd_def)
  let ?fields = "[Skip 8] @ variable_fields L v stats Count"
  have size: "puts_size ?fields = 21 + length (v_Name v)" by (simp add: variable_fields_def Let_def)
  have image: "put_image L ?fields old = take 8 old @ variable_head L v (st_MemberID stats) Count" for old
    by (simp add: variable_fields_def variable_head_def Let_def)
  have one: "puts L [Put vmd] (buf, pos) = Inr (overlay buf pos vmd, pos + 4)" using assms by (simp add: copy_fits)
  have rest: "drop (pos + 4) (overlay buf pos vmd) = drop (pos + 4) buf"
    using assms by (simp add: overlay_def)
  have "puts L ?fields (overlay buf pos vmd, pos + 4) =
      Inr (overlay (overlay buf pos vmd) (pos + 4) (put_image L ?fields (drop (pos + 4) buf)), pos + 4 + (21 + length (v_Name v)))"
    using puts_fits [of "pos + 4" ?fields "overlay buf pos vmd"] assms unfolding size rest by simp
  also have "overlay (overlay buf pos vmd) (pos + 4) (put_image L ?fields (drop (pos + 4) buf)) =
      overlay buf pos (vmd_open v (st_MemberID stats) Count (drop (pos + 4) buf))"
    using overlay_next [of pos vmd "put_image L ?fields (drop (pos + 4) buf)" buf] assms
    unfolding image vmd_open_def vmd_def [symmetric] by simp
  finally show ?thesis using one unfolding vmd_def by (intro exI conjI) (assumption, simp)
qed

lemma length_vmd_open: "8 \<le> length old \<Longrightarrow> length (vmd_open v member Count old) = 25 + length (v_Name v)"
  by (simp add: vmd_open_def)

lemma PutVariableMetadataInData_fits:
  assumes dims: "dims_ok (v_Count v) (v_Shape v) (v_Start v)"
    and align: "\<And>D. Align B (type_size v) D \<le> type_size v"
    and room: "room_for (30 + length (v_Name v) + 27 * length (v_Count v) +
      length (data_characteristics L Z (cf_StatsLevel C) v b stats) + (if span = None then 0 else type_size v)) W"
  shows "\<exists>d gap. length d = 27 * length (v_Count v) \<and> gap \<le> (if span = None then 0 else type_size v) \<and>
    PutVariableMetadataInData L Z B C W v b stats span =
      Inr (put_data W (vmd_open v (st_MemberID stats) (v_Count v) (drop (m_Position (w_Data W) + 4) (m_Buffer (w_Data W))) @ d @
        data_characteristics L Z (cf_StatsLevel C) v b stats @ [of_nat (gap + 4)] @ replicate gap 0 @ str_bytes ''VMD]''),
        m_Position (w_Data W) + 4)"
proof -
  let ?n = "length (v_Name v)" and ?dc = "data_characteristics L Z (cf_StatsLevel C) v b stats"
  define buf where "buf = m_Buffer (w_Data W)"
  define pos where "pos = m_Position (w_Data W)"
  define opn where "opn = vmd_open v (st_MemberID stats) (v_Count v) (drop (pos + 4) buf)"
  note defs = buf_def [symmetric] pos_def [symmetric]
  have room': "pos + (30 + ?n + 27 * length (v_Count v) + length ?dc + (if span = None then 0 else type_size v)) \<le> length buf"
    using room by (simp add: room_for_def defs)
  have fits: "pos + 30 + ?n + 27 * length (v_Count v) + length ?dc \<le> length buf" using room' by simp
  have opn: "length opn = 25 + ?n" using fits by (simp add: opn_def length_vmd_open)
  obtain buf1 where w1: "puts L [Put (str_bytes ''[VMD'')] (buf, pos) = Inr (buf1, pos + 4)"
    and w2: "puts L ([Skip 8] @ variable_fields L v stats (v_Count v)) (buf1, pos + 4) =
      Inr (overlay buf pos opn, pos + 25 + ?n)"
    using puts_vmd_open [of pos v buf stats "v_Count v"] fits by (auto simp: opn_def)
  obtain d where d: "length d = 27 * length (v_Count v)"
    and w3: "PutDimensionsRecord Z (v_Count v) (v_Shape v) (v_Start v) (overlay buf pos opn, pos + 25 + ?n) =
      Inr (overlay (overlay buf pos opn) (pos + 25 + ?n) d, pos + 25 + ?n + 27 * length (v_Count v))"
    using dimensions_fits [OF dims, of "pos + 25 + ?n" "overlay buf pos opn"] fits opn by auto
  have b3: "overlay (overlay buf pos opn) (pos + 25 + ?n) d = overlay buf pos (opn @ d)"
    using overlay_next [of pos opn d buf] fits opn d by (simp add: add.assoc)
  define padpos where "padpos = pos + length (opn @ d @ ?dc)"
  have w4: "PutVariableCharacteristicsInData L Z (cf_StatsLevel C) v b stats
      (overlay buf pos (opn @ d), pos + 25 + ?n + 27 * length (v_Count v)) = Inr (overlay buf pos (opn @ d @ ?dc), padpos)"
    using PutVariableCharacteristicsInData_fits [of "pos + length (opn @ d)" "cf_StatsLevel C" v b stats "overlay buf pos (opn @ d)"]
      overlay_next [of pos "opn @ d" ?dc buf] fits opn d by (simp add: padpos_def add.assoc)
  define buf5 where "buf5 = overlay buf pos ((opn @ d @ ?dc) @ replicate 5 0)"
  have w5: "puts L [Put (replicate 5 0)] (overlay buf pos (opn @ d @ ?dc), padpos) = Inr (buf5, padpos + 5)"
    using overlay_next [of pos "opn @ d @ ?dc" "replicate 5 0" buf] fits opn d
    by (simp add: copy_fits padpos_def buf5_def)
  define gap where "gap = (case span of None \<Rightarrow> 0 | Some _ \<Rightarrow> Align B (type_size v) ((w_Data W)\<lparr>m_Buffer := buf5, m_Position := padpos + 5\<rparr>))"
  have gap: "gap \<le> (if span = None then 0 else type_size v)" using align by (simp add: gap_def split: option.split)
  define pad where "pad = replicate gap 0 @ str_bytes ''VMD]''"
  have pad_eq: "(case span of None \<Rightarrow> str_bytes ''VMD]'' | Some _ \<Rightarrow> replicate gap 0 @ str_bytes ''VMD]'') = pad"
    by (simp add: pad_def gap_def split: option.split)
  have len_pad: "length pad = gap + 4" by (simp add: pad_def)
  have fits5: "padpos + (gap + 5) \<le> length buf" using room' gap opn d by (simp add: padpos_def split: if_splits)
  have b6: "overlay buf5 padpos ([of_nat (gap + 4)] @ pad) = overlay buf pos ((opn @ d @ ?dc) @ [of_nat (gap + 4)] @ pad)"
  proof -
    have five: "buf5 = overlay (overlay buf pos (opn @ d @ ?dc)) padpos (replicate 5 0)"
      using overlay_next [of pos "opn @ d @ ?dc" "replicate 5 0" buf] fits opn d by (simp add: buf5_def padpos_def)
    have "overlay buf5 padpos ([of_nat (gap + 4)] @ pad) = overlay (overlay buf pos (opn @ d @ ?dc)) padpos ([of_nat (gap + 4)] @ pad)"
      unfolding five by (rule overlay_again) (use fits5 opn d in \<open>simp_all add: len_pad padpos_def\<close>)
    also have "\<dots> = overlay buf pos ((opn @ d @ ?dc) @ [of_nat (gap + 4)] @ pad)"
      unfolding padpos_def by (rule overlay_next) (use fits5 in \<open>simp add: len_pad padpos_def\<close>)
    finally show ?thesis .
  qed
  have w6: "puts L [Put [of_nat (length pad)], Put pad] (buf5, padpos) =
      Inr (overlay buf pos ((opn @ d @ ?dc) @ [of_nat (gap + 4)] @ pad), padpos + (gap + 5))"
    using puts_Puts_fits [of padpos "[[of_nat (gap + 4)], pad]" buf5] b6 fits5 fits opn d by (simp add: len_pad buf5_def padpos_def)
  have final: "padpos + 5 + gap = pos + length ((opn @ d @ ?dc) @ [of_nat (gap + 4)] @ pad)" by (simp add: padpos_def len_pad)
  have run: "PutVariableMetadataInData L Z B C W v b stats span =
      Inr (put_data W ((opn @ d @ ?dc) @ [of_nat (gap + 4)] @ pad), pos + 4)"
    unfolding PutVariableMetadataInData_def Let_def defs w1 w2 w3 w4 w5 w6 b3 bind_sum_simps prod.case gap_def [symmetric] pad_eq
    unfolding final put_data_def Let_def defs by simp
  show ?thesis
    using run d gap unfolding opn_def pad_def defs by (intro exI [of _ d] exI [of _ gap]) simp
qed

lemma PutVariableMetadataInData_string_fits:
  assumes dims: "dims_ok (bi_Count b) (bi_Shape b) (bi_Start b)"
    and room: "room_for (35 + length (v_Name v) + 27 * length (bi_Count b)) W"
  shows "\<exists>d. length d = 27 * length (bi_Count b) + 5 \<and>
    PutVariableMetadataInData_string L Z W v b stats =
      Inr (put_data W (vmd_open v (st_MemberID stats) (bi_Count b) (drop (m_Position (w_Data W) + 4) (m_Buffer (w_Data W))) @ d @
        [4] @ str_bytes ''VMD]''), m_Position (w_Data W) + 4)"
proof -
  let ?n = "length (v_Name v)"
  define buf where "buf = m_Buffer (w_Data W)"
  define pos where "pos = m_Position (w_Data W)"
  define opn where "opn = vmd_open v (st_MemberID stats) (bi_Count b) (drop (pos + 4) buf)"
  note defs = buf_def [symmetric] pos_def [symmetric]
  have fits: "pos + 35 + ?n + 27 * length (bi_Count b) \<le> length buf" using room by (simp add: room_for_def defs)
  have opn: "length opn = 25 + ?n" using fits by (simp add: opn_def length_vmd_open)
  obtain buf1 where w1: "puts L [Put (str_bytes ''[VMD'')] (buf, pos) = Inr (buf1, pos + 4)"
    and w2: "puts L ([Skip 8] @ variable_fields L v stats (bi_Count b)) (buf1, pos + 4) =
      Inr (overlay buf pos opn, pos + 25 + ?n)"
    using puts_vmd_open [of pos v buf stats "bi_Count b"] fits by (auto simp: opn_def)
  obtain d where d: "length d = 27 * length (bi_Count b)"
    and w3: "PutDimensionsRecord Z (bi_Count b) (bi_Shape b) (bi_Start b) (overlay buf pos opn, pos + 25 + ?n) =
      Inr (overlay (overlay buf pos opn) (pos + 25 + ?n) d, pos + 25 + ?n + 27 * length (bi_Count b))"
    using dimensions_fits [OF dims, of "pos + 25 + ?n" "overlay buf pos opn"] fits opn by auto
  have b3: "overlay (overlay buf pos opn) (pos + 25 + ?n) d = overlay buf pos (opn @ d)"
    using overlay_next [of pos opn d buf] fits opn d by (simp add: add.assoc)
  define p where "p = pos + 25 + ?n + 27 * length (bi_Count b)"
  define old where "old = take 5 (drop p buf)"
  define tail where "tail = old @ 4 # str_bytes ''VMD]''"
  have p: "p = pos + length (opn @ d)" by (simp add: p_def opn d)
  have old: "length old = 5" "length tail = 10" using fits by (simp_all add: tail_def old_def p_def)
  have "drop p (overlay buf pos (opn @ d)) = drop p buf" unfolding p using fits opn d by (simp add: overlay_def)
  then have w4: "puts L [Skip 5, Put (4 # str_bytes ''VMD]'')] (overlay buf pos (opn @ d), p) =
      Inr (overlay buf pos ((opn @ d) @ tail), pos + length ((opn @ d) @ tail))"
    using puts_fits [of p "[Skip 5, Put (4 # str_bytes ''VMD]'')]" "overlay buf pos (opn @ d)"]
      overlay_next [of pos "opn @ d" tail buf] fits opn d old
    by (simp add: p tail_def old_def)
  have "PutVariableMetadataInData_string L Z W v b stats = Inr (put_data W ((opn @ d) @ tail), pos + 4)"
    unfolding PutVariableMetadataInData_string_def Let_def defs w1 w2 w3 b3 p_def [symmetric] w4 bind_sum_simps prod.case
    unfolding put_data_def Let_def defs by simp
  then show ?thesis
    unfolding opn_def tail_def defs using d old by (intro exI [of _ "d @ old"]) simp
qed

end

section \<open>The record of an attribute\<close>

text \<open>The record of an attribute; the bytes of the path are stepped over.\<close>

definition attribute_body :: "bp_lib \<Rightarrow> Attribute \<Rightarrow> 32 word \<Rightarrow> bytes \<Rightarrow> byte \<Rightarrow> bytes \<Rightarrow> bytes" where
  "attribute_body L attribute member path dataType values =
     host L 4 (unat member) @ name_record L (at_Name attribute) @ path @ [of_char CHR ''n''] @ [dataType] @ values @ str_bytes ''AMD]''"

definition attribute_frame :: "bp_lib \<Rightarrow> bytes \<Rightarrow> bytes" where
  "attribute_frame L body = str_bytes ''[AMD'' @ host L 4 (4 + length body) @ body"

definition attribute_type :: "bp_data \<Rightarrow> Attribute \<Rightarrow> byte" where
  "attribute_type B attribute =
     (if at_type_enum attribute = bd_type_string B \<and> \<not> at_IsSingleValue attribute then bd_type_string_array B else at_type_enum attribute)"

definition attribute_values :: "bp_lib \<Rightarrow> bp_data \<Rightarrow> Attribute \<Rightarrow> failure + bytes list" where
  "attribute_values L B attribute =
     (if at_type_enum attribute = bd_type_string B then string_values L attribute else plain_values L attribute)"

lemma length_attribute_frame [simp]: "length (attribute_frame L body) = 8 + length body"
  by (simp add: attribute_frame_def)

context bp_library
begin

lemma PutAttributeHeaderInData_fits:
  assumes "pos + 17 + length (at_Name a) \<le> length buf"
  shows "PutAttributeHeaderInData L a stats (str_bytes ''[AMD'') (buf, pos) =
    Inr ((overlay buf pos (str_bytes ''[AMD'' @ take 4 (drop (pos + 4) buf) @ host L 4 (unat (st_MemberID stats)) @
      name_record L (at_Name a) @ take 2 (drop (pos + 14 + length (at_Name a)) buf) @ [of_char CHR ''n'']),
      pos + 17 + length (at_Name a)), pos + 4)"
proof -
  define amd where "amd = str_bytes ''[AMD''"
  have amd [simp]: "length amd = 4" by (simp add: amd_def)
  let ?fields = "[Skip 4, Put (host L 4 (unat (st_MemberID stats))), Name (at_Name a), Skip 2, Put [of_char CHR ''n'']]"
  have size: "puts_size ?fields = 13 + length (at_Name a)" by simp
  let ?image = "take 4 (drop (pos + 4) buf) @ host L 4 (unat (st_MemberID stats)) @ name_record L (at_Name a) @
    take 2 (drop (pos + 14 + length (at_Name a)) buf) @ [of_char CHR ''n'']"
  have image: "put_image L ?fields (drop (pos + 4) buf) = ?image" by (simp add: add.commute add.left_commute)
  have rest: "drop (pos + 4) (overlay buf pos amd) = drop (pos + 4) buf" using assms by (simp add: overlay_def)
  have one: "puts L [Put amd] (buf, pos) = Inr (overlay buf pos amd, pos + 4)" using assms by (simp add: copy_fits)
  have "puts L ?fields (overlay buf pos amd, pos + 4) = Inr (overlay (overlay buf pos amd) (pos + 4) ?image, pos + 4 + (13 + length (at_Name a)))"
    using puts_fits [of "pos + 4" ?fields "overlay buf pos amd"] assms unfolding size rest image by simp
  moreover have "overlay (overlay buf pos amd) (pos + 4) ?image = overlay buf pos (amd @ ?image)"
    using overlay_next [of pos amd ?image buf] assms by simp
  ultimately show ?thesis
    unfolding PutAttributeHeaderInData_def amd_def [symmetric] one bind_sum_simps prod.case by simp
qed

lemma PutAttributeInDataCommon_fits:
  assumes vals: "attribute_values L B a = Inr values"
    and room: "room_for (22 + length (at_Name a) + length (concat values)) W"
  shows "\<exists>path. length path = 2 \<and> PutAttributeInDataCommon L B W a stats =
    Inr (put_data W (attribute_frame L (attribute_body L a (st_MemberID stats) path (attribute_type B a) (concat values))),
      stats\<lparr>st_PayloadOffset := m_AbsolutePosition (w_Data W) + of_nat (18 + length (at_Name a)) + w_PreDataFileLength W\<rparr>)"
proof -
  let ?n = "length (at_Name a)" and ?v = "concat values" and ?t = "attribute_type B a"
  define buf where "buf = m_Buffer (w_Data W)"
  define pos where "pos = m_Position (w_Data W)"
  note defs = buf_def [symmetric] pos_def [symmetric]
  define amd where "amd = str_bytes ''[AMD''"
  define tail where "tail = str_bytes ''AMD]''"
  have amd [simp]: "length amd = 4" "length tail = 4" by (simp_all add: amd_def tail_def)
  have fits: "pos + 22 + ?n + length ?v \<le> length buf" using room by (simp add: room_for_def defs)
  define old where "old = take 4 (drop (pos + 4) buf)"
  define path where "path = take 2 (drop (pos + 14 + ?n) buf)"
  have old [simp]: "length old = 4" "length path = 2" using fits by (simp_all add: old_def path_def)
  define rest where "rest = host L 4 (unat (st_MemberID stats)) @ name_record L (at_Name a) @ path @ [of_char CHR ''n'']"
  have rest [simp]: "length rest = 9 + ?n" by (simp add: rest_def)
  have w1: "PutAttributeHeaderInData L a stats amd (buf, pos) = Inr ((overlay buf pos (amd @ old @ rest), pos + 17 + ?n), pos + 4)"
    using PutAttributeHeaderInData_fits [of pos a buf stats] fits unfolding amd_def [symmetric] old_def [symmetric] path_def [symmetric] rest_def
    by simp
  have w2: "puts L [Put [?t]] (overlay buf pos (amd @ old @ rest), pos + 17 + ?n) =
      Inr (overlay buf pos ((amd @ old @ rest) @ [?t]), pos + 18 + ?n)"
    using overlay_next [of pos "amd @ old @ rest" "[?t]" buf] fits by (simp add: copy_fits add.assoc)
  have w3: "puts L (map Put values) (overlay buf pos ((amd @ old @ rest) @ [?t]), pos + 18 + ?n) =
      Inr (overlay buf pos (((amd @ old @ rest) @ [?t]) @ ?v), pos + 18 + ?n + length ?v)"
    using puts_Puts_fits [of "pos + 18 + ?n" "values" "overlay buf pos ((amd @ old @ rest) @ [?t])"]
      overlay_next [of pos "(amd @ old @ rest) @ [?t]" ?v buf] fits by (simp add: add.assoc)
  define all where "all = (((amd @ old @ rest) @ [?t]) @ ?v) @ tail"
  have all: "length all = 22 + ?n + length ?v" by (simp add: all_def)
  have w4: "puts L [Put tail] (overlay buf pos (((amd @ old @ rest) @ [?t]) @ ?v), pos + 18 + ?n + length ?v) =
      Inr (overlay buf pos all, pos + length all)"
    using overlay_next [of pos "((amd @ old @ rest) @ [?t]) @ ?v" tail buf] fits
    by (simp add: copy_fits add.assoc all_def)
  define body where "body = attribute_body L a (st_MemberID stats) path ?t ?v"
  have frame: "length (attribute_frame L body) = length all" by (simp add: body_def attribute_body_def all)
  have len: "pos + length all - (pos + 4) = 4 + length body" using frame by simp
  have "all = amd @ old @ body" by (simp add: all_def rest_def body_def attribute_body_def tail_def)
  then have close: "overlay (overlay buf pos all) (pos + 4) (host L 4 (4 + length body)) = overlay buf pos (attribute_frame L body)"
    using overlay_inside [of pos amd old body buf "host L 4 (4 + length body)"] fits all
    unfolding attribute_frame_def amd_def [symmetric] by simp
  have w5: "PutAttributeLengthInData L (pos + 4) (overlay buf pos all, pos + length all) =
      Inr (overlay buf pos (attribute_frame L body), pos + length all)"
    unfolding PutAttributeLengthInData_def prod.case len close [symmetric]
    by (subst copy_fits) (use fits all in simp_all)
  have off: "m_AbsolutePosition (w_Data W) + of_nat (pos + 18 + ?n) - of_nat pos = m_AbsolutePosition (w_Data W) + of_nat (18 + ?n)"
    by simp
  have "PutAttributeInDataCommon L B W a stats = Inr (put_data W (attribute_frame L body),
      stats\<lparr>st_PayloadOffset := m_AbsolutePosition (w_Data W) + of_nat (18 + ?n) + w_PreDataFileLength W\<rparr>)"
    unfolding PutAttributeInDataCommon_def Let_def attribute_type_def [symmetric] attribute_values_def [symmetric] vals
      amd_def [symmetric] tail_def [symmetric] defs w1 w2 w3 w4 w5 bind_sum_simps prod.case off
    using frame by (simp add: put_data_def Let_def defs)
  then show ?thesis using old unfolding body_def by blast
qed

end

end
