(* ===== verification/Bp4_Put.thy ===== *)
theory Bp4_Put
  imports Bp4_Data
begin

text \<open>
  Blocks of variables that are put into a process group one after the other: what the library
  promises (\<open>bp_data_library\<close>), the record and the block of the index that one
  \<open>PutVariableMetadata\<close> and \<open>PutVariablePayload\<close> write, the records of many, and the group
  around them from \<open>PutProcessGroupIndex\<close> to \<open>CloseData\<close>.
\<close>

section \<open>The laws of the library\<close>

text \<open>
  \<open>GetSerialElementIndex\<close> finds an index or adds an empty one whose number is how many there
  are; \<open>Align\<close> skips no more than a value; \<open>PutPayloadInBuffer\<close> appends the payload of the
  block, which is its data where they are contiguous in memory.
\<close>

locale bp_data_library = bp_serial_library L Z for L :: bp_lib and Z :: bp_serial +
  fixes B :: bp_data and payload :: "Variable \<Rightarrow> BPInfo \<Rightarrow> bool \<Rightarrow> bytes"
  assumes existing_index: "map_of indices name = Some i \<Longrightarrow> GetSerialElementIndex B name indices = (i, False, indices)"
    and new_index: "map_of indices name = None \<Longrightarrow> \<exists>i indices'. GetSerialElementIndex B name indices = (i, True, indices') \<and>
      map_of indices' = (map_of indices)(name \<mapsto> i) \<and> ix_Buffer i = [] \<and> ix_MemberID i = of_nat (length indices) \<and> ix_CurrentStep i = 0"
    and align_le: "Align B n D \<le> n"
    and payload_fits: "m_Position D + length (payload v b row) \<le> length (m_Buffer D) \<Longrightarrow> PutPayloadInBuffer B v b row D =
      Inr \<lparr>m_Buffer = overlay (m_Buffer D) (m_Position D) (payload v b row), m_Position = m_Position D + length (payload v b row),
        m_AbsolutePosition = m_AbsolutePosition D + of_nat (length (payload v b row))\<rparr>"
    and payload_contiguous: "bi_MemoryStart b = [] \<Longrightarrow> bi_Data b = Some d \<Longrightarrow> type_enum v \<noteq> bd_type_string B \<Longrightarrow>
      length d = unat (GetTotalSize L (bi_Count b)) * type_size v \<Longrightarrow> payload v b row = d"

section \<open>Putting a block\<close>

text \<open>A block is put with its metadata and its payload; blocks are put one after the other.\<close>

type_synonym request = "Variable \<times> BPInfo \<times> bool"

definition put_variable ::
    "bp_lib \<Rightarrow> bp_serial \<Rightarrow> bp_data \<Rightarrow> bp4_config \<Rightarrow> bp4_writer \<Rightarrow> request \<Rightarrow> failure + bp4_writer" where
  "put_variable L Z B C W r =
     (case r of (variable, blockInfo, row) \<Rightarrow>
       bind_sum (PutVariableMetadata L Z B C W variable blockInfo row None) (\<lambda>(W, _).
         PutVariablePayload L B W variable blockInfo row None))"

fun put_variables ::
    "bp_lib \<Rightarrow> bp_serial \<Rightarrow> bp_data \<Rightarrow> bp4_config \<Rightarrow> bp4_writer \<Rightarrow> request list \<Rightarrow> failure + bp4_writer" where
  "put_variables L Z B C W [] = Inr W"
| "put_variables L Z B C W (r # rs) = bind_sum (put_variable L Z B C W r) (\<lambda>W. put_variables L Z B C W rs)"

abbreviation is_string :: "bp_data \<Rightarrow> Variable \<Rightarrow> bool" where
  "is_string B v \<equiv> type_enum v = bd_type_string B"

definition request_dims :: "bp_data \<Rightarrow> request \<Rightarrow> size_t list" where
  "request_dims B r = (case r of (v, b, row) \<Rightarrow> if is_string B v then bi_Count b else v_Count v)"

text \<open>
  A block that can be put: without operations; a string has its value, the statistics of other
  data can be found; the dimensions fit together.
\<close>

definition request_ok :: "bp_data \<Rightarrow> bp4_config \<Rightarrow> request \<Rightarrow> bool" where
  "request_ok B C r \<longleftrightarrow>
     (case r of (v, b, row) \<Rightarrow> bi_Operations b = [] \<and>
       (if is_string B v then dims_ok (bi_Count b) (bi_Shape b) (bi_Start b) \<and> bi_Data b \<noteq> None
        else dims_ok (v_Count v) (v_Shape v) (v_Start v) \<and> (\<exists>stats. GetBPStats B C 0 0 v b row = Inr stats)))"

text \<open>How many bytes its record has: the tag, the length, the fields, the dimensions, the bounds, the padding, the payload.\<close>

definition request_bounds :: "bp_lib \<Rightarrow> bp_serial \<Rightarrow> bp_data \<Rightarrow> bp4_config \<Rightarrow> request \<Rightarrow> bytes" where
  "request_bounds L Z B C r =
     (case r of (v, b, row) \<Rightarrow>
       if is_string B v then []
       else (case GetBPStats B C 0 0 v b row of Inl _ \<Rightarrow> [] | Inr stats \<Rightarrow> data_bounds L Z (cf_StatsLevel C) v b stats))"

definition record_size ::
    "bp_lib \<Rightarrow> bp_serial \<Rightarrow> bp_data \<Rightarrow> (Variable \<Rightarrow> BPInfo \<Rightarrow> bool \<Rightarrow> bytes) \<Rightarrow> bp4_config \<Rightarrow> request \<Rightarrow> nat" where
  "record_size L Z B payload C r =
     35 + length (v_Name (fst r)) + 27 * length (request_dims B r) + length (request_bounds L Z B C r) +
     length (case r of (v, b, row) \<Rightarrow> payload v b row)"

text \<open>The record, and the block of the index that points to it.\<close>

definition frame_of ::
    "bp_lib \<Rightarrow> bp_data \<Rightarrow> (Variable \<Rightarrow> BPInfo \<Rightarrow> bool \<Rightarrow> bytes) \<Rightarrow> request \<Rightarrow> bytes \<Rightarrow> bool" where
  "frame_of L B payload r frame \<longleftrightarrow>
     (case r of (v, b, row) \<Rightarrow> \<exists>member meta.
       frame = variable_frame L (variable_head L v member (request_dims B r) @ meta @ str_bytes ''VMD]'' @ payload v b row))"

definition index_block_at :: "bp_lib \<Rightarrow> bp_serial \<Rightarrow> 32 word \<Rightarrow> size_t \<Rightarrow> size_t \<Rightarrow> bytes \<Rightarrow> bool" where
  "index_block_at L Z step offset payloadOffset block \<longleftrightarrow>
     (\<exists>n body. block = characteristics_block L n (step_body L Z step body) \<and> points_to L Z offset payloadOffset body)"

text \<open>The blocks of a variable that are in its index for the step.\<close>

definition index_step :: "bp_lib \<Rightarrow> Variable \<Rightarrow> 32 word \<Rightarrow> bytes list \<Rightarrow> SerialElementIndex \<Rightarrow> bool" where
  "index_step L v step blocks i \<longleftrightarrow>
     (if ix_CurrentStep i = step then \<exists>old. index_ok L v (ix_MemberID i) old blocks i else blocks = [])"

definition step_entry :: "bp_lib \<Rightarrow> Variable \<Rightarrow> bp4_writer \<Rightarrow> bytes list \<Rightarrow> bool" where
  "step_entry L v W blocks \<longleftrightarrow>
     (case map_of (ms_VarsIndices (w_MetadataSet W)) (v_Name v) of
        None \<Rightarrow> blocks = []
      | Some i \<Rightarrow> index_step L v (ms_TimeStep (w_MetadataSet W)) blocks i)"

lemma index_step_same:
  "v_Name v' = v_Name v \<Longrightarrow> type_enum v' = type_enum v \<Longrightarrow> index_step L v' step blocks i = index_step L v step blocks i"
  by (simp add: index_step_def index_ok_def index_entry_def entry_header_def)

lemma step_entry_same:
  assumes "v_Name v' = v_Name v" and "type_enum v' = type_enum v"
  shows "step_entry L v' W blocks = step_entry L v W blocks"
  by (simp add: step_entry_def assms(1) index_step_same [OF assms] split: option.split)

lemma index_step_valid [simp]: "index_step L v step blocks (i\<lparr>ix_Valid := True\<rparr>) = index_step L v step blocks i"
  by (simp add: index_step_def index_ok_def)

text \<open>The step and the file do not decide what else the statistics are.\<close>

abbreviation at_step :: "32 word \<Rightarrow> 32 word \<Rightarrow> Stats \<Rightarrow> Stats" where
  "at_step t f stats \<equiv> stats\<lparr>st_Step := t, st_FileIndex := f\<rparr>"

lemma subblock_stats_step:
  "subblock_stats B C v d c (at_step t f stats) = bind_sum (subblock_stats B C v d c stats) (\<lambda>s. Inr (at_step t f s))"
  by (cases "GetMinMaxSubblocks B (type_enum v) d c (DivideBlock B c (cf_StatsBlockSize C)) (cf_Threads C)
      (st_MinMaxs stats, st_Min stats, st_Max stats)") (simp_all add: subblock_stats_def Let_def split: prod.split)

lemma bind_sum_assoc: "bind_sum (bind_sum r f) g = bind_sum r (\<lambda>x. bind_sum (f x) g)"
  by (cases r) simp_all

lemma GetBPStats_step: "GetBPStats B C t f v b row = bind_sum (GetBPStats B C 0 0 v b row) (\<lambda>stats. Inr (at_step t f stats))"
proof -
  define stats where "stats = Stats_init B (type_enum v)"
  have minmax: "(at_step t f stats)\<lparr>st_Min := x, st_Max := y\<rparr> = at_step t f (stats\<lparr>st_Min := x, st_Max := y\<rparr>)"
    and single: "(at_step t f stats)\<lparr>st_Value := x, st_Min := x, st_Max := x\<rparr> = at_step t f (stats\<lparr>st_Value := x, st_Min := x, st_Max := x\<rparr>)"
    for t f :: "32 word" and x y by simp_all
  have again: "at_step t f (at_step 0 0 s) = at_step t f s" for s :: Stats by simp
  consider (span) "bi_Data b = None" "cf_StatsLevel C > 0"
    | (single) "\<not> (bi_Data b = None \<and> cf_StatsLevel C > 0)" "v_SingleValue v"
    | (many) "\<not> (bi_Data b = None \<and> cf_StatsLevel C > 0)" "\<not> v_SingleValue v" by argo
  then show ?thesis
  proof cases
    case span
    then show ?thesis
      unfolding GetBPStats_def Let_def stats_def [symmetric] by (simp only: minmax subblock_stats_step simp_thms if_True
          bind_sum_assoc bind_sum_simps again)
  next
    case single
    then show ?thesis
      unfolding GetBPStats_def Let_def stats_def [symmetric] by (cases "bi_Data b") simp_all
  next
    case many
    then show ?thesis
      unfolding GetBPStats_def Let_def stats_def [symmetric]
      by (cases "bi_Data b") (simp_all add: minmax subblock_stats_step bind_sum_assoc again split_def)
  qed
qed

lemma data_bounds_cong:
  "st_Min stats' = st_Min stats \<Longrightarrow> st_Max stats' = st_Max stats \<Longrightarrow> st_MinMaxs stats' = st_MinMaxs stats \<Longrightarrow>
     st_SubBlockInfo stats' = st_SubBlockInfo stats \<Longrightarrow> data_bounds L Z n v b stats' = data_bounds L Z n v b stats"
  by (simp add: data_bounds_def bounds_record_def sub_blocks_def)

context bp_serial_library
begin

lemma put_in_index_step:
  assumes "index_step L v (st_Step stats) blocks i" and "st_MemberID stats = ix_MemberID i"
    and "\<And>buf. \<exists>span'. chars buf = Inr (buf @ block, span')"
  shows "\<exists>i' span'. put_in_index L chars v stats i = Inr (i', span') \<and> index_step L v (st_Step stats) (blocks @ [block]) i'"
proof (cases "ix_CurrentStep i = st_Step stats")
  case True
  then obtain old where "index_ok L v (ix_MemberID i) old blocks i" using assms(1) by (auto simp: index_step_def)
  from put_in_index_more [OF True this assms(3)] obtain i' span' where put: "put_in_index L chars v stats i = Inr (i', span')"
    and ok: "index_ok L v (ix_MemberID i) old (blocks @ [block]) i'" "ix_CurrentStep i' = st_Step stats" "ix_MemberID i' = ix_MemberID i"
    by blast
  have "index_step L v (st_Step stats) (blocks @ [block]) i'" unfolding index_step_def using ok by auto
  with put show ?thesis by blast
next
  case False
  then have "blocks = []" using assms(1) by (simp add: index_step_def)
  moreover obtain i' span' where put: "put_in_index L chars v stats i = Inr (i', span')"
    and ok: "index_ok L v (st_MemberID stats) (ix_Buffer i) [block] i'" "ix_CurrentStep i' = st_Step stats" "ix_MemberID i' = ix_MemberID i"
    using put_in_index_new [OF False assms(3), of v] by blast
  moreover have "index_step L v (st_Step stats) [block] i'" unfolding index_step_def using ok assms(2) by auto
  ultimately show ?thesis by (metis append_Nil)
qed

end

text \<open>The length goes into the record.\<close>

lemma close_frame:
  assumes "pos + length bs \<le> length buf" and "bs = str_bytes ''[VMD'' @ old @ body" and "length old = 8"
  shows "overlay (overlay buf pos bs) (pos + 4) (host L 8 (length bs - 4)) = overlay buf pos (variable_frame L body)"
  using overlay_inside [of pos "str_bytes ''[VMD''" old body buf "host L 8 (8 + length body)"] assms
  by (simp add: variable_frame_def numeral_eq_Suc)

definition indexed :: "bp4_writer \<Rightarrow> nat \<Rightarrow> (string \<times> SerialElementIndex) list \<Rightarrow> bp4_writer" where
  "indexed W lengthPosition indices =
     W\<lparr>w_LastVarLengthPosInBuffer := lengthPosition,
       w_MetadataSet := (w_MetadataSet W)\<lparr>ms_VarsIndices := indices, ms_DataPGVarsCount := ms_DataPGVarsCount (w_MetadataSet W) + 1\<rparr>\<rparr>"

lemma indexed_sel [simp]:
  "w_Data (indexed W l is) = w_Data W" "w_PreDataFileLength (indexed W l is) = w_PreDataFileLength W"
  "w_IsClosed (indexed W l is) = w_IsClosed W" "w_LastVarLengthPosInBuffer (indexed W l is) = l"
  "ms_VarsIndices (w_MetadataSet (indexed W l is)) = is" "ms_TimeStep (w_MetadataSet (indexed W l is)) = ms_TimeStep (w_MetadataSet W)"
  "ms_DataPGVarsCount (w_MetadataSet (indexed W l is)) = ms_DataPGVarsCount (w_MetadataSet W) + 1"
  "ms_DataPGIsOpen (w_MetadataSet (indexed W l is)) = ms_DataPGIsOpen (w_MetadataSet W)"
  "ms_DataPGLengthPosition (w_MetadataSet (indexed W l is)) = ms_DataPGLengthPosition (w_MetadataSet W)"
  "ms_DataPGVarsCountPosition (w_MetadataSet (indexed W l is)) = ms_DataPGVarsCountPosition (w_MetadataSet W)"
  by (simp_all add: indexed_def)

lemma offset_indexed [simp]: "lf_SetOffset C (indexed W l is) = lf_SetOffset C W"
  by (simp add: lf_SetOffset_def)

context bp_data_library
begin

lemma index_found:
  "\<exists>i new indices'. GetSerialElementIndex B (v_Name v) (ms_VarsIndices (w_MetadataSet W)) = (i, new, indices') \<and>
    (\<forall>name. name \<noteq> v_Name v \<longrightarrow> map_of indices' name = map_of (ms_VarsIndices (w_MetadataSet W)) name) \<and>
    (step_entry L v W blocks \<longrightarrow> ms_TimeStep (w_MetadataSet W) \<noteq> 0 \<longrightarrow> index_step L v (ms_TimeStep (w_MetadataSet W)) blocks i)"
proof (cases "map_of (ms_VarsIndices (w_MetadataSet W)) (v_Name v)")
  case None
  then obtain i indices' where "GetSerialElementIndex B (v_Name v) (ms_VarsIndices (w_MetadataSet W)) = (i, True, indices')"
    "map_of indices' = (map_of (ms_VarsIndices (w_MetadataSet W)))(v_Name v \<mapsto> i)" "ix_CurrentStep i = 0"
    using new_index by blast
  with None show ?thesis by (auto simp: step_entry_def index_step_def)
next
  case (Some i)
  then show ?thesis using existing_index [OF Some] by (auto simp: step_entry_def)
qed

text \<open>The index of the variable gets the block.\<close>

lemma step_entry_indexed:
  assumes "index_step L v (ms_TimeStep (w_MetadataSet W)) blocks i"
  shows "step_entry L v (indexed W l (AList.update (v_Name v) i is)) blocks"
  using assms by (simp add: step_entry_def update_conv')

lemma index_gets_block:
  assumes "index_step L v (st_Step stats) blocks i" and "st_MemberID stats = ix_MemberID i"
    and "block_of stats n body block" and "\<And>buf. \<exists>span'. chars buf = Inr (buf @ block, span')"
  shows "\<exists>i' span'. put_in_index L chars v stats i = Inr (i', span') \<and> index_step L v (st_Step stats) (blocks @ [block]) i' \<and>
    index_block_at L Z (st_Step stats) (st_Offset stats) (st_PayloadOffset stats) block"
proof -
  have "index_block_at L Z (st_Step stats) (st_Offset stats) (st_PayloadOffset stats) block"
    using assms(3) unfolding block_of_def index_block_at_def by blast
  then show ?thesis using put_in_index_step [OF assms(1,2,4)] by blast
qed

text \<open>The block of a variable that is not a string is what \<open>PutVariableCharacteristics\<close> writes.\<close>

definition written_block :: "bp4_config \<Rightarrow> Variable \<Rightarrow> BPInfo \<Rightarrow> 32 word \<Rightarrow> 32 word \<Rightarrow> size_t \<Rightarrow> bytes \<Rightarrow> bool" where
  "written_block C v b step fileIndex payloadOffset block \<longleftrightarrow>
     (\<exists>stats. st_Step stats = step \<and> st_FileIndex stats = fileIndex \<and> st_PayloadOffset stats = payloadOffset \<and>
       (\<forall>buf. \<exists>span'. PutVariableCharacteristics L Z (cf_StatsLevel C) v b stats buf None = Inr (buf @ block, span')))"

text \<open>What a request writes before its payload: an open record, and where its length goes.\<close>

definition metadata_put :: "bp4_config \<Rightarrow> bp4_writer \<Rightarrow> request \<Rightarrow> bytes list \<Rightarrow> bool" where
  "metadata_put C W r blocks \<longleftrightarrow>
     (case r of (v, b, row) \<Rightarrow> \<exists>old member meta indices block span'. length old = 8 \<and>
       (let bs = str_bytes ''[VMD'' @ old @ variable_head L v member (request_dims B r) @ meta @ str_bytes ''VMD]'';
            W' = indexed (put_data W bs) (m_Position (w_Data W) + 4) indices
        in length bs + length (payload v b row) = record_size L Z B payload C r \<and>
           PutVariableMetadata L Z B C W v b row None = Inr (W', span') \<and> step_entry L v W' (blocks @ [block]) \<and>
           (\<forall>name. name \<noteq> v_Name v \<longrightarrow> map_of indices name = map_of (ms_VarsIndices (w_MetadataSet W)) name) \<and>
           index_block_at L Z (ms_TimeStep (w_MetadataSet W)) (lf_SetOffset C W) (lf_SetOffset C W') block \<and>
           (\<not> is_string B v \<longrightarrow> written_block C v b (ms_TimeStep (w_MetadataSet W)) (GetFileIndex B W) (lf_SetOffset C W') block)))"

lemma metadata_putI:
  assumes bs: "bs = str_bytes ''[VMD'' @ old @ variable_head L v member (request_dims B (v, b, row)) @ meta @ str_bytes ''VMD]''"
    and old: "length old = 8" and size: "length bs + length (payload v b row) = record_size L Z B payload C (v, b, row)"
    and run: "PutVariableMetadata L Z B C W v b row None =
      Inr (indexed (put_data W bs) (m_Position (w_Data W) + 4) (AList.update (v_Name v) i' indices'), span')"
    and entry: "index_step L v (ms_TimeStep (w_MetadataSet W)) (blocks @ [block]) i'"
    and others: "\<forall>name. name \<noteq> v_Name v \<longrightarrow> map_of indices' name = map_of (ms_VarsIndices (w_MetadataSet W)) name"
    and at: "index_block_at L Z (ms_TimeStep (w_MetadataSet W)) (lf_SetOffset C W) (lf_SetOffset C (put_data W bs)) block"
    and chars: "\<not> is_string B v \<longrightarrow> written_block C v b (ms_TimeStep (w_MetadataSet W)) (GetFileIndex B W) (lf_SetOffset C (put_data W bs)) block"
  shows "metadata_put C W (v, b, row) blocks"
proof -
  let ?indices = "AList.update (v_Name v) i' indices'"
  have "step_entry L v (indexed (put_data W bs) (m_Position (w_Data W) + 4) ?indices) (blocks @ [block])"
    using entry by (intro step_entry_indexed) simp
  moreover have "\<forall>name. name \<noteq> v_Name v \<longrightarrow> map_of ?indices name = map_of (ms_VarsIndices (w_MetadataSet W)) name"
    using others by (simp add: update_conv')
  ultimately show ?thesis
    using old at chars size run unfolding metadata_put_def prod.case Let_def
    by (intro exI [of _ old] exI [of _ member] exI [of _ meta] exI [of _ ?indices] exI [of _ block] exI [of _ span'])
      (simp add: bs)
qed

lemma put_metadata_string:
  assumes ok: "request_ok B C (v, b, row)" and room: "room_for (record_size L Z B payload C (v, b, row)) W"
    and step: "step_entry L v W blocks" "ms_TimeStep (w_MetadataSet W) \<noteq> 0" and str: "is_string B v"
  shows "metadata_put C W (v, b, row) blocks"
proof -
  let ?ms = "w_MetadataSet W" and ?pos = "m_Position (w_Data W)"
  obtain i new indices' where get: "GetSerialElementIndex B (v_Name v) (ms_VarsIndices ?ms) = (i, new, indices')"
    and others: "\<forall>name. name \<noteq> v_Name v \<longrightarrow> map_of indices' name = map_of (ms_VarsIndices ?ms) name"
    and entry: "index_step L v (ms_TimeStep ?ms) blocks i"
    using index_found [of v W blocks] step by blast
  define stats where "stats = (GetBPStats_string B (ms_TimeStep ?ms) (GetFileIndex B W) v)\<lparr>st_MemberID := ix_MemberID i, st_Offset := lf_SetOffset C W\<rparr>"
  obtain str where data: "bi_Data b = Some str" and dims: "dims_ok (bi_Count b) (bi_Shape b) (bi_Start b)"
    using ok str by (auto simp: request_ok_def)
  have size: "record_size L Z B payload C (v, b, row) = 35 + length (v_Name v) + 27 * length (bi_Count b) + length (payload v b row)"
    by (simp add: record_size_def request_dims_def request_bounds_def str)
  have room': "room_for (35 + length (v_Name v) + 27 * length (bi_Count b)) W" using room unfolding size by (simp add: room_for_def)
  define old where "old = take 8 (drop (?pos + 4) (m_Buffer (w_Data W)))"
  have old: "length old = 8" using room' by (simp add: old_def room_for_def)
  obtain d where d: "length d = 27 * length (bi_Count b) + 5"
    and run: "PutVariableMetadataInData_string L Z W v b stats = Inr (put_data W (vmd_open v (st_MemberID stats) (bi_Count b)
      (drop (?pos + 4) (m_Buffer (w_Data W))) @ d @ [4] @ str_bytes ''VMD]''), ?pos + 4)"
    using PutVariableMetadataInData_string_fits [OF dims room', of stats] by blast
  define bs where "bs = str_bytes ''[VMD'' @ old @ variable_head L v (ix_MemberID i) (bi_Count b) @ (d @ [4]) @ str_bytes ''VMD]''"
  have run': "PutVariableMetadataInData_string L Z W v b stats = Inr (put_data W bs, ?pos + 4)"
    unfolding run by (simp add: bs_def vmd_open_def stats_def old_def)
  define stats' where "stats' = stats\<lparr>st_PayloadOffset := lf_SetOffset C (put_data W bs)\<rparr>"
  obtain body block where block: "block_of stats' 6 body block"
    and chars: "\<And>buf. PutVariableCharacteristics_string L Z v b stats' buf = Inr (buf @ block)"
    using PutVariableCharacteristics_string_block [OF data] by blast
  have st: "st_Step stats' = ms_TimeStep ?ms" "st_MemberID stats' = ix_MemberID i" "st_Offset stats' = lf_SetOffset C W"
    "st_PayloadOffset stats' = lf_SetOffset C (put_data W bs)"
    by (simp_all add: stats'_def stats_def GetBPStats_string_def)
  obtain i' span' where idx: "PutVariableMetadataInIndex_string L Z v b stats' (i\<lparr>ix_Valid := True\<rparr>) None = Inr (i', span')"
    and entry': "index_step L v (ms_TimeStep ?ms) (blocks @ [block]) i'"
    and at: "index_block_at L Z (ms_TimeStep ?ms) (lf_SetOffset C W) (lf_SetOffset C (put_data W bs)) block"
    using index_gets_block [of v stats' blocks "i\<lparr>ix_Valid := True\<rparr>" 6 body block
        "\<lambda>buffer. bind_sum (PutVariableCharacteristics_string L Z v b stats' buffer) (\<lambda>buffer. Inr (buffer, None))"] block chars entry
    unfolding PutVariableMetadataInIndex_string_def st by auto
  have run: "PutVariableMetadata L Z B C W v b row None =
      Inr (indexed (put_data W bs) (?pos + 4) (AList.update (v_Name v) i' indices'), span')"
    using idx unfolding PutVariableMetadata_def Let_def get by (simp add: str run' [unfolded stats_def] stats_def stats'_def indexed_def)
  show ?thesis
    by (rule metadata_putI [OF _ old _ run entry' others at]) (simp_all add: bs_def request_dims_def str size old d)
qed

lemma put_metadata_plain:
  assumes ok: "request_ok B C (v, b, row)" and room: "room_for (record_size L Z B payload C (v, b, row)) W"
    and step: "step_entry L v W blocks" "ms_TimeStep (w_MetadataSet W) \<noteq> 0" and str: "\<not> is_string B v"
  shows "metadata_put C W (v, b, row) blocks"
proof -
  let ?ms = "w_MetadataSet W" and ?pos = "m_Position (w_Data W)"
  obtain i new indices' where get: "GetSerialElementIndex B (v_Name v) (ms_VarsIndices ?ms) = (i, new, indices')"
    and others: "\<forall>name. name \<noteq> v_Name v \<longrightarrow> map_of indices' name = map_of (ms_VarsIndices ?ms) name"
    and entry: "index_step L v (ms_TimeStep ?ms) blocks i"
    using index_found [of v W blocks] step by blast
  obtain stats0 where stats0: "GetBPStats B C 0 0 v b row = Inr stats0" and dims: "dims_ok (v_Count v) (v_Shape v) (v_Start v)"
    using ok str by (auto simp: request_ok_def)
  define stats where "stats = (at_step (ms_TimeStep ?ms) (GetFileIndex B W) stats0)\<lparr>st_MemberID := ix_MemberID i, st_Offset := lf_SetOffset C W\<rparr>"
  have found: "GetBPStats B C (ms_TimeStep ?ms) (GetFileIndex B W) v b row = Inr (at_step (ms_TimeStep ?ms) (GetFileIndex B W) stats0)"
    by (subst GetBPStats_step) (simp add: stats0)
  have bounds: "data_bounds L Z (cf_StatsLevel C) v b stats = request_bounds L Z B C (v, b, row)"
    by (simp add: request_bounds_def str stats0 stats_def data_bounds_def bounds_record_def sub_blocks_def)
  let ?dc = "data_characteristics L Z (cf_StatsLevel C) v b stats"
  have dc: "length ?dc = 5 + length (request_bounds L Z B C (v, b, row))"
    by (simp add: data_characteristics_def bounds)
  have size: "record_size L Z B payload C (v, b, row) = 30 + length (v_Name v) + 27 * length (v_Count v) + length ?dc + length (payload v b row)"
    by (simp add: record_size_def request_dims_def str dc)
  have room': "room_for (30 + length (v_Name v) + 27 * length (v_Count v) + length ?dc + (if None = (None :: Span option) then 0 else type_size v)) W"
    using room unfolding size by (simp add: room_for_def)
  define old where "old = take 8 (drop (?pos + 4) (m_Buffer (w_Data W)))"
  have old: "length old = 8" using room' by (simp add: old_def room_for_def)
  obtain d where d: "length d = 27 * length (v_Count v)"
    and run: "PutVariableMetadataInData L Z B C W v b stats None = Inr (put_data W (vmd_open v (st_MemberID stats) (v_Count v)
      (drop (?pos + 4) (m_Buffer (w_Data W))) @ d @ ?dc @ [4] @ str_bytes ''VMD]''), ?pos + 4)"
    using PutVariableMetadataInData_fits [of v B, OF dims align_le room'] by auto
  define bs where "bs = str_bytes ''[VMD'' @ old @ variable_head L v (ix_MemberID i) (v_Count v) @ (d @ ?dc @ [4]) @ str_bytes ''VMD]''"
  have run': "PutVariableMetadataInData L Z B C W v b stats None = Inr (put_data W bs, ?pos + 4)"
    unfolding run by (simp add: bs_def vmd_open_def stats_def old_def)
  define stats' where "stats' = stats\<lparr>st_PayloadOffset := lf_SetOffset C (put_data W bs)\<rparr>"
  obtain body block where block: "block_of stats' (characteristics_count (cf_StatsLevel C) v b None) body block"
    and chars: "\<And>buf. \<exists>span'. PutVariableCharacteristics L Z (cf_StatsLevel C) v b stats' buf None = Inr (buf @ block, span')"
    using PutVariableCharacteristics_block by metis
  have st: "st_Step stats' = ms_TimeStep ?ms" "st_MemberID stats' = ix_MemberID i" "st_Offset stats' = lf_SetOffset C W"
    "st_PayloadOffset stats' = lf_SetOffset C (put_data W bs)"
    by (simp_all add: stats'_def stats_def)
  obtain i' span' where idx: "PutVariableMetadataInIndex L Z (cf_StatsLevel C) v b stats' (i\<lparr>ix_Valid := True\<rparr>) None = Inr (i', span')"
    and entry': "index_step L v (ms_TimeStep ?ms) (blocks @ [block]) i'"
    and at: "index_block_at L Z (ms_TimeStep ?ms) (lf_SetOffset C W) (lf_SetOffset C (put_data W bs)) block"
    using index_gets_block [of v stats' blocks "i\<lparr>ix_Valid := True\<rparr>"
        "characteristics_count (cf_StatsLevel C) v b None" body block
        "\<lambda>buffer. PutVariableCharacteristics L Z (cf_StatsLevel C) v b stats' buffer None"] block chars entry
    unfolding PutVariableMetadataInIndex_def st by auto
  have run: "PutVariableMetadata L Z B C W v b row None =
      Inr (indexed (put_data W bs) (?pos + 4) (AList.update (v_Name v) i' indices'), span')"
    using idx unfolding PutVariableMetadata_def Let_def get
    by (simp add: str found run' [unfolded stats_def] stats_def stats'_def indexed_def)
  have wrote: "written_block C v b (ms_TimeStep ?ms) (GetFileIndex B W) (lf_SetOffset C (put_data W bs)) block"
    unfolding written_block_def using st chars by (intro exI [of _ stats']) (simp add: stats'_def stats_def)
  show ?thesis
    by (rule metadata_putI [OF _ old _ run entry' others at]) (simp_all add: bs_def request_dims_def str size old d wrote [unfolded bs_def, simplified])
qed

lemma put_metadata:
  assumes "request_ok B C (v, b, row)" and "room_for (record_size L Z B payload C (v, b, row)) W"
    and "step_entry L v W blocks" "ms_TimeStep (w_MetadataSet W) \<noteq> 0"
  shows "metadata_put C W (v, b, row) blocks"
  using put_metadata_string [OF assms] put_metadata_plain [OF assms] by blast

text \<open>A request writes its record behind the data and a block that points to it into the index.\<close>

definition variable_put :: "bp4_config \<Rightarrow> bp4_writer \<Rightarrow> request \<Rightarrow> bytes list \<Rightarrow> bp4_writer \<Rightarrow> bytes \<Rightarrow> bytes \<Rightarrow> bool" where
  "variable_put C W r blocks W' frame block \<longleftrightarrow>
     (case r of (v, b, row) \<Rightarrow> frame_of L B payload r frame \<and> length frame = record_size L Z B payload C r \<and>
       (\<exists>indices. W' = indexed (put_data W frame) (m_Position (w_Data W) + 4) indices \<and>
         (\<forall>name. name \<noteq> v_Name v \<longrightarrow> map_of indices name = map_of (ms_VarsIndices (w_MetadataSet W)) name)) \<and>
       step_entry L v W' (blocks @ [block]) \<and>
       index_block_at L Z (ms_TimeStep (w_MetadataSet W)) (lf_SetOffset C W)
         (lf_SetOffset C W + of_nat (length frame - length (payload v b row))) block \<and>
       (\<not> is_string B v \<longrightarrow> written_block C v b (ms_TimeStep (w_MetadataSet W)) (GetFileIndex B W)
         (lf_SetOffset C W + of_nat (length frame - length (payload v b row))) block))"

lemma put_variable_writes:
  assumes ok: "request_ok B C (v, b, row)" and room: "room_for (record_size L Z B payload C (v, b, row)) W"
    and step: "step_entry L v W blocks" "ms_TimeStep (w_MetadataSet W) \<noteq> 0"
  shows "\<exists>W' frame block. put_variable L Z B C W (v, b, row) = Inr W' \<and> variable_put C W (v, b, row) blocks W' frame block"
proof -
  let ?pos = "m_Position (w_Data W)" and ?p = "payload v b row" and ?ms = "w_MetadataSet W"
  obtain old member meta indices block span' bs where old: "length old = 8"
    and bs: "bs = str_bytes ''[VMD'' @ old @ variable_head L v member (request_dims B (v, b, row)) @ meta @ str_bytes ''VMD]''"
    and size: "length bs + length ?p = record_size L Z B payload C (v, b, row)"
    and run: "PutVariableMetadata L Z B C W v b row None = Inr (indexed (put_data W bs) (?pos + 4) indices, span')"
    and entry: "step_entry L v (indexed (put_data W bs) (?pos + 4) indices) (blocks @ [block])"
    and others: "\<forall>name. name \<noteq> v_Name v \<longrightarrow> map_of indices name = map_of (ms_VarsIndices ?ms) name"
    and at: "index_block_at L Z (ms_TimeStep ?ms) (lf_SetOffset C W) (lf_SetOffset C (indexed (put_data W bs) (?pos + 4) indices)) block"
    and chars: "\<not> is_string B v \<longrightarrow>
      written_block C v b (ms_TimeStep ?ms) (GetFileIndex B W) (lf_SetOffset C (indexed (put_data W bs) (?pos + 4) indices)) block"
    using put_metadata [OF assms] unfolding metadata_put_def prod.case Let_def by metis
  define body where "body = variable_head L v member (request_dims B (v, b, row)) @ meta @ str_bytes ''VMD]'' @ ?p"
  have bsp: "bs @ ?p = str_bytes ''[VMD'' @ old @ body" by (simp add: bs body_def)
  have fits: "?pos + length (bs @ ?p) \<le> length (m_Buffer (w_Data W))" using room size by (simp add: room_for_def)
  have data: "w_Data (indexed (put_data W bs) (?pos + 4) indices) = w_Data (put_data W bs)" by simp
  have put: "PutPayloadInBuffer B v b row (w_Data (put_data W bs)) = Inr (w_Data (put_data W (bs @ ?p)))"
    using payload_fits [of "w_Data (put_data W bs)" v b row] fits overlay_next [of ?pos bs ?p "m_Buffer (w_Data W)"]
    by (simp add: put_data_def Let_def add.assoc)
  have len: "(of_nat (?pos + length (bs @ ?p)) - of_nat (?pos + 4) :: size_t) = of_nat (length (bs @ ?p) - 4)"
    using bsp by (subst of_nat_diff [symmetric]) simp_all
  have closed: "overlay (overlay (m_Buffer (w_Data W)) ?pos (bs @ ?p)) (?pos + 4) (host L 8 (length (bs @ ?p) - 4)) =
      overlay (m_Buffer (w_Data W)) ?pos (variable_frame L body)"
    by (rule close_frame [OF fits bsp old])
  have copy: "CopyToBuffer L (overlay (m_Buffer (w_Data W)) ?pos (bs @ ?p)) (?pos + 4) (host L 8 (length (bs @ ?p) - 4)) =
      Inr (overlay (m_Buffer (w_Data W)) ?pos (variable_frame L body), ?pos + 12)"
    unfolding closed [symmetric] by (subst copy_fits) (use fits bsp old in \<open>simp_all add: body_def\<close>)
  have frame: "length (variable_frame L body) = length (bs @ ?p)" by (simp add: bsp old)
  have no_ops: "bi_Operations b = []" using ok by (simp add: request_ok_def)
  let ?W1 = "indexed (put_data W bs) (?pos + 4) indices"
  define W' where "W' = indexed (put_data W (variable_frame L body)) (?pos + 4) indices"
  have result: "?W1\<lparr>w_Data := w_Data (put_data W (bs @ ?p))\<lparr>m_Buffer := overlay (m_Buffer (w_Data W)) ?pos (variable_frame L body)\<rparr>\<rparr> = W'"
    using frame by (simp add: W'_def indexed_def put_data_def Let_def)
  have "PutVariablePayload L B ?W1 v b row None = Inr W'"
    using copy unfolding PutVariablePayload_def option.case data put no_ops bind_sum_simps simp_thms if_True Let_def
    by (simp add: len [simplified] host_8_of_nat [simplified] result)
  then have put: "put_variable L Z B C W (v, b, row) = Inr W'"
    unfolding put_variable_def prod.case run by simp
  have "variable_put C W (v, b, row) blocks W' (variable_frame L body) block"
    unfolding variable_put_def prod.case
  proof (intro conjI exI)
    show "frame_of L B payload (v, b, row) (variable_frame L body)"
      unfolding frame_of_def prod.case body_def by blast
    show "length (variable_frame L body) = record_size L Z B payload C (v, b, row)"
      by (simp only: frame length_append size)
    show "W' = indexed (put_data W (variable_frame L body)) (?pos + 4) indices" by (simp add: W'_def)
    show "\<forall>name. name \<noteq> v_Name v \<longrightarrow> map_of indices name = map_of (ms_VarsIndices ?ms) name" by (rule others)
    show "step_entry L v W' (blocks @ [block])" using entry by (simp add: step_entry_def W'_def split: option.splits)
    have "length (variable_frame L body) - length ?p = length bs"
      by (simp only: frame length_append add_diff_cancel_right')
    then show "index_block_at L Z (ms_TimeStep ?ms) (lf_SetOffset C W)
        (lf_SetOffset C W + of_nat (length (variable_frame L body) - length ?p)) block"
      and "\<not> is_string B v \<longrightarrow> written_block C v b (ms_TimeStep ?ms) (GetFileIndex B W)
        (lf_SetOffset C W + of_nat (length (variable_frame L body) - length ?p)) block"
      using at chars by (simp_all add: offset_put_data)
  qed
  with put show ?thesis by blast
qed

lemma step_entry_other:
  assumes "map_of (ms_VarsIndices (w_MetadataSet W')) (v_Name v) = map_of (ms_VarsIndices (w_MetadataSet W)) (v_Name v)"
    and "ms_TimeStep (w_MetadataSet W') = ms_TimeStep (w_MetadataSet W)"
  shows "step_entry L v W' blocks = step_entry L v W blocks"
  by (simp add: step_entry_def assms split: option.split)

end

section \<open>Putting many blocks\<close>

text \<open>The records of some requests, one behind the other from an offset on, and their blocks of the index.\<close>

fun records_at ::
    "bp_lib \<Rightarrow> bp_serial \<Rightarrow> bp_data \<Rightarrow> (Variable \<Rightarrow> BPInfo \<Rightarrow> bool \<Rightarrow> bytes) \<Rightarrow> bp4_config \<Rightarrow> 32 word \<Rightarrow> size_t \<Rightarrow>
       request list \<Rightarrow> (bytes \<times> bytes) list \<Rightarrow> bool" where
  "records_at L Z B payload C step offset [] [] = True"
| "records_at L Z B payload C step offset (r # rs) ((frame, block) # recs) =
     (frame_of L B payload r frame \<and> length frame = record_size L Z B payload C r \<and>
      index_block_at L Z step offset (offset + of_nat (length frame - length (case r of (v, b, row) \<Rightarrow> payload v b row))) block \<and>
      records_at L Z B payload C step (offset + of_nat (length frame)) rs recs)"
| "records_at L Z B payload C step offset _ _ = False"

abbreviation frames :: "(bytes \<times> bytes) list \<Rightarrow> bytes" where
  "frames recs \<equiv> concat (map fst recs)"

fun blocks_for :: "string \<Rightarrow> request list \<Rightarrow> (bytes \<times> bytes) list \<Rightarrow> bytes list" where
  "blocks_for name (r # rs) (rec # recs) = (if v_Name (fst r) = name then [snd rec] else []) @ blocks_for name rs recs"
| "blocks_for name _ _ = []"

definition same_group :: "bp4_writer \<Rightarrow> bp4_writer \<Rightarrow> bool" where
  "same_group W W' \<longleftrightarrow>
     w_IsClosed W' = w_IsClosed W \<and> w_PreDataFileLength W' = w_PreDataFileLength W \<and>
     (let ms = w_MetadataSet W; ms' = w_MetadataSet W'
      in ms_TimeStep ms' = ms_TimeStep ms \<and> ms_DataPGIsOpen ms' = ms_DataPGIsOpen ms \<and>
         ms_DataPGLengthPosition ms' = ms_DataPGLengthPosition ms \<and> ms_DataPGVarsCountPosition ms' = ms_DataPGVarsCountPosition ms)"

lemma same_group_refl: "same_group W W"
  by (simp add: same_group_def Let_def)

lemma same_group_trans: "same_group W1 W2 \<Longrightarrow> same_group W2 W3 \<Longrightarrow> same_group W1 W3"
  by (simp add: same_group_def Let_def)

lemma same_group_indexed: "same_group W (indexed (put_data W bs) l is)"
  by (simp add: same_group_def Let_def)

lemma length_frames: "records_at L Z B payload C step offset rs recs \<Longrightarrow>
    length (frames recs) = sum_list (map (record_size L Z B payload C) rs) \<and> length recs = length rs"
  by (induction L Z B payload C step offset rs recs rule: records_at.induct) auto

text \<open>Requests of the same name are of the same type.\<close>

definition well_typed :: "request list \<Rightarrow> bool" where
  "well_typed rs \<longleftrightarrow> (\<forall>r \<in> set rs. \<forall>r' \<in> set rs. v_Name (fst r) = v_Name (fst r') \<longrightarrow> type_enum (fst r) = type_enum (fst r'))"

lemma well_typed_Cons: "well_typed (r # rs) \<Longrightarrow> well_typed rs"
  unfolding well_typed_def list.set by blast

context bp_data_library
begin

lemma put_variables_write:
  assumes "\<forall>r \<in> set rs. request_ok B C r" and "well_typed rs"
    and "room_for (sum_list (map (record_size L Z B payload C) rs)) W" and "ms_TimeStep (w_MetadataSet W) \<noteq> 0"
    and "\<forall>r \<in> set rs. step_entry L (fst r) W (blocks (v_Name (fst r)))"
  shows "\<exists>W' recs. put_variables L Z B C W rs = Inr W' \<and> same_group W W' \<and>
    records_at L Z B payload C (ms_TimeStep (w_MetadataSet W)) (lf_SetOffset C W) rs recs \<and>
    w_Data W' = w_Data (put_data W (frames recs)) \<and>
    ms_DataPGVarsCount (w_MetadataSet W') = ms_DataPGVarsCount (w_MetadataSet W) + of_nat (length rs) \<and>
    (\<forall>v. (\<forall>r \<in> set rs. v_Name (fst r) = v_Name v \<longrightarrow> type_enum (fst r) = type_enum v) \<longrightarrow>
      step_entry L v W (blocks (v_Name v)) \<longrightarrow> step_entry L v W' (blocks (v_Name v) @ blocks_for (v_Name v) rs recs))"
  using assms
proof (induction rs arbitrary: W blocks)
  case Nil
  show ?case
    by (rule exI [of _ W], rule exI [of _ "[]"]) (simp add: same_group_refl put_data_Nil)
next
  case (Cons r rs)
  obtain v b row where r: "r = (v, b, row)" by (metis prod_cases3)
  let ?n = "record_size L Z B payload C r" and ?rest = "sum_list (map (record_size L Z B payload C) rs)"
  have "request_ok B C (v, b, row)" and "room_for (record_size L Z B payload C (v, b, row)) W"
    and "step_entry L v W (blocks (v_Name v))"
    using Cons.prems(1,3,5) by (auto simp: r room_for_def)
  from put_variable_writes [OF this Cons.prems(4)] obtain W1 frame block
    where put: "put_variable L Z B C W (v, b, row) = Inr W1"
      and wrote: "variable_put C W (v, b, row) (blocks (v_Name v)) W1 frame block" by blast
  obtain indices where W1: "W1 = indexed (put_data W frame) (m_Position (w_Data W) + 4) indices"
    and others: "\<forall>name. name \<noteq> v_Name v \<longrightarrow> map_of indices name = map_of (ms_VarsIndices (w_MetadataSet W)) name"
    and entry: "step_entry L v W1 (blocks (v_Name v) @ [block])"
    and frame: "frame_of L B payload r frame" "length frame = ?n"
    and at: "index_block_at L Z (ms_TimeStep (w_MetadataSet W)) (lf_SetOffset C W)
         (lf_SetOffset C W + of_nat (length frame - length (payload v b row))) block"
    using wrote unfolding variable_put_def prod.case by (elim exE conjE) (rule that, assumption, simp_all only: r)
  define blocks' where "blocks' = blocks(v_Name v := blocks (v_Name v) @ [block])"
  have keep: "step_entry L v' W1 (blocks' (v_Name v'))"
    if "v_Name v = v_Name v' \<longrightarrow> type_enum v = type_enum v'" "step_entry L v' W (blocks (v_Name v'))" for v'
  proof (cases "v_Name v' = v_Name v")
    case True
    then have "step_entry L v' W1 bl = step_entry L v W1 bl" for bl using that(1) by (intro step_entry_same) simp_all
    then show ?thesis using entry True by (simp add: blocks'_def)
  next
    case False
    then have "step_entry L v' W1 bl = step_entry L v' W bl" for bl
      using others by (intro step_entry_other) (simp_all add: W1)
    then show ?thesis using that(2) False by (simp add: blocks'_def)
  qed
  have ready: "\<forall>r \<in> set rs. step_entry L (fst r) W1 (blocks' (v_Name (fst r)))"
  proof
    fix r' assume r': "r' \<in> set rs"
    have "v_Name v = v_Name (fst r') \<longrightarrow> type_enum v = type_enum (fst r')"
      using Cons.prems(2) r' unfolding well_typed_def r list.set by (metis fst_conv insertI1 insertI2)
    moreover have "step_entry L (fst r') W (blocks (v_Name (fst r')))" using Cons.prems(5) r' by simp
    ultimately show "step_entry L (fst r') W1 (blocks' (v_Name (fst r')))" by (rule keep)
  qed
  have room: "room_for (length frame + ?rest) W" using Cons.prems(3) frame(2) by simp
  have room1: "room_for ?rest W1" using room by (auto simp: room_for_def W1)
  have time: "ms_TimeStep (w_MetadataSet W1) = ms_TimeStep (w_MetadataSet W)" by (simp add: W1)
  have oks: "\<forall>r \<in> set rs. request_ok B C r" and nonzero: "ms_TimeStep (w_MetadataSet W1) \<noteq> 0"
    using Cons.prems(1,4) time by simp_all
  obtain W' recs where run: "put_variables L Z B C W1 rs = Inr W'" and same: "same_group W1 W'"
    and recs: "records_at L Z B payload C (ms_TimeStep (w_MetadataSet W1)) (lf_SetOffset C W1) rs recs"
    and data: "w_Data W' = w_Data (put_data W1 (frames recs))"
    and count': "ms_DataPGVarsCount (w_MetadataSet W') = ms_DataPGVarsCount (w_MetadataSet W1) + of_nat (length rs)"
    and entries: "\<forall>v. (\<forall>r \<in> set rs. v_Name (fst r) = v_Name v \<longrightarrow> type_enum (fst r) = type_enum v) \<longrightarrow>
      step_entry L v W1 (blocks' (v_Name v)) \<longrightarrow> step_entry L v W' (blocks' (v_Name v) @ blocks_for (v_Name v) rs recs)"
    using Cons.IH [OF oks well_typed_Cons [OF Cons.prems(2)] room1 nonzero ready] by (elim exE conjE) (rule that; assumption)
  have "w_Data (put_data W1 bs) = w_Data (put_data (put_data W frame) bs)" for bs by (simp add: W1 put_data_def Let_def)
  then have data': "w_Data W' = w_Data (put_data W (frame @ frames recs))"
    using put_data_append [of frame "frames recs" W] room length_frames [OF recs] data by simp
  show ?case
  proof (intro exI [of _ W'] exI [of _ "(frame, block) # recs"] conjI allI impI)
    show "put_variables L Z B C W (r # rs) = Inr W'" using put run by (simp add: r)
    show "same_group W W'" using same same_group_trans [OF same_group_indexed] unfolding W1 by blast
    show "records_at L Z B payload C (ms_TimeStep (w_MetadataSet W)) (lf_SetOffset C W) (r # rs) ((frame, block) # recs)"
      using frame at recs by (simp add: r time W1 offset_put_data)
    show "w_Data W' = w_Data (put_data W (frames ((frame, block) # recs)))" using data' by simp
    show "ms_DataPGVarsCount (w_MetadataSet W') = ms_DataPGVarsCount (w_MetadataSet W) + of_nat (length (r # rs))"
      using count' by (simp add: W1 add.commute add.left_commute)
    fix v' assume typed: "\<forall>r \<in> set (r # rs). v_Name (fst r) = v_Name v' \<longrightarrow> type_enum (fst r) = type_enum v'"
      and "step_entry L v' W (blocks (v_Name v'))"
    then have "step_entry L v' W1 (blocks' (v_Name v'))" by (intro keep) (simp_all add: r)
    then have "step_entry L v' W' (blocks' (v_Name v') @ blocks_for (v_Name v') rs recs)" using typed entries by simp
    then show "step_entry L v' W' (blocks (v_Name v') @ blocks_for (v_Name v') (r # rs) ((frame, block) # recs))"
      by (cases "v_Name v' = v_Name v") (simp_all add: blocks'_def r)
  qed
qed

end

section \<open>A whole group\<close>

text \<open>The records can be found by their lengths: the positions of n of them, and where they stop.\<close>

fun walk_records :: "bp_lib \<Rightarrow> nat \<Rightarrow> bytes \<Rightarrow> nat \<Rightarrow> failure + nat list \<times> nat" where
  "walk_records L 0 buf pos = Inr ([], pos)"
| "walk_records L (Suc n) buf pos =
     bind_sum (ReadValue L 8 buf (pos + 4) (IsLittleEndian L)) (\<lambda>(len, _).
     bind_sum (walk_records L n buf (pos + 4 + len)) (\<lambda>(ps, stop). Inr (pos # ps, stop)))"

lemma group_filled_put:
  assumes "same_group W W'" and "w_Data W' = w_Data (put_data W bs)" and "room_for (length bs) W" and "ms_DataPGIsOpen (w_MetadataSet W)"
  shows "group_filled W W'"
  using assms by (auto simp: group_filled_def same_group_def room_for_def take_overlay Let_def)

lemma PutProcessGroupIndex_same:
  assumes "PutProcessGroupIndex L W ioName lang transports = Inr W'"
  shows "ms_VarsIndices (w_MetadataSet W') = ms_VarsIndices (w_MetadataSet W) \<and> ms_TimeStep (w_MetadataSet W') = ms_TimeStep (w_MetadataSet W) \<and>
    w_PreDataFileLength W' = w_PreDataFileLength W \<and> ms_DataPGVarsCount (w_MetadataSet W') = 0 \<and> ms_DataPGIsOpen (w_MetadataSet W')"
  using assms by (auto simp: PutProcessGroupIndex_def Let_def bind_sum_Inr_iff)

lemma frame_length:
  assumes "frame_of L B payload r frame" and "holds_at buf pos frame"
  shows "holds_at buf (pos + 4) (host L 8 (length frame - 4)) \<and> 12 \<le> length frame"
proof -
  obtain body where "frame = variable_frame L body" using assms(1) by (cases r) (auto simp: frame_of_def)
  then show ?thesis using assms(2) by (simp add: variable_frame_def numeral_eq_Suc)
qed

context bp_library
begin

lemma walk_frames:
  assumes "records_at L Z B payload C step offset rs recs" and "holds_at buf pos (frames recs)" and "length buf < 2 ^ 64"
  shows "\<exists>ps. walk_records L (length rs) buf pos = Inr (ps, pos + length (frames recs)) \<and>
    list_all2 (\<lambda>p rec. holds_at buf p (fst rec)) ps recs"
  using assms
proof (induction rs arbitrary: offset recs pos)
  case Nil
  then show ?case by (cases recs) simp_all
next
  case (Cons r rs)
  then obtain frame block recs' where recs: "recs = (frame, block) # recs'" by (cases recs) auto
  have fr: "frame_of L B payload r frame" and rest: "records_at L Z B payload C step (offset + of_nat (length frame)) rs recs'"
    and at: "holds_at buf pos frame" "holds_at buf (pos + length frame) (frames recs')"
    using Cons.prems(1,2) by (auto simp: recs)
  have len: "holds_at buf (pos + 4) (host L 8 (length frame - 4))" "12 \<le> length frame"
    using frame_length [OF fr at(1)] by simp_all
  then have "frame \<noteq> []" by auto
  then have "length frame < 2 ^ 64" using holds_at_fits [OF at(1)] Cons.prems(3) by simp
  then have small: "(length frame - 4) mod 256 ^ 8 = length frame - 4" by simp
  have jump: "pos + 4 + (length frame - 4) = pos + length frame" using len(2) by simp
  obtain ps where "walk_records L (length rs) buf (pos + length frame) = Inr (ps, pos + length frame + length (frames recs'))"
    "list_all2 (\<lambda>p rec. holds_at buf p (fst rec)) ps recs'"
    using Cons.IH [OF rest at(2) Cons.prems(3)] by blast
  then show ?case
    using read_written [OF len(1)] at(1) unfolding small
    by (intro exI [of _ "pos # ps"]) (simp add: recs jump)
qed

end

context bp_data_library
begin

lemma group_of_variables:
  assumes "\<not> w_IsClosed W" and "\<forall>r \<in> set rs. request_ok B C r" and "well_typed rs" and "ms_TimeStep (w_MetadataSet W) \<noteq> 0"
    and room: "room_for (group_header_size L W ioName transports + 12 + sum_list (map (record_size L Z B payload C) rs)) W"
    and "\<forall>r \<in> set rs. step_entry L (fst r) W (blocks (v_Name (fst r)))"
  shows "\<exists>W1 W2 W3 recs. PutProcessGroupIndex L W ioName lang transports = Inr W1 \<and> put_variables L Z B C W1 rs = Inr W2 \<and>
    CloseData L (\<lambda>_. 0) PA W2 = Inr (W3, m_Position (w_Data W3)) \<and>
    records_at L Z B payload C (ms_TimeStep (w_MetadataSet W)) (lf_SetOffset C W1) rs recs \<and>
    lf_SetOffset C W1 = lf_SetOffset C W + of_nat (group_header_size L W ioName transports + 12) \<and>
    (\<forall>r \<in> set rs. step_entry L (fst r) W2 (blocks (v_Name (fst r)) @ blocks_for (v_Name (fst r)) rs recs)) \<and>
    (let buf = m_Buffer (w_Data W3); start = m_Position (w_Data W); e = m_Position (w_Data W3);
         header = start + (group_header_size L W ioName transports + 12)
     in e = header + length (frames recs) + 16 \<and> e \<le> length buf \<and>
        holds_at buf start (str_bytes ''[PGI'' @ host L 8 (e - (start + 4))) \<and>
        holds_at buf (header - 12) (host L 4 (length rs) @ host L 8 (length (frames recs)) @ frames recs) \<and>
        holds_at buf (e - 4) (str_bytes ''PGI]''))"
proof -
  define n where "n = group_header_size L W ioName transports + 12"
  have fits: "m_Position (w_Data W) + group_header_size L W ioName transports + 12 \<le> length (m_Buffer (w_Data W))"
    using room by (simp add: room_for_def)
  obtain W1 where run1: "PutProcessGroupIndex L W ioName lang transports = Inr W1" and opened: "group_open W1"
    and pos1: "m_Position (w_Data W1) = m_Position (w_Data W) + n" and len1: "length (m_Buffer (w_Data W1)) = length (m_Buffer (w_Data W))"
    and abs1: "m_AbsolutePosition (w_Data W1) = m_AbsolutePosition (w_Data W) + of_nat n"
    and at: "holds_at (m_Buffer (w_Data W1)) (m_Position (w_Data W)) (str_bytes ''[PGI'')"
    and lp: "ms_DataPGLengthPosition (w_MetadataSet W1) = m_Position (w_Data W) + 4"
    and vp: "ms_DataPGVarsCountPosition (w_MetadataSet W1) + 12 = m_Position (w_Data W1)" and closed: "\<not> w_IsClosed W1"
    using PutProcessGroupIndex_opens [OF fits, of lang] assms(1) unfolding Let_def n_def by metis
  have same1: "ms_VarsIndices (w_MetadataSet W1) = ms_VarsIndices (w_MetadataSet W)" "ms_TimeStep (w_MetadataSet W1) = ms_TimeStep (w_MetadataSet W)"
    "w_PreDataFileLength W1 = w_PreDataFileLength W" "ms_DataPGVarsCount (w_MetadataSet W1) = 0" "ms_DataPGIsOpen (w_MetadataSet W1)"
    using PutProcessGroupIndex_same [OF run1] by simp_all
  have entry1: "step_entry L v W1 bl = step_entry L v W bl" for v bl by (rule step_entry_other) (simp_all add: same1)
  have ready: "\<forall>r \<in> set rs. step_entry L (fst r) W1 (blocks (v_Name (fst r)))" using assms(6) by (simp add: entry1)
  have room1: "room_for (sum_list (map (record_size L Z B payload C) rs)) W1"
    using room by (simp add: room_for_def pos1 len1 n_def)
  have nonzero: "ms_TimeStep (w_MetadataSet W1) \<noteq> 0" using assms(4) by (simp add: same1)
  obtain W2 recs where run2: "put_variables L Z B C W1 rs = Inr W2" and same2: "same_group W1 W2"
    and recs: "records_at L Z B payload C (ms_TimeStep (w_MetadataSet W1)) (lf_SetOffset C W1) rs recs"
    and data2: "w_Data W2 = w_Data (put_data W1 (frames recs))"
    and count2: "ms_DataPGVarsCount (w_MetadataSet W2) = ms_DataPGVarsCount (w_MetadataSet W1) + of_nat (length rs)"
    and entries: "\<forall>v. (\<forall>r \<in> set rs. v_Name (fst r) = v_Name v \<longrightarrow> type_enum (fst r) = type_enum v) \<longrightarrow>
      step_entry L v W1 (blocks (v_Name v)) \<longrightarrow> step_entry L v W2 (blocks (v_Name v) @ blocks_for (v_Name v) rs recs)"
    using put_variables_write [OF assms(2,3) room1 nonzero ready] by (elim exE conjE) (rule that; assumption)
  have room2: "room_for (length (frames recs)) W1" using room1 length_frames [OF recs] by simp
  have filled: "group_filled W1 W2" by (rule group_filled_put [OF same2 data2 room2 same1(5)])
  have indexed: "\<forall>r \<in> set rs. step_entry L (fst r) W2 (blocks (v_Name (fst r)) @ blocks_for (v_Name (fst r)) rs recs)"
  proof
    fix r assume r: "r \<in> set rs"
    then have "\<forall>r' \<in> set rs. v_Name (fst r') = v_Name (fst r) \<longrightarrow> type_enum (fst r') = type_enum (fst r)"
      using assms(3) unfolding well_typed_def by blast
    then show "step_entry L (fst r) W2 (blocks (v_Name (fst r)) @ blocks_for (v_Name (fst r)) rs recs)"
      using entries ready r by blast
  qed
  have pos2: "m_Position (w_Data W2) = m_Position (w_Data W) + n + length (frames recs)" by (simp add: data2 pos1)
  have frames2: "holds_at (m_Buffer (w_Data W2)) (m_Position (w_Data W1)) (frames recs)"
    using room2 by (simp add: data2 room_for_def)
  have vp': "ms_DataPGVarsCountPosition (w_MetadataSet W1) = m_Position (w_Data W) + n - 12" using vp pos1 by simp
  have n12: "12 \<le> n" by (simp add: n_def)
  obtain W3 where run3: "CloseData L (\<lambda>_. 0) PA W2 = Inr (W3, m_Position (w_Data W3))"
    and e: "m_Position (w_Data W3) \<le> length (m_Buffer (w_Data W3))" "m_Position (w_Data W3) = m_Position (w_Data W2) + 16"
    and head: "holds_at (m_Buffer (w_Data W3)) (m_Position (w_Data W))
      (str_bytes ''[PGI'' @ host L 8 (m_Position (w_Data W3) - (m_Position (w_Data W) + 4)))"
    and foot: "holds_at (m_Buffer (w_Data W3)) (m_Position (w_Data W3) - 4) (str_bytes ''PGI]'')"
    and vars: "holds_at (m_Buffer (w_Data W3)) (ms_DataPGVarsCountPosition (w_MetadataSet W1))
      (host L 4 (unat (ms_DataPGVarsCount (w_MetadataSet W2))) @
       host L 8 (m_Position (w_Data W2) - (ms_DataPGVarsCountPosition (w_MetadataSet W1) + 12)))"
    and kept: "\<forall>q xs. ms_DataPGVarsCountPosition (w_MetadataSet W1) + 12 \<le> q \<longrightarrow> q + length xs \<le> m_Position (w_Data W2) \<longrightarrow>
      holds_at (m_Buffer (w_Data W2)) q xs \<longrightarrow> holds_at (m_Buffer (w_Data W3)) q xs"
    using CloseData_group [OF opened closed at lp filled, of PA] unfolding Let_def by (elim exE conjE) (rule that; assumption)
  have frames3: "holds_at (m_Buffer (w_Data W3)) (m_Position (w_Data W1)) (frames recs)"
    using kept frames2 by (simp add: vp pos2 pos1)
  have cnt: "host L 4 (unat (ms_DataPGVarsCount (w_MetadataSet W2))) = host L 4 (length rs)"
    unfolding count2 same1(4) add_0 by (rule host_4_of_nat)
  have body: "holds_at (m_Buffer (w_Data W3)) (m_Position (w_Data W) + n - 12)
      (host L 4 (length rs) @ host L 8 (length (frames recs)) @ frames recs)"
    using vars frames3 n12 unfolding cnt vp' holds_at_append by (simp add: pos2 pos1)
  have offset: "lf_SetOffset C W1 = lf_SetOffset C W + of_nat n"
    by (simp add: lf_SetOffset_def pos1 abs1 same1)
  show ?thesis
    unfolding n_def [symmetric] Let_def
    by (intro exI conjI) (rule run1, rule run2, rule run3, rule recs [unfolded same1], rule offset, rule indexed,
        use e pos2 head body foot in simp_all)
qed

end

section \<open>Spans\<close>

text \<open>
  A span has no payload yet. Its record is opened like the others, but \<open>PutVariablePayload\<close>
  returns before it writes the length.
\<close>

context bp_data_library
begin

lemma PutVariableMetadata_span:
  assumes "\<not> is_string B v" and "bi_Data b = None" and dims: "dims_ok (v_Count v) (v_Shape v) (v_Start v)"
    and room: "room_for (35 + length (v_Name v) + 27 * length (v_Count v) + type_size v) W"
    and run: "PutVariableMetadata L Z B C W v b row (Some sp) = Inr (W1, span)"
  shows "\<exists>rest. w_Data W1 = w_Data (put_data W (str_bytes ''[VMD'' @ take 8 (drop (m_Position (w_Data W) + 4) (m_Buffer (w_Data W))) @ rest)) \<and>
    room_for (12 + length rest) W"
proof -
  obtain i new indices where get: "GetSerialElementIndex B (v_Name v) (ms_VarsIndices (w_MetadataSet W)) = (i, new, indices)"
    by (metis prod_cases3)
  have "\<exists>stats' W' l. PutVariableMetadataInData L Z B C W v b stats' (Some sp) = Inr (W', l) \<and> w_Data W1 = w_Data W'"
    using run assms(1) unfolding PutVariableMetadata_def Let_def get prod.case
    by (clarsimp simp: bind_sum_Inr_iff split: prod.splits) (intro exI conjI, assumption, simp)
  then obtain stats' W' l where data: "PutVariableMetadataInData L Z B C W v b stats' (Some sp) = Inr (W', l)"
    and W1: "w_Data W1 = w_Data W'" by blast
  let ?dc = "data_characteristics L Z (cf_StatsLevel C) v b stats'"
  have dc: "length ?dc = 5" by (simp add: data_characteristics_def data_bounds_def assms(2))
  have room': "room_for (30 + length (v_Name v) + 27 * length (v_Count v) + length ?dc + (if Some sp = None then 0 else type_size v)) W"
    using room by (simp add: dc room_for_def)
  obtain d gap where d: "length d = 27 * length (v_Count v)" and gap: "gap \<le> type_size v"
    and put: "W' = put_data W (vmd_open v (st_MemberID stats') (v_Count v) (drop (m_Position (w_Data W) + 4) (m_Buffer (w_Data W))) @ d @
      ?dc @ [of_nat (gap + 4)] @ replicate gap 0 @ str_bytes ''VMD]'')"
    using PutVariableMetadataInData_fits [of v B, OF dims align_le room'] data by auto
  let ?rest = "variable_head L v (st_MemberID stats') (v_Count v) @ d @ ?dc @ [of_nat (gap + 4)] @ replicate gap 0 @ str_bytes ''VMD]''"
  have "length ?rest \<le> 23 + length (v_Name v) + 27 * length (v_Count v) + type_size v" using d gap by (simp add: dc)
  then have "room_for (12 + length ?rest) W" using room unfolding room_for_def by linarith
  then show ?thesis unfolding W1 put vmd_open_def by (intro exI [of _ ?rest]) simp
qed

lemma characteristics_span:
  "PutVariableCharacteristics L Z StatsLevel v b stats buf (Some sp) = Inr (buf', span') \<Longrightarrow>
     \<exists>sp'. span' = Some sp' \<and> sp_Value sp' = sp_Value sp"
  by (auto simp: PutVariableCharacteristics_def Let_def bind_sum_Inr_iff split: if_splits)

lemma put_in_index_span: "put_in_index L chars v stats i = Inr (i', span') \<Longrightarrow> \<exists>buf buf'. chars buf = Inr (buf', span')"
  by (auto simp: put_in_index_def Let_def bind_sum_Inr_iff split: if_splits)

lemma PutVariableMetadata_span_returns:
  assumes str: "\<not> is_string B v" and none: "bi_Data b = None" and dims: "dims_ok (v_Count v) (v_Shape v) (v_Start v)"
    and room: "room_for (35 + length (v_Name v) + 27 * length (v_Count v) + type_size v) W"
    and stats0: "GetBPStats B C 0 0 v b row = Inr stats0" and step: "step_entry L v W blocks" "ms_TimeStep (w_MetadataSet W) \<noteq> 0"
  shows "\<exists>W1 sp1. PutVariableMetadata L Z B C W v b row (Some sp) = Inr (W1, Some sp1) \<and> sp_Value sp1 = sp_Value sp"
proof -
  let ?ms = "w_MetadataSet W" and ?pos = "m_Position (w_Data W)"
  obtain i new indices' where get: "GetSerialElementIndex B (v_Name v) (ms_VarsIndices ?ms) = (i, new, indices')"
    and entry: "index_step L v (ms_TimeStep ?ms) blocks i"
    using index_found [of v W blocks] step by blast
  define stats where "stats = (at_step (ms_TimeStep ?ms) (GetFileIndex B W) stats0)\<lparr>st_MemberID := ix_MemberID i, st_Offset := lf_SetOffset C W\<rparr>"
  have found: "GetBPStats B C (ms_TimeStep ?ms) (GetFileIndex B W) v b row = Inr (at_step (ms_TimeStep ?ms) (GetFileIndex B W) stats0)"
    by (subst GetBPStats_step) (simp add: stats0)
  let ?dc = "data_characteristics L Z (cf_StatsLevel C) v b stats"
  have "room_for (30 + length (v_Name v) + 27 * length (v_Count v) + length ?dc + (if Some sp = None then 0 else type_size v)) W"
    using room by (simp add: room_for_def data_characteristics_def data_bounds_def none)
  from PutVariableMetadataInData_fits [of v B, OF dims align_le this]
  obtain bs where run: "PutVariableMetadataInData L Z B C W v b stats (Some sp) = Inr (put_data W bs, ?pos + 4)" by blast
  define stats' where "stats' = stats\<lparr>st_PayloadOffset := lf_SetOffset C (put_data W bs)\<rparr>"
  define sp' where "sp' = sp\<lparr>sp_PayloadPosition := m_Position (w_Data (put_data W bs))\<rparr>"
  obtain body block where block: "block_of stats' (characteristics_count (cf_StatsLevel C) v b (Some sp')) body block"
    and chars: "\<And>buf. \<exists>span'. PutVariableCharacteristics L Z (cf_StatsLevel C) v b stats' buf (Some sp') = Inr (buf @ block, span')"
    using PutVariableCharacteristics_block by metis
  have st: "st_Step stats' = ms_TimeStep ?ms" "st_MemberID stats' = ix_MemberID i"
    by (simp_all add: stats'_def stats_def)
  obtain i' span' where idx: "PutVariableMetadataInIndex L Z (cf_StatsLevel C) v b stats' (i\<lparr>ix_Valid := True\<rparr>) (Some sp') = Inr (i', span')"
    using index_gets_block [of v stats' blocks "i\<lparr>ix_Valid := True\<rparr>" _ body block
        "\<lambda>buffer. PutVariableCharacteristics L Z (cf_StatsLevel C) v b stats' buffer (Some sp')", OF _ _ block] chars entry
    unfolding PutVariableMetadataInIndex_def st by auto
  obtain sp1 where "span' = Some sp1" "sp_Value sp1 = sp_Value sp'"
    using put_in_index_span [OF idx [unfolded PutVariableMetadataInIndex_def]] characteristics_span by blast
  then show ?thesis
    using idx unfolding PutVariableMetadata_def Let_def get
    by (auto simp: str found run [unfolded stats_def] stats_def stats'_def sp'_def)
qed

lemma span_length_kept:
  assumes "\<not> is_string B v" and "bi_Data b = None" and "dims_ok (v_Count v) (v_Shape v) (v_Start v)"
    and "room_for (35 + length (v_Name v) + 27 * length (v_Count v) + type_size v) W"
    and "PutVariableMetadata L Z B C W v b row (Some sp) = Inr (W1, Some sp1)" and "PutVariablePayload L B W1 v b row (Some sp1) = Inr W2"
  shows "holds_at (m_Buffer (w_Data W2)) (m_Position (w_Data W)) (str_bytes ''[VMD'') \<and>
    chunk (m_Position (w_Data W) + 4) 8 (m_Buffer (w_Data W2)) = chunk (m_Position (w_Data W) + 4) 8 (m_Buffer (w_Data W))"
proof -
  let ?pos = "m_Position (w_Data W)" and ?buf = "m_Buffer (w_Data W)"
  define vmd where "vmd = str_bytes ''[VMD''"
  define old where "old = chunk (?pos + 4) 8 ?buf"
  obtain rest where data: "w_Data W1 = w_Data (put_data W (vmd @ old @ rest))" and room: "room_for (12 + length rest) W"
    using PutVariableMetadata_span [OF assms(1-5)] by (auto simp: vmd_def old_def chunk_def)
  have sizes [simp]: "length vmd = 4" "length old = 8" using room by (simp_all add: vmd_def old_def room_for_def)
  have first: "holds_at (m_Buffer (w_Data W1)) ?pos (vmd @ old)" using room holds_at_overlay_same [of ?pos "vmd @ old @ rest" ?buf]
    unfolding data by (simp add: room_for_def del: holds_at_overlay_same)
  have fits1: "m_Position (w_Data W1) \<le> length (m_Buffer (w_Data W1))" "?pos + 12 \<le> m_Position (w_Data W1)"
    using room by (simp_all add: data room_for_def)
  have "\<exists>bs. m_Buffer (w_Data W2) = overlay (m_Buffer (w_Data W1)) (m_Position (w_Data W1)) bs"
    using assms(6) by (auto simp: PutVariablePayload_def bind_sum_Inr_iff mem_write_def Let_def overlay_def split: if_splits intro: exI [of _ "[]"])
  then obtain bs where buf2: "m_Buffer (w_Data W2) = overlay (m_Buffer (w_Data W1)) (m_Position (w_Data W1)) bs" by blast
  have "holds_at (m_Buffer (w_Data W2)) ?pos (vmd @ old)"
    by (rule holds_at_take [OF _ _ first, of "m_Position (w_Data W1)"]) (use fits1 in \<open>simp_all add: buf2 take_overlay\<close>)
  then show ?thesis using room by (simp add: vmd_def [symmetric] old_def holds_at_def [of _ _ "chunk _ _ _"] room_for_def)
qed

end

section \<open>A reference instance\<close>

definition ref_payload :: "Variable \<Rightarrow> BPInfo \<Rightarrow> bool \<Rightarrow> bytes" where
  "ref_payload v b row = (case bi_Data b of None \<Rightarrow> [] | Some d \<Rightarrow> d)"

definition ref_data :: bp_data where
  "ref_data =
     \<lparr>GetFileIndex = (\<lambda>_. 0),
      GetSerialElementIndex = (\<lambda>name indices. case map_of indices name of
          Some i \<Rightarrow> (i, False, indices)
        | None \<Rightarrow> (let i = \<lparr>ix_Buffer = [], ix_MemberID = of_nat (length indices), ix_Count = 0, ix_CurrentStep = 0,
            ix_CurrentHeaderPosition = 0, ix_LastUpdatedPosition = 0, ix_Valid = False\<rparr> in (i, True, (name, i) # indices))),
      Stats_init = (\<lambda>_. \<lparr>st_Step = 0, st_FileIndex = 0, st_MemberID = 0, st_Offset = 0, st_PayloadOffset = 0, st_Value = [], st_Min = [],
        st_Max = [], st_MinMaxs = [], st_SubBlockInfo = \<lparr>sb_Div = [], sb_SubBlockSize = 0, sb_DivisionMethod = 0\<rparr>\<rparr>),
      is_default = (\<lambda>_ v. \<forall>x \<in> set v. x = 0),
      DivideBlock = (\<lambda>_ n. \<lparr>sb_Div = [], sb_SubBlockSize = n, sb_DivisionMethod = 0\<rparr>),
      GetMinMaxSubblocks = (\<lambda>_ d _ _ _ (_, mn, mx). Inr ([mn, mx], mn, mx)),
      GetMinMaxSelection = (\<lambda>_ d _ _ _ _ mm. Inr mm),
      PutPayloadInBuffer = (\<lambda>v b row D. bind_sum (ref_copy (m_Buffer D) (m_Position D) (ref_payload v b row)) (\<lambda>(buffer, position).
        Inr \<lparr>m_Buffer = buffer, m_Position = position, m_AbsolutePosition = m_AbsolutePosition D + of_nat (length (ref_payload v b row))\<rparr>)),
      PutOperationPayloadInBuffer = (\<lambda>_ _ W. Inr W),
      Align = (\<lambda>n D. (n - m_Position D mod n) mod n),
      bd_type_string = 9, bd_type_string_array = 12\<rparr>"

interpretation ref_data: bp_data_library ref_bp ref_serial ref_data ref_payload
proof
  show "Align ref_data n D \<le> n" for n D
    using le_trans [OF mod_less_eq_dividend diff_le_self] by (simp add: ref_data_def)
qed (auto simp: ref_data_def Let_def ref_copy_def mem_write_def ref_payload_def)

end
