(* ===== verification/Bp4_Get.thy ===== *)
theory Bp4_Get
  imports Bp4_Select Bp4_Put
begin

text \<open>
  Reading what was put: the laws of the library that reads (\<open>bp_read_library\<close>), the definition of
  a variable from the index entry of a step, and the selections \<open>GetSubFileInfo\<close> makes: they are
  the bytes of the payloads in the data.
\<close>

section \<open>Boxes\<close>

text \<open>A box is its first and its last corner. The points in it, their number, and their order.\<close>

definition in_box :: "Box \<Rightarrow> size_t list \<Rightarrow> bool" where
  "in_box box p \<longleftrightarrow> list_all2 (\<le>) (fst box) p \<and> list_all2 (\<le>) p (snd box)"

definition box_of :: "size_t list \<Rightarrow> size_t list \<Rightarrow> Box" where
  "box_of start cnt = (start, map2 (\<lambda>s c. s + c - 1) start cnt)"

definition is_box :: "Box \<Rightarrow> bool" where
  "is_box box \<longleftrightarrow> list_all2 (\<le>) (fst box) (snd box)"

definition overlap :: "Box \<Rightarrow> Box \<Rightarrow> bool" where
  "overlap a b \<longleftrightarrow> list_all2 (\<le>) (fst a) (snd b) \<and> list_all2 (\<le>) (fst b) (snd a)"

definition common :: "Box \<Rightarrow> Box \<Rightarrow> Box" where
  "common a b = (map2 max (fst a) (fst b), map2 min (snd a) (snd b))"

definition box_size :: "Box \<Rightarrow> nat" where
  "box_size box = prod_list (map2 (\<lambda>l h. unat (h - l) + 1) (fst box) (snd box))"

lemma common_in_box:
  assumes "is_box a" and "is_box b" and "overlap a b"
  shows "in_box b (fst (common a b))" and "in_box b (snd (common a b))"
    and "list_all2 (\<le>) (fst (common a b)) (snd (common a b))"
proof -
  have all: "list_all2 (\<le>) (fst a) (snd a)" "list_all2 (\<le>) (fst b) (snd b)" "list_all2 (\<le>) (fst a) (snd b)" "list_all2 (\<le>) (fst b) (snd a)"
    using assms by (simp_all add: is_box_def overlap_def)
  have len: "length (snd a) = length (fst a)" "length (fst b) = length (fst a)" "length (snd b) = length (fst a)"
    using all [THEN list_all2_lengthD] by simp_all
  have le: "fst a ! i \<le> snd a ! i" "fst b ! i \<le> snd b ! i" "fst a ! i \<le> snd b ! i" "fst b ! i \<le> snd a ! i"
    if "i < length (fst a)" for i
    using all [THEN list_all2_nthD] that len by simp_all
  show "in_box b (fst (common a b))" and "in_box b (snd (common a b))"
    and "list_all2 (\<le>) (fst (common a b)) (snd (common a b))"
    by (simp_all add: in_box_def common_def list_all2_conv_all_nth len le)
qed

lemma box_of_size:
  assumes "length start = length cnt" and "0 \<notin> set cnt"
  shows "box_size (box_of start cnt) = prod_list (map unat cnt)"
  using assms
proof (induction start cnt rule: list_induct2)
  case (Cons s start c cnt)
  have "s + c - 1 - s = c - 1" and "unat (c - 1) + 1 = unat c"
    using Cons.prems by (simp, metis Suc_eq_plus1 list.set_intros(1) unatSuc add.commute diff_add_cancel)
  then show ?case using Cons by (simp add: box_size_def box_of_def)
qed (simp add: box_size_def box_of_def)

section \<open>The laws of the library\<close>

text \<open>What the characteristics of a block say of it.\<close>

definition describes :: "32 word \<Rightarrow> 32 word \<Rightarrow> BPInfo \<Rightarrow> size_t \<Rightarrow> Characteristics \<Rightarrow> bool" where
  "describes step fileIndex b payloadOffset c \<longleftrightarrow>
     ch_Shape c = bi_Shape b \<and> ch_Start c = bi_Start b \<and> ch_Count c = bi_Count b \<and> ch_EntryShapeID c = GlobalArray \<and>
     ch_Step c = step \<and> ch_FileIndex c = fileIndex \<and> ch_PayloadOffset c = payloadOffset \<and> \<not> ch_IsValue c \<and> \<not> op_IsActive (ch_Op c)"

text \<open>A block of a global array: it lies in its box and has data.\<close>

definition array_block :: "bp_read \<Rightarrow> size_t list \<Rightarrow> BPInfo \<Rightarrow> bool" where
  "array_block R shape b \<longleftrightarrow>
     bi_Shape b = shape \<and> shape \<noteq> [] \<and> length shape < 256 \<and> 0 \<notin> set shape \<and> LocalValueDim R \<notin> set shape \<and>
     length (bi_Start b) = length shape \<and> length (bi_Count b) = length shape \<and> 0 \<notin> set (bi_Count b) \<and>
     is_box (box_of (bi_Start b) (bi_Count b)) \<and> bi_Operations b = []"

text \<open>
  \<open>ReadElementIndexCharacteristics\<close> reads what \<open>PutVariableCharacteristics\<close> wrote of a block of a
  global array; a box is made of a start and a count, two boxes have a common box unless they are
  apart in a dimension; the linear index of a point of a box is less than its size, is in the
  order of the corners, and is 0 and the last at them; a variable that the IO does not have is
  not found, and is defined as it is asked for; the file index is that of the rank or of the
  sub-stream of its aggregator.
\<close>

locale bp_read_library = bp_data_library L Z B payload for L Z B payload +
  fixes R :: bp_read and sizeof :: "byte \<Rightarrow> nat"
  assumes read_block: "array_block R shape b \<Longrightarrow> \<not> v_SingleValue v \<Longrightarrow> type_enum v \<noteq> br_type_string R \<Longrightarrow>
      PutVariableCharacteristics L Z n v b stats [] None = Inr (block, span') \<Longrightarrow> length block < 2 ^ 32 \<Longrightarrow> holds_at buf pos block \<Longrightarrow>
      \<exists>c pos'. ReadElementIndexCharacteristics R (type_enum v) buf pos (type_enum v) (IsLittleEndian L) = Inr (c, pos') \<and>
        describes (st_Step stats) (st_FileIndex stats) b (st_PayloadOffset stats) c \<and> ch_EntryLength c + 5 = length block"
    and start_end: "length start = length cnt \<Longrightarrow> StartEndBox R start cnt False = box_of start cnt"
    and intersection: "length (fst x) = k \<Longrightarrow> length (snd x) = k \<Longrightarrow> length (fst y) = k \<Longrightarrow> length (snd y) = k \<Longrightarrow>
      IntersectionBox R x y = (if overlap x y then common x y else ([], []))"
    and linear_inside: "is_box box \<Longrightarrow> box_size box < 2 ^ 64 \<Longrightarrow> in_box box p \<Longrightarrow> unat (LinearIndex R box p row) < box_size box"
    and linear_mono: "is_box box \<Longrightarrow> box_size box < 2 ^ 64 \<Longrightarrow> in_box box p \<Longrightarrow> in_box box q \<Longrightarrow> list_all2 (\<le>) p q \<Longrightarrow>
      LinearIndex R box p row \<le> LinearIndex R box q row"
    and linear_corners: "is_box box \<Longrightarrow> box_size box < 2 ^ 64 \<Longrightarrow>
      LinearIndex R box (fst box) row = 0 \<and> unat (LinearIndex R box (snd box) row) = box_size box - 1"
    and total_size: "prod_list (map unat cnt) < 2 ^ 64 \<Longrightarrow> unat (GetTotalSize L cnt) = prod_list (map unat cnt)"
    and inquire_new: "map_of (io_Variables io) name = None \<Longrightarrow> InquireVariable R T name io = None"
    and define_array: "map_of (io_Variables io) name = None \<Longrightarrow> shape \<noteq> [] \<Longrightarrow>
      \<exists>u. IO_DefineVariable R T name shape (replicate (length shape) 0) shape io = Inr u \<and> v_Name u = name \<and> v_Shape u = shape \<and>
        type_enum u = T \<and> type_size u = sizeof T \<and> rv_ShapeID u = GlobalArray \<and> rv_AvailableShapes u = [] \<and>
        rv_AvailableStepBlockIndexOffsets u = []"
    and string_type: "br_type_string R = bd_type_string B"
    and file_index: "w_RankMPI W = w_RankMPI W' \<Longrightarrow> GetFileIndex B W = GetFileIndex B W'"

section \<open>Defining the variable\<close>

text \<open>The places of blocks that lie one behind the other.\<close>

fun block_offsets :: "nat \<Rightarrow> bytes list \<Rightarrow> nat list" where
  "block_offsets pos [] = []"
| "block_offsets pos (block # blocks) = pos # block_offsets (pos + length block) blocks"

text \<open>A variable for which the blocks at some places have been found, all of one step.\<close>

definition found_blocks :: "string \<Rightarrow> byte \<Rightarrow> nat \<Rightarrow> size_t list \<Rightarrow> nat \<Rightarrow> nat list \<Rightarrow> ReadVariable \<Rightarrow> bool" where
  "found_blocks name T width shape step positions v \<longleftrightarrow>
     v_Name v = name \<and> type_enum v = T \<and> type_size v = width \<and> rv_ShapeID v = GlobalArray \<and>
     v_Shape v = shape \<and> rv_AvailableShapes v = [(step, shape)] \<and>
     rv_AvailableStepBlockIndexOffsets v = (if positions = [] then [] else [(step, positions)]) \<and>
     rv_AvailableStepsCount v = of_bool (positions \<noteq> [])"

lemma note_bounds_sel [simp]:
  "v_Name (note_bounds R isValue c v) = v_Name v" "type_enum (note_bounds R isValue c v) = type_enum v"
  "type_size (note_bounds R isValue c v) = type_size v" "rv_ShapeID (note_bounds R isValue c v) = rv_ShapeID v"
  "v_Shape (note_bounds R isValue c v) = v_Shape v" "rv_AvailableShapes (note_bounds R isValue c v) = rv_AvailableShapes v"
  "rv_AvailableStepBlockIndexOffsets (note_bounds R isValue c v) = rv_AvailableStepBlockIndexOffsets v"
  "rv_AvailableStepsCount (note_bounds R isValue c v) = rv_AvailableStepsCount v"
  by (simp_all add: note_bounds_def Let_def)

lemma note_shape_array: "ch_EntryShapeID c = GlobalArray \<Longrightarrow>
    note_shape False step c v = v\<lparr>v_Shape := ch_Shape c, rv_AvailableShapes := map_put step (ch_Shape c) (rv_AvailableShapes v)\<rparr>"
  by (simp add: note_shape_def reversed_def Let_def)

lemma map_push_one: "map_push k x [(k, xs)] = [(k, xs @ [x])]" "map_push k x [] = [(k, [x])]"
  by (simp_all add: map_push_def al_at_def)

text \<open>A block of a new variable that is a global array.\<close>

lemma new_block_found:
  assumes found: "found_blocks name T width shape (unat step) positions v" and T: "T \<noteq> br_type_string R"
    and state: "stepsFound = (if positions = [] then {} else {step})" "positions \<noteq> [] \<longrightarrow> currentStep = unat step"
    and c: "describes step fileIndex b payloadOffset c" "bi_Shape b = shape"
  shows "\<exists>v'. new_block R False isValue position c (stepsFound, currentStep, v) = Inr ({step}, unat step, v') \<and>
    found_blocks name T width shape (unat step) (positions @ [position]) v'"
proof -
  define v1 where "v1 = (if positions = [] then v\<lparr>rv_AvailableStepsCount := rv_AvailableStepsCount v + 1\<rparr> else v)"
  define v2 where "v2 = note_bounds R isValue c (note_shape False (unat step) c v1)"
  have ch: "ch_EntryShapeID c = GlobalArray" "ch_Step c = step" "ch_Shape c = shape" using c by (simp_all add: describes_def)
  have string: "type_enum v1 \<noteq> br_type_string R" using found T by (simp add: v1_def found_blocks_def)
  have "new_block R False isValue position c (stepsFound, currentStep, v) = Inr ({step}, unat step, note_offset (unat step) position v2)"
    using string state by (cases "positions = []") (simp_all add: new_block_def reset_or_count_def ch v1_def v2_def Let_def)
  moreover have "found_blocks name T width shape (unat step) (positions @ [position]) (note_offset (unat step) position v2)"
  proof -
    have "v_Name v2 = name" "type_enum v2 = T" "type_size v2 = width" "rv_ShapeID v2 = GlobalArray" "v_Shape v2 = shape"
      "rv_AvailableShapes v2 = [(unat step, shape)]" "rv_AvailableStepBlockIndexOffsets v2 = rv_AvailableStepBlockIndexOffsets v"
      "rv_AvailableStepsCount v2 = 1"
      using found by (simp_all add: v2_def note_shape_array [OF ch(1)] ch v1_def found_blocks_def)
    then show ?thesis
      using found by (cases "positions = []") (simp_all add: found_blocks_def note_offset_def map_push_one)
  qed
  ultimately show ?thesis by blast
qed

text \<open>What the blocks at some places are.\<close>

definition block_reads ::
    "bp_lib \<Rightarrow> bp_read \<Rightarrow> byte \<Rightarrow> bytes \<Rightarrow> 32 word \<Rightarrow> 32 word \<Rightarrow> BPInfo \<times> size_t \<Rightarrow> nat \<times> bytes \<Rightarrow> bool" where
  "block_reads L R T buf step fileIndex bo pb \<longleftrightarrow>
     (\<exists>c pos'. ReadElementIndexCharacteristics R T buf (fst pb) T (IsLittleEndian L) = Inr (c, pos') \<and>
       describes step fileIndex (fst bo) (snd bo) c \<and> ch_EntryLength c + 5 = length (snd pb))"

lemma block_reads_length: "block_reads L R T buf step fileIndex bo pb \<Longrightarrow> 5 \<le> length (snd pb)"
  by (auto simp: block_reads_def)

lemma new_blocks_found:
  assumes "list_all2 (block_reads L R T buf step fileIndex) bos (zip (block_offsets position blocks) blocks)"
    and "\<forall>bo \<in> set bos. bi_Shape (fst bo) = shape" and "T \<noteq> br_type_string R"
    and "found_blocks name T width shape (unat step) positions v"
    and "stepsFound = (if positions = [] then {} else {step})" and "positions \<noteq> [] \<longrightarrow> currentStep = unat step"
  shows "\<exists>stepsFound' currentStep' v'.
    new_blocks R False (IsLittleEndian L) buf T T isValue (position + length (concat blocks)) position (stepsFound, currentStep, v) =
      Inr (stepsFound', currentStep', v') \<and>
    found_blocks name T width shape (unat step) (positions @ block_offsets position blocks) v'"
  using assms
proof (induction blocks arbitrary: bos position positions v stepsFound currentStep)
  case Nil
  then show ?case by (simp add: new_blocks.simps)
next
  case (Cons block blocks)
  obtain bo bos' where bos: "bos = bo # bos'" and first: "block_reads L R T buf step fileIndex bo (position, block)"
    and rest: "list_all2 (block_reads L R T buf step fileIndex) bos' (zip (block_offsets (position + length block) blocks) blocks)"
    using Cons.prems(1) by (auto simp: list_all2_Cons2)
  obtain c pos' where read: "ReadElementIndexCharacteristics R T buf position T (IsLittleEndian L) = Inr (c, pos')"
    and c: "describes step fileIndex (fst bo) (snd bo) c" "ch_EntryLength c + 5 = length block"
    using first by (auto simp: block_reads_def)
  have shape: "bi_Shape (fst bo) = shape" using Cons.prems(2) bos by simp
  obtain v' where one: "new_block R False isValue position c (stepsFound, currentStep, v) = Inr ({step}, unat step, v')"
    and found: "found_blocks name T width shape (unat step) (positions @ [position]) v'"
    using new_block_found [OF Cons.prems(4,3,5,6) c(1) shape] by blast
  have "\<exists>stepsFound' currentStep' v''.
      new_blocks R False (IsLittleEndian L) buf T T isValue (position + length block + length (concat blocks)) (position + length block)
        ({step}, unat step, v') = Inr (stepsFound', currentStep', v'') \<and>
      found_blocks name T width shape (unat step) ((positions @ [position]) @ block_offsets (position + length block) blocks) v''"
    using Cons.prems(2) by (intro Cons.IH [OF rest _ Cons.prems(3) found]) (auto simp: bos)
  moreover have "position < position + length (concat (block # blocks))" using c(2) by (cases block) simp_all
  ultimately show ?case
    using read one by (subst new_blocks.simps) (simp add: c(2) add.assoc)
qed

context bp_read_library
begin

text \<open>A variable that the IO does not have is defined with the blocks of its entry.\<close>

lemma define_plain_array:
  assumes c: "describes step fileIndex b payloadOffset c" "bi_Shape b = shape" and "shape \<noteq> []"
    and "map_of (io_Variables io) name = None"
  shows "\<exists>u. define_plain R False T name c io = Inr u \<and> (\<forall>i. found_blocks name T (sizeof T) shape (unat step) []
    (u\<lparr>rv_IndexStart := i, rv_AvailableStepsCount := 0\<rparr>))"
proof -
  have ch: "ch_EntryShapeID c = GlobalArray" "ch_Step c = step" "ch_Shape c = shape" "\<not> ch_IsValue c"
    using c by (simp_all add: describes_def)
  obtain u where u: "IO_DefineVariable R T name shape (replicate (length shape) 0) shape io = Inr u" "v_Name u = name" "v_Shape u = shape"
      "type_enum u = T" "type_size u = sizeof T" "rv_ShapeID u = GlobalArray" "rv_AvailableShapes u = []"
      "rv_AvailableStepBlockIndexOffsets u = []"
    using define_array [OF assms(4,3)] by blast
  show ?thesis
    by (simp add: define_plain_def ch reversed_def u Let_def found_blocks_def)
qed

lemma define_found:
  assumes entry: "holds_at buf pos (index_entry L v member blocks)" "length (index_entry L v member blocks) < 2 ^ 32"
    and name: "length (v_Name v) < 2 ^ 16" and io: "map_of (io_Variables io) (v_Name v) = None"
    and P: "P = pos + 23 + length (v_Name v)" and some: "bos \<noteq> []"
    and reads: "list_all2 (block_reads L R (type_enum v) buf step fileIndex) bos (zip (block_offsets P blocks) blocks)"
    and shape: "\<forall>bo \<in> set bos. bi_Shape (fst bo) = shape" "shape \<noteq> []" and T: "type_enum v \<noteq> br_type_string R"
    and D: "mf_IsLittleEndian D = IsLittleEndian L" "\<not> d_ReverseDimensions D"
  shows "\<exists>h u. ReadElementIndexHeader L buf pos (IsLittleEndian L) = Inr (h, P) \<and>
    DefineVariableInEngineIOPerStep L R D h buf P s io = Inr (io\<lparr>io_Variables := AList.update (v_Name v) u (io_Variables io)\<rparr>) \<and>
    found_blocks (v_Name v) (type_enum v) (sizeof (type_enum v)) shape (unat step) (block_offsets P blocks) u"
proof -
  let ?h = "entry_header v member (19 + length (v_Name v) + length (concat blocks)) (length blocks)" and ?T = "type_enum v"
  have len: "length blocks \<le> length (concat blocks)"
    using reads
  proof (induction blocks arbitrary: bos P)
    case (Cons block blocks)
    then obtain bo bos' where "block_reads L R (type_enum v) buf step fileIndex bo (P, block)"
      "list_all2 (block_reads L R (type_enum v) buf step fileIndex) bos' (zip (block_offsets (P + length block) blocks) blocks)"
      by (auto simp: list_all2_Cons2)
    then show ?case using Cons.IH [of bos' "P + length block"] block_reads_length by fastforce
  qed simp
  have "header_ok ?h"
    using entry(2) name len unsigned_less [of member, where 'a = nat] by (simp add: header_ok_def entry_header_def)
  moreover have "holds_at buf pos (element_header L ?h)" using entry(1) by (simp add: index_entry_def)
  ultimately have "ReadElementIndexHeader L buf pos (IsLittleEndian L) = Inr (?h, pos + length (element_header L ?h))"
    by (rule read_header [rotated])
  then have header: "ReadElementIndexHeader L buf pos (IsLittleEndian L) = Inr (?h, P)"
    by (simp add: entry_header_def P add.assoc)
  obtain bo bos' block blocks' where bos: "bos = bo # bos'" and blocks: "blocks = block # blocks'"
    using some reads by (cases bos; cases blocks) simp_all
  have "block_reads L R ?T buf step fileIndex bo (P, block)" using reads by (simp add: bos blocks)
  then obtain c pos' where read: "ReadElementIndexCharacteristics R ?T buf P ?T (IsLittleEndian L) = Inr (c, pos')"
    and c: "describes step fileIndex (fst bo) (snd bo) c" by (auto simp: block_reads_def)
  have bo: "bi_Shape (fst bo) = shape" using shape(1) bos by simp
  obtain u where plain: "define_plain R False ?T (v_Name v) c io = Inr u"
    and found: "\<And>i. found_blocks (v_Name v) ?T (sizeof ?T) shape (unat step) [] (u\<lparr>rv_IndexStart := i, rv_AvailableStepsCount := 0\<rparr>)"
    using define_plain_array [OF c bo shape(2) io] by blast
  obtain f k u' where run: "new_blocks R False (IsLittleEndian L) buf ?T ?T (ch_IsValue c) (P + length (concat blocks)) P
        ({}, 0, u\<lparr>rv_IndexStart := pos, rv_AvailableStepsCount := 0\<rparr>) = Inr (f, k, u')"
    and found': "found_blocks (v_Name v) ?T (sizeof ?T) shape (unat step) ([] @ block_offsets P blocks) u'"
    using new_blocks_found [OF reads shape(1) T found] by fastforce
  have end_pos: "P - (length (v_Name v) + 23) = pos" "pos + (19 + length (v_Name v) + length (concat blocks)) + 4 = P + length (concat blocks)"
    by (simp_all add: P)
  have shape_id: "rv_ShapeID u' = GlobalArray" using found' by (simp add: found_blocks_def)
  have "DefineVariableInEngineIOPerStep L R D ?h buf P s io =
      Inr (io\<lparr>io_Variables := AList.update (v_Name v) (u'\<lparr>rv_StepsStart := 0\<rparr>) (io_Variables io)\<rparr>)"
    using D T unfolding DefineVariableInEngineIOPerStep_def Let_def
    by (simp add: entry_header_def read inquire_new [OF io] plain end_pos run shape_id del: concat.simps)
  moreover have "found_blocks (v_Name v) ?T (sizeof ?T) shape (unat step) (block_offsets P blocks) (u'\<lparr>rv_StepsStart := 0\<rparr>)"
    using found' by (simp add: found_blocks_def)
  ultimately show ?thesis using header by blast
qed

end

section \<open>Finding the bytes of a selection\<close>

text \<open>What \<open>GetSubFileInfo\<close> says of a block that a selection meets, and of several in one file and step.\<close>

definition block_box :: "BPInfo \<Rightarrow> Box" where
  "block_box b = box_of (bi_Start b) (bi_Count b)"

definition sub_file_info :: "bp_read \<Rightarrow> bool \<Rightarrow> nat \<Rightarrow> Box \<Rightarrow> BPInfo \<times> size_t \<Rightarrow> SubFileInfo" where
  "sub_file_info R row width selection bo =
     (let box = block_box (fst bo); meet = common selection box
      in \<lparr>sf_BlockBox = box, sf_IntersectionBox = meet,
          sf_Seeks = (snd bo + LinearIndex R box (fst meet) row * of_nat width, snd bo + (LinearIndex R box (snd meet) row + 1) * of_nat width)\<rparr>)"

definition sub_files :: "32 word \<Rightarrow> nat \<Rightarrow> SubFileInfo list \<Rightarrow> SubFileInfoMap" where
  "sub_files fileIndex step infos = (if infos = [] then [] else [(unat fileIndex, [(step, infos)])])"

definition select :: "size_t list \<Rightarrow> size_t list \<Rightarrow> nat \<Rightarrow> ReadVariable \<Rightarrow> ReadVariable" where
  "select start cnt step v = v\<lparr>v_Start := start, v_Count := cnt, rv_StepsStart := step - 1, rv_StepsCount := 1\<rparr>"

lemma sub_files_push: "map_put (unat f) (map_push step info (al_at (unat f) [] (sub_files f step infos))) (sub_files f step infos) =
    sub_files f step (infos @ [info])"
  by (simp add: sub_files_def map_push_one al_at_def)

definition selects :: "size_t list \<Rightarrow> Box \<Rightarrow> bool" where
  "selects shape box \<longleftrightarrow> length (fst box) = length shape \<and> is_box box"

lemma is_box_length: "is_box box \<Longrightarrow> length (snd box) = length (fst box)"
  by (simp add: is_box_def list_all2_lengthD)

context bp_read_library
begin

lemma sub_file_block_found:
  assumes reads: "block_reads L R T (d_Metadata D) step fileIndex bo (position, block)" and D: "mf_IsLittleEndian D = IsLittleEndian L"
    and v: "type_enum v = T" and b: "array_block R shape (fst bo)" and sel: "selects shape selection"
  shows "sub_file_block R D v selection s (sub_files fileIndex s infos) position = Inr (sub_files fileIndex s (infos @
    (if overlap selection (block_box (fst bo)) then [sub_file_info R (d_IsRowMajor D) (type_size v) selection bo] else [])))"
proof -
  obtain c pos' where read: "ReadElementIndexCharacteristics R T (d_Metadata D) position T (IsLittleEndian L) = Inr (c, pos')"
    and c: "ch_Start c = bi_Start (fst bo)" "ch_Count c = bi_Count (fst bo)" "ch_FileIndex c = fileIndex" "ch_PayloadOffset c = snd bo"
    using reads by (auto simp: block_reads_def describes_def)
  have len: "length (bi_Start (fst bo)) = length shape" "length (bi_Count (fst bo)) = length shape" "shape \<noteq> []"
    using b by (simp_all add: array_block_def)
  have lens: "length (fst (block_box (fst bo))) = length shape" "length (snd (block_box (fst bo))) = length shape"
    "length (fst selection) = length shape" "length (snd selection) = length shape"
    using sel len is_box_length by (auto simp: block_box_def box_of_def selects_def)
  have box: "StartEndBox R (bi_Start (fst bo)) (bi_Count (fst bo)) False = block_box (fst bo)"
    using start_end len by (simp add: block_box_def)
  have meet: "IntersectionBox R selection (block_box (fst bo)) =
      (if overlap selection (block_box (fst bo)) then common selection (block_box (fst bo)) else ([], []))"
    using intersection lens by metis
  have "length (fst (common selection (block_box (fst bo)))) = length shape" "length (snd (common selection (block_box (fst bo)))) = length shape"
    using lens by (simp_all add: common_def)
  then have "fst (common selection (block_box (fst bo))) \<noteq> []" "snd (common selection (block_box (fst bo))) \<noteq> []"
    using len(3) by force+
  then show ?thesis
    unfolding sub_file_block_def block_characteristics_def v D read bind_sum_simps prod.case c box meet Let_def
    by (simp add: sub_files_push sub_file_info_def Let_def)
qed

lemma sub_file_blocks_found:
  assumes "list_all2 (block_reads L R T (d_Metadata D) step fileIndex) bos (zip (block_offsets P blocks) blocks)"
    and D: "mf_IsLittleEndian D = IsLittleEndian L" and v: "type_enum v = T"
    and "\<forall>bo \<in> set bos. array_block R shape (fst bo)" and sel: "selects shape selection"
  shows "fold_sum (sub_file_block R D v selection s) (block_offsets P blocks) (sub_files fileIndex s infos) =
    Inr (sub_files fileIndex s (infos @ map (sub_file_info R (d_IsRowMajor D) (type_size v) selection)
      (filter (\<lambda>bo. overlap selection (block_box (fst bo))) bos)))"
  using assms(1,4)
proof (induction blocks arbitrary: bos P infos)
  case (Cons block blocks)
  obtain bo bos' where bos: "bos = bo # bos'" and first: "block_reads L R T (d_Metadata D) step fileIndex bo (P, block)"
    and rest: "list_all2 (block_reads L R T (d_Metadata D) step fileIndex) bos' (zip (block_offsets (P + length block) blocks) blocks)"
    using Cons.prems(1) by (auto simp: list_all2_Cons2)
  have ok: "array_block R shape (fst bo)" and oks: "\<forall>bo \<in> set bos'. array_block R shape (fst bo)" using Cons.prems(2) bos by simp_all
  show ?case
    using sub_file_block_found [OF first D v ok sel] Cons.IH [OF rest oks] by (simp add: bos)
qed simp

lemma GetSubFileInfo_found:
  assumes reads: "list_all2 (block_reads L R T (d_Metadata D) step fileIndex) bos (zip (block_offsets P blocks) blocks)" "bos \<noteq> []"
    and found: "found_blocks name T width shape (unat step) (block_offsets P blocks) v" and step: "step \<noteq> 0"
    and D: "mf_IsLittleEndian D = IsLittleEndian L" "\<not> d_ReverseDimensions D"
    and ok: "\<forall>bo \<in> set bos. array_block R shape (fst bo)" and sel: "length start = length cnt" "selects shape (box_of start cnt)"
  shows "GetSubFileInfo R D (select start cnt (unat step) v) = Inr (sub_files fileIndex (unat step)
    (map (sub_file_info R (d_IsRowMajor D) width (box_of start cnt)) (filter (\<lambda>bo. overlap (box_of start cnt) (block_box (fst bo))) bos)))"
proof -
  let ?v = "select start cnt (unat step) v"
  have pos: "unat step - 1 + 1 = unat step" using step by (simp add: unat_gt_0 Suc_leI)
  have "block_offsets P blocks \<noteq> []" using reads by (cases blocks) auto
  then have v: "rv_AvailableStepBlockIndexOffsets ?v = [(unat step, block_offsets P blocks)]" "type_enum ?v = T" "type_size ?v = width"
    "rv_StepsStart ?v = unat step - 1" "rv_StepsCount ?v = 1" "v_Start ?v = start" "v_Count ?v = cnt"
    using found by (simp_all add: found_blocks_def select_def)
  have run: "fold_sum (sub_file_block R D ?v (box_of start cnt) (unat step)) (block_offsets P blocks) (sub_files fileIndex (unat step) []) =
      Inr (sub_files fileIndex (unat step) (map (sub_file_info R (d_IsRowMajor D) width (box_of start cnt))
        (filter (\<lambda>bo. overlap (box_of start cnt) (block_box (fst bo))) bos)))"
    using sub_file_blocks_found [OF reads(1) D(1) v(2) ok sel(2), of "unat step" "[]"] v(3) by simp
  have none: "[] = sub_files fileIndex (unat step) []" by (simp add: sub_files_def)
  show ?thesis
    unfolding GetSubFileInfo_def Let_def v pos sub_file_step_def
    using run D(2) by (simp add: start_end [OF sel(1)] upt_conv_Cons v flip: none)
qed

end

section \<open>The bytes are those of the payloads\<close>

text \<open>
  What a reader gets of a block: the elements from the first corner of the common box to the
  last, in the order of the linear index, which are the whole block if all of it is selected.
\<close>

definition read_bytes :: "nat \<Rightarrow> bytes \<Rightarrow> SubFileInfo \<Rightarrow> bytes" where
  "read_bytes F buffer info =
     chunk (unat (fst (sf_Seeks info)) - F) (unat (snd (sf_Seeks info)) - unat (fst (sf_Seeks info))) buffer"

definition portion_of :: "bp_read \<Rightarrow> bool \<Rightarrow> nat \<Rightarrow> Box \<Rightarrow> BPInfo \<Rightarrow> bytes" where
  "portion_of R row width selection b =
     (let box = block_box b; meet = common selection box;
          first = unat (LinearIndex R box (fst meet) row); last = unat (LinearIndex R box (snd meet) row)
      in chunk (first * width) ((last + 1 - first) * width) (the (bi_Data b)))"

lemma unat_seek:
  fixes x :: size_t
  assumes "q + (unat x + k) * w < 2 ^ 64"
  shows "unat (of_nat q + (x + of_nat k) * of_nat w) = q + (unat x + k) * w"
proof -
  have "of_nat q + (x + of_nat k) * of_nat w = (of_nat (q + (unat x + k) * w) :: size_t)" by simp
  then show ?thesis using assms by (simp only: unat_of_nat) simp
qed

lemma prod_list_pos: "0 \<notin> set (cnt :: size_t list) \<Longrightarrow> 0 < prod_list (map unat cnt)"
  by (induction cnt) (auto simp: unat_gt_0)

lemma chunk_of_holds:
  assumes "holds_at buf p d" and "q + n \<le> length d"
  shows "chunk (p + q) n buf = chunk q n d"
proof -
  have "chunk q n d = take n (drop q (take (length d) (drop p buf)))" using assms(1) by (simp add: holds_at_def chunk_def)
  also have "\<dots> = take (min n (length d - q)) (drop (q + p) buf)" by (simp add: drop_take)
  finally show ?thesis using assms(2) by (simp add: chunk_def add.commute)
qed

text \<open>A request for a block of the array \<open>v\<close>, with its data in contiguous memory.\<close>

definition array_request :: "bp_data \<Rightarrow> bp4_config \<Rightarrow> bp_read \<Rightarrow> Variable \<Rightarrow> size_t list \<Rightarrow> request \<Rightarrow> bool" where
  "array_request B C R v shape r \<longleftrightarrow>
     (case r of (u, b, row) \<Rightarrow> u = v \<and> request_ok B C r \<and> array_block R shape b \<and> prod_list (map unat (bi_Count b)) < 2 ^ 64 \<and>
       bi_MemoryStart b = [] \<and> (\<exists>d. bi_Data b = Some d \<and> length d = prod_list (map unat (bi_Count b)) * type_size v))"

text \<open>What \<open>BlocksInfo\<close> tells of the blocks that were put: one entry for each, numbered from 0.\<close>

definition block_told :: "ReadInfo \<Rightarrow> nat \<times> size_t list \<times> size_t list \<times> size_t list \<times> 32 word \<times> size_t" where
  "block_told i = (ri_BlockID i, bi_Shape i, bi_Start i, bi_Count i, ri_WriterID i, ri_Step i)"

definition blocks_put :: "nat \<Rightarrow> 32 word \<Rightarrow> 32 word \<Rightarrow> request list \<Rightarrow> (nat \<times> size_t list \<times> size_t list \<times> size_t list \<times> 32 word \<times> size_t) list" where
  "blocks_put n step fileIndex rs =
     map (\<lambda>(k, v, b, row). (k, bi_Shape b, bi_Start b, bi_Count b, fileIndex, ucast (step - 1))) (enumerate n rs)"

text \<open>A reader whose metadata has the entry of an index for its step; its IO does not have the variable.\<close>

definition reader_of :: "bp_lib \<Rightarrow> Variable \<Rightarrow> SerialElementIndex \<Rightarrow> bp4_deserializer \<Rightarrow> nat \<Rightarrow> engine_io \<Rightarrow> bool" where
  "reader_of L v i D pos io \<longleftrightarrow>
     holds_at (d_Metadata D) pos (drop (ix_CurrentHeaderPosition i) (ix_Buffer i)) \<and> length (drop (ix_CurrentHeaderPosition i) (ix_Buffer i)) < 2 ^ 32 \<and>
     mf_IsLittleEndian D = IsLittleEndian L \<and> \<not> d_ReverseDimensions D \<and> map_of (io_Variables io) (v_Name v) = None"

context bp_read_library
begin

lemma portion_read:
  assumes b: "array_block R shape b" "bi_Data b = Some d" "length d = prod_list (map unat (bi_Count b)) * width"
    and small: "prod_list (map unat (bi_Count b)) < 2 ^ 64" "F + p + length d < 2 ^ 64" and at: "holds_at buffer p d"
    and sel: "selects shape selection" "overlap selection (block_box b)"
  shows "read_bytes F buffer (sub_file_info R row width selection (b, of_nat (F + p))) = portion_of R row width selection b"
proof -
  let ?box = "block_box b" and ?meet = "common selection (block_box b)"
  let ?x = "LinearIndex R ?box (fst ?meet) row" and ?y = "LinearIndex R ?box (snd ?meet) row"
  have box: "is_box ?box" "box_size ?box = prod_list (map unat (bi_Count b))"
    using b(1) box_of_size by (auto simp: array_block_def block_box_def)
  have selection: "is_box selection" using sel(1) by (simp add: selects_def)
  note meet = common_in_box [OF selection box(1) sel(2)]
  have y: "unat ?y < prod_list (map unat (bi_Count b))" using linear_inside [OF box(1) _ meet(2)] box(2) small(1) by simp
  have xy: "unat ?x \<le> unat ?y" using linear_mono [OF box(1) _ meet] box(2) small(1) by (simp add: word_le_nat_alt)
  have "(unat ?y + 1) * width \<le> length d" using y unfolding b(3) by (intro mult_le_mono1) simp
  moreover have "unat ?x * width \<le> (unat ?y + 1) * width" using xy by (intro mult_le_mono1) simp
  moreover have "(unat ?y + 1 - unat ?x) * width = (unat ?y + 1) * width - unat ?x * width" by (rule diff_mult_distrib)
  ultimately have le: "unat ?x * width \<le> length d" "(unat ?y + 1) * width \<le> length d" "unat ?x * width + (unat ?y + 1 - unat ?x) * width \<le> length d"
    and diff: "(unat ?y + 1) * width - unat ?x * width = (unat ?y + 1 - unat ?x) * width"
    by linarith+
  have seeks: "unat (of_nat (F + p) + ?x * of_nat width) = F + p + unat ?x * width"
    "unat (of_nat (F + p) + (?y + 1) * of_nat width) = F + p + (unat ?y + 1) * width"
    using unat_seek [of "F + p" ?x 0 width] unat_seek [of "F + p" ?y 1 width] le small(2) by simp_all
  have "read_bytes F buffer (sub_file_info R row width selection (b, of_nat (F + p))) =
      chunk (p + unat ?x * width) ((unat ?y + 1) * width - unat ?x * width) buffer"
    unfolding read_bytes_def sub_file_info_def Let_def SubFileInfo.select_convs fst_conv snd_conv seeks by simp
  also have "\<dots> = chunk (unat ?x * width) ((unat ?y + 1 - unat ?x) * width) d"
    unfolding diff by (rule chunk_of_holds [OF at le(3)])
  finally show ?thesis by (simp add: portion_of_def Let_def b(2))
qed

lemma portion_of_all:
  assumes b: "array_block R shape b" "bi_Data b = Some d" "length d = prod_list (map unat (bi_Count b)) * width"
    and small: "prod_list (map unat (bi_Count b)) < 2 ^ 64"
  shows "portion_of R row width (block_box b) b = d"
proof -
  have box: "is_box (block_box b)" "box_size (block_box b) = prod_list (map unat (bi_Count b))" and some: "0 \<notin> set (bi_Count b)"
    using b(1) box_of_size by (auto simp: array_block_def block_box_def)
  have "common (block_box b) (block_box b) = block_box b" 
    by (simp add: common_def zip_same_conv_map comp_def)
  moreover have "0 < prod_list (map unat (bi_Count b))" by (rule prod_list_pos [OF some])
  ultimately show ?thesis
    using linear_corners [OF box(1)] box(2) small b(2,3) by (simp add: portion_of_def Let_def chunk_def)
qed

text \<open>Where the payload of a request is, and that its block says so.\<close>

definition stored :: "bp4_config \<Rightarrow> 32 word \<Rightarrow> 32 word \<Rightarrow> nat \<Rightarrow> bytes \<Rightarrow> request \<Rightarrow> bytes \<Rightarrow> bool" where
  "stored C step fileIndex F buffer r block \<longleftrightarrow>
     (case r of (v, b, row) \<Rightarrow> \<exists>p. p + length (payload v b row) \<le> length buffer \<and> holds_at buffer p (payload v b row) \<and>
       written_block C v b step fileIndex (of_nat (F + p)) block)"

text \<open>The blocks of one variable.\<close>

lemma put_blocks_stored:
  assumes "\<forall>r \<in> set rs. fst r = v \<and> request_ok B C r" and str: "\<not> is_string B v"
    and "room_for (sum_list (map (record_size L Z B payload C) rs)) W" and "ms_TimeStep (w_MetadataSet W) \<noteq> 0"
    and "step_entry L v W blocks" and "lf_SetOffset C W = of_nat (F + m_Position (w_Data W))"
  shows "\<exists>W' new. put_variables L Z B C W rs = Inr W' \<and> ms_TimeStep (w_MetadataSet W') = ms_TimeStep (w_MetadataSet W) \<and>
    step_entry L v W' (blocks @ new) \<and> length (m_Buffer (w_Data W')) = length (m_Buffer (w_Data W)) \<and>
    (\<forall>q xs. q + length xs \<le> m_Position (w_Data W) \<longrightarrow> holds_at (m_Buffer (w_Data W)) q xs \<longrightarrow> holds_at (m_Buffer (w_Data W')) q xs) \<and>
    list_all2 (stored C (ms_TimeStep (w_MetadataSet W)) (GetFileIndex B W) F (m_Buffer (w_Data W'))) rs new"
  using assms
proof (induction rs arbitrary: W blocks)
  case Nil
  then show ?case by (intro exI [of _ W] exI [of _ "[]"]) simp
next
  case (Cons r rs)
  obtain b row where r: "r = (v, b, row)" using Cons.prems(1) by (cases r) auto
  let ?pos = "m_Position (w_Data W)" and ?p = "payload v b row" and ?t = "ms_TimeStep (w_MetadataSet W)"
  have "request_ok B C (v, b, row)" and "room_for (record_size L Z B payload C (v, b, row)) W"
    using Cons.prems(1,3) by (auto simp: r room_for_def)
  from put_variable_writes [OF this Cons.prems(5,4)] obtain W1 frame block
    where put: "put_variable L Z B C W (v, b, row) = Inr W1" and wrote: "variable_put C W (v, b, row) blocks W1 frame block" by blast
  have frame: "frame_of L B payload (v, b, row) frame" "length frame = record_size L Z B payload C (v, b, row)"
    and entry: "step_entry L v W1 (blocks @ [block])"
    and block: "written_block C v b ?t (GetFileIndex B W) (lf_SetOffset C W + of_nat (length frame - length ?p)) block"
    and "\<exists>indices. W1 = indexed (put_data W frame) (?pos + 4) indices"
    using wrote str unfolding variable_put_def prod.case by blast+
  then obtain indices where W1: "W1 = indexed (put_data W frame) (?pos + 4) indices" by blast
  obtain pre where pre: "frame = pre @ ?p" using frame(1) by (auto simp: frame_of_def variable_frame_def)
  have room: "?pos + length frame \<le> length (m_Buffer (w_Data W))"
    "room_for (sum_list (map (record_size L Z B payload C) rs)) W1"
    using Cons.prems(3) frame(2) by (simp_all add: room_for_def r W1)
  have buffer: "m_Buffer (w_Data W1) = overlay (m_Buffer (w_Data W)) ?pos frame" "m_Position (w_Data W1) = ?pos + length frame"
    by (simp_all add: W1)
  have offset: "lf_SetOffset C W1 = of_nat (F + m_Position (w_Data W1))"
    by (simp add: W1 offset_put_data Cons.prems(6))
  have oks: "\<forall>r \<in> set rs. fst r = v \<and> request_ok B C r" and time: "ms_TimeStep (w_MetadataSet W1) = ?t"
    and time1: "ms_TimeStep (w_MetadataSet W1) \<noteq> 0"
    using Cons.prems(1,4) by (simp_all add: W1)
  obtain W' new where run: "put_variables L Z B C W1 rs = Inr W'" and step: "ms_TimeStep (w_MetadataSet W') = ms_TimeStep (w_MetadataSet W1)"
    and entry': "step_entry L v W' ((blocks @ [block]) @ new)" and len: "length (m_Buffer (w_Data W')) = length (m_Buffer (w_Data W1))"
    and keep: "\<forall>q xs. q + length xs \<le> m_Position (w_Data W1) \<longrightarrow> holds_at (m_Buffer (w_Data W1)) q xs \<longrightarrow> holds_at (m_Buffer (w_Data W')) q xs"
    and all: "list_all2 (stored C (ms_TimeStep (w_MetadataSet W1)) (GetFileIndex B W1) F (m_Buffer (w_Data W'))) rs new"
    using Cons.IH [OF oks str room(2) time1 entry offset] by (elim exE conjE) (rule that; assumption)
  have first: "stored C ?t (GetFileIndex B W) F (m_Buffer (w_Data W')) r block"
    unfolding stored_def r prod.case
  proof (intro exI conjI)
    show "?pos + length pre + length ?p \<le> length (m_Buffer (w_Data W'))" using room(1) len by (simp add: buffer pre)
    have "holds_at (m_Buffer (w_Data W1)) ?pos frame" using room(1) by (simp add: buffer)
    then have "holds_at (m_Buffer (w_Data W1)) (?pos + length pre) ?p" by (simp add: pre)
    then show "holds_at (m_Buffer (w_Data W')) (?pos + length pre) ?p" using keep by (simp add: buffer pre)
    show "written_block C v b ?t (GetFileIndex B W) (of_nat (F + (?pos + length pre))) block"
      using block Cons.prems(6) by (simp add: pre add.assoc)
  qed
  show ?case
  proof (intro exI [of _ W'] exI [of _ "block # new"] conjI allI impI)
    show "put_variables L Z B C W (r # rs) = Inr W'" using put run by (simp add: r)
    show "ms_TimeStep (w_MetadataSet W') = ?t" using step time by simp
    show "step_entry L v W' (blocks @ block # new)" using entry' by simp
    show "length (m_Buffer (w_Data W')) = length (m_Buffer (w_Data W))" using len room(1) by (simp add: buffer)
    show "holds_at (m_Buffer (w_Data W')) q xs" if "q + length xs \<le> ?pos" "holds_at (m_Buffer (w_Data W)) q xs" for q xs
    proof -
      have "holds_at (m_Buffer (w_Data W1)) q xs" using that room(1) by (simp add: buffer holds_at_overlay_other)
      then show ?thesis using keep that(1) by (simp add: buffer)
    qed
    show "list_all2 (stored C ?t (GetFileIndex B W) F (m_Buffer (w_Data W'))) (r # rs) (block # new)"
      using first all file_index [of W1 W] by (simp add: time W1 indexed_def put_data_def Let_def)
  qed
qed

text \<open>The blocks in the metadata are read, and say where the payloads are.\<close>

definition in_data :: "nat \<Rightarrow> bytes \<Rightarrow> request \<Rightarrow> BPInfo \<times> size_t \<Rightarrow> bool" where
  "in_data F buffer r bo \<longleftrightarrow>
     (case r of (v, b, row) \<Rightarrow> fst bo = b \<and> (\<exists>p d. bi_Data b = Some d \<and> snd bo = of_nat (F + p) \<and> p + length d \<le> length buffer \<and>
       holds_at buffer p d))"

lemma stored_reads:
  assumes "list_all2 (stored C step fileIndex F buffer) rs new" and "holds_at buf P (concat new)" and "length (concat new) < 2 ^ 32"
    and "\<forall>r \<in> set rs. array_request B C R v shape r" and v: "\<not> v_SingleValue v" "\<not> is_string B v"
  shows "\<exists>bos. list_all2 (block_reads L R (type_enum v) buf step fileIndex) bos (zip (block_offsets P new) new) \<and>
    list_all2 (in_data F buffer) rs bos"
  using assms(1-4)
proof (induction rs new arbitrary: P rule: list_all2_induct)
  case (Cons r rs block new)
  obtain b row where r: "r = (v, b, row)" and b: "array_block R shape b" "prod_list (map unat (bi_Count b)) < 2 ^ 64" "bi_MemoryStart b = []"
    using Cons.prems(3) by (cases r) (auto simp: array_request_def)
  obtain d where d: "bi_Data b = Some d" "length d = prod_list (map unat (bi_Count b)) * type_size v"
    using Cons.prems(3) by (auto simp: array_request_def r)
  have payload: "payload v b row = d"
    using payload_contiguous [OF b(3) d(1) v(2), of row] d(2) total_size [OF b(2)] by simp
  obtain p where p: "p + length d \<le> length buffer" "holds_at buffer p d"
    and block: "written_block C v b step fileIndex (of_nat (F + p)) block"
    using Cons.hyps(1) by (auto simp: stored_def r payload)
  obtain stats span' where stats: "st_Step stats = step" "st_FileIndex stats = fileIndex" "st_PayloadOffset stats = of_nat (F + p)"
    and run: "PutVariableCharacteristics L Z (cf_StatsLevel C) v b stats [] None = Inr (block, span')"
    using block unfolding written_block_def by (metis append_Nil)
  have at: "holds_at buf P block" "holds_at buf (P + length block) (concat new)" and small: "length block < 2 ^ 32" "length (concat new) < 2 ^ 32"
    using Cons.prems(1,2) by simp_all
  have "block_reads L R (type_enum v) buf step fileIndex (b, of_nat (F + p)) (P, block)"
    using read_block [OF b(1) v(1) _ run small(1) at(1)] v(2) by (simp add: block_reads_def stats string_type)
  moreover have "in_data F buffer r (b, of_nat (F + p))" using d(1) p by (auto simp: in_data_def r)
  moreover obtain bos where "list_all2 (block_reads L R (type_enum v) buf step fileIndex) bos (zip (block_offsets (P + length block) new) new)"
    "list_all2 (in_data F buffer) rs bos"
    using Cons.IH [OF at(2) small(2)] Cons.prems(3) by auto
  ultimately show ?case by (intro exI [of _ "(b, of_nat (F + p)) # bos"]) simp
qed simp

lemma in_data_arrays:
  assumes "list_all2 (in_data F buffer) rs bos" and "\<forall>r \<in> set rs. array_request B C R v shape r"
  shows "(\<forall>bo \<in> set bos. array_block R shape (fst bo)) \<and> (\<forall>bo \<in> set bos. bi_Shape (fst bo) = shape)"
  using assms
proof (induction rs bos rule: list_all2_induct)
  case (Cons r rs bo bos)
  then show ?case by (cases r; cases bo) (auto simp: in_data_def array_request_def array_block_def)
qed simp

lemma portions_read:
  assumes "list_all2 (in_data F buffer) rs bos" and "\<forall>r \<in> set rs. array_request B C R v shape r"
    and "F + length buffer < 2 ^ 64" and "selects shape box"
  shows "map (read_bytes F buffer) (map (sub_file_info R row (type_size v) box) (filter (\<lambda>bo. overlap box (block_box (fst bo))) bos)) =
      map (portion_of R row (type_size v) box) (filter (\<lambda>b. overlap box (block_box b)) (map (\<lambda>(v, b, row). b) rs))"
  using assms(1,2)
proof (induction rs bos rule: list_all2_induct)
  case (Cons r rs bo bos)
  obtain b row' where r: "r = (v, b, row')" and b: "array_block R shape b" "prod_list (map unat (bi_Count b)) < 2 ^ 64"
    using Cons.prems by (cases r) (auto simp: array_request_def)
  obtain p d where bo: "bo = (b, of_nat (F + p))" and d: "bi_Data b = Some d" "p + length d \<le> length buffer" "holds_at buffer p d"
    using Cons.hyps(1) by (cases bo) (auto simp: in_data_def r)
  have width: "length d = prod_list (map unat (bi_Count b)) * type_size v"
    using Cons.prems d(1) by (auto simp: array_request_def r)
  have "read_bytes F buffer (sub_file_info R row (type_size v) box bo) = portion_of R row (type_size v) box b" if "overlap box (block_box b)"
    unfolding bo using portion_read [OF b(1) d(1) width b(2) _ d(3) assms(4) that] assms(3) d(2) by simp
  then show ?case using Cons.IH Cons.prems by (simp add: r) (simp add: bo)
qed simp

lemma blocks_info_told:
  assumes "list_all2 (block_reads L R T (d_Metadata D) step fileIndex) bos (zip (block_offsets P blocks) blocks)"
    and "list_all2 (in_data F buffer) rs bos" and "\<forall>bo \<in> set bos. array_block R shape (fst bo)"
    and D: "mf_IsLittleEndian D = IsLittleEndian L" "\<not> d_ReverseDimensions D"
  shows "\<exists>infos. blocks_info_from R D T k n (block_offsets P blocks) = Inr infos \<and>
    map block_told infos = blocks_put n step fileIndex rs"
  using assms(1-3)
proof (induction blocks arbitrary: bos rs P n)
  case (Cons block blocks)
  obtain bo bos' where bos: "bos = bo # bos'" and first: "block_reads L R T (d_Metadata D) step fileIndex bo (P, block)"
    and rest: "list_all2 (block_reads L R T (d_Metadata D) step fileIndex) bos' (zip (block_offsets (P + length block) blocks) blocks)"
    using Cons.prems(1) by (auto simp: list_all2_Cons2)
  obtain r rs' where rs: "rs = r # rs'" and r: "in_data F buffer r bo" and rest': "list_all2 (in_data F buffer) rs' bos'"
    using Cons.prems(2) by (auto simp: bos list_all2_Cons2)
  obtain v b row where b: "r = (v, b, row)" "fst bo = b" using r by (cases r) (auto simp: in_data_def)
  have array: "array_block R shape b" using Cons.prems(3) by (simp add: bos b)
  obtain c pos' where read: "ReadElementIndexCharacteristics R T (d_Metadata D) P T (IsLittleEndian L) = Inr (c, pos')"
    and c: "describes step fileIndex b (snd bo) c" using first by (auto simp: block_reads_def b)
  have ch: "ch_Shape c = bi_Shape b" "ch_Start c = bi_Start b" "ch_Count c = bi_Count b" "ch_Step c = step" "ch_FileIndex c = fileIndex"
    "\<not> ch_IsValue c" using c by (simp_all add: describes_def)
  have no_local: "\<not> (length (bi_Shape b) = 1 \<and> hd (bi_Shape b) = LocalValueDim R)"
    using array by (auto simp: array_block_def length_Suc_conv)
  have told: "block_told (block_info R D k n c) = (n, bi_Shape b, bi_Start b, bi_Count b, fileIndex, ucast (step - 1))"
    using no_local by (auto simp: block_info_def block_told_def reversed_def D(2) ch Let_def)
  have "\<forall>bo \<in> set bos'. array_block R shape (fst bo)" using Cons.prems(3) by (simp add: bos)
  from Cons.IH [OF rest rest' this, of "n + 1"] obtain infos where
    infos: "blocks_info_from R D T k (n + 1) (block_offsets (P + length block) blocks) = Inr infos"
    "map block_told infos = blocks_put (n + 1) step fileIndex rs'" by blast
  then show ?case
    by (intro exI [of _ "block_info R D k n c # infos"])
      (simp add: block_characteristics_def D(1) read told rs b(1) blocks_put_def)
qed (auto simp: blocks_put_def)

lemma BlocksInfo_found:
  assumes found: "found_blocks name T width shape (unat step) (block_offsets P blocks) u" and "step \<noteq> 0" and "bos \<noteq> []"
    and reads: "list_all2 (block_reads L R T (d_Metadata D) step fileIndex) bos (zip (block_offsets P blocks) blocks)"
    and "list_all2 (in_data F buffer) rs bos" and "\<forall>bo \<in> set bos. array_block R shape (fst bo)"
    and "mf_IsLittleEndian D = IsLittleEndian L" "\<not> d_ReverseDimensions D"
  shows "\<exists>infos. BlocksInfo R D u (unat step - 1) = Inr infos \<and> map block_told infos = blocks_put 0 step fileIndex rs"
proof -
  have "blocks \<noteq> []" using reads assms(3) by auto
  then have offsets: "block_offsets P blocks \<noteq> []" by (cases blocks) simp_all
  have "0 < unat step" using assms(2) by (simp add: unat_gt_0)
  then have "unat step - 1 + 1 = unat step" by simp
  then have "BlocksInfo R D u (unat step - 1) = blocks_info_from R D T (length (block_offsets P blocks)) 0 (block_offsets P blocks)"
    using found offsets by (simp add: BlocksInfo_def BlocksInfoCommon_def found_blocks_def)
  then show ?thesis using blocks_info_told [OF reads assms(5-8)] by simp
qed

text \<open>The blocks of a variable, put and read.\<close>

lemma put_get:
  assumes v: "\<not> v_SingleValue v" "\<not> is_string B v" "type_size v = sizeof (type_enum v)" "length (v_Name v) < 2 ^ 16"
    and rs: "rs \<noteq> []" "\<forall>r \<in> set rs. array_request B C R v shape r"
    and room: "room_for (sum_list (map (record_size L Z B payload C) rs)) W" and time: "ms_TimeStep (w_MetadataSet W) \<noteq> 0"
    and new: "step_entry L v W []"
    and offset: "lf_SetOffset C W = of_nat (F + m_Position (w_Data W))" "F + length (m_Buffer (w_Data W)) < 2 ^ 64"
  shows "\<exists>W' i. put_variables L Z B C W rs = Inr W' \<and> map_of (ms_VarsIndices (w_MetadataSet W')) (v_Name v) = Some i \<and>
    (\<forall>D pos io s. reader_of L v i D pos io \<longrightarrow> (\<exists>h P io' u. ReadElementIndexHeader L (d_Metadata D) pos (IsLittleEndian L) = Inr (h, P) \<and>
      DefineVariableInEngineIOPerStep L R D h (d_Metadata D) P s io = Inr io' \<and> map_of (io_Variables io') (v_Name v) = Some u \<and>
      rv_ShapeID u = GlobalArray \<and> v_Shape u = shape \<and> type_enum u = type_enum v \<and>
      (\<exists>told. BlocksInfo R D u (unat (ms_TimeStep (w_MetadataSet W)) - 1) = Inr told \<and> map block_told told = blocks_put 0 (ms_TimeStep (w_MetadataSet W)) (GetFileIndex B W) rs) \<and>
      (\<forall>start cnt. length start = length cnt \<longrightarrow> selects shape (box_of start cnt) \<longrightarrow>
        (\<exists>infos. GetSubFileInfo R D (select start cnt (unat (ms_TimeStep (w_MetadataSet W))) u) =
            Inr (sub_files (GetFileIndex B W) (unat (ms_TimeStep (w_MetadataSet W))) infos) \<and>
          map (read_bytes F (m_Buffer (w_Data W'))) infos =
            map (portion_of R (d_IsRowMajor D) (type_size v) (box_of start cnt))
              (filter (\<lambda>b. overlap (box_of start cnt) (block_box b)) (map (\<lambda>(v, b, row). b) rs))))))"
proof -
  let ?t = "ms_TimeStep (w_MetadataSet W)"
  have oks: "\<forall>r \<in> set rs. fst r = v \<and> request_ok B C r" using rs(2) by (auto simp: array_request_def)
  obtain W' blocks where put: "put_variables L Z B C W rs = Inr W'" and time': "ms_TimeStep (w_MetadataSet W') = ?t"
    and entry: "step_entry L v W' blocks" and len: "length (m_Buffer (w_Data W')) = length (m_Buffer (w_Data W))"
    and stored: "list_all2 (stored C ?t (GetFileIndex B W) F (m_Buffer (w_Data W'))) rs blocks"
    using put_blocks_stored [OF oks v(2) room time new offset(1)] unfolding append_Nil by blast
  have some: "blocks \<noteq> []" using stored rs(1) by auto
  then obtain i old where i: "map_of (ms_VarsIndices (w_MetadataSet W')) (v_Name v) = Some i"
    and ok: "index_ok L v (ix_MemberID i) old blocks i"
    using entry by (auto simp: step_entry_def index_step_def split: option.splits if_splits)
  have read: "\<exists>h P io' u. ReadElementIndexHeader L (d_Metadata D) pos (IsLittleEndian L) = Inr (h, P) \<and>
      DefineVariableInEngineIOPerStep L R D h (d_Metadata D) P s io = Inr io' \<and> map_of (io_Variables io') (v_Name v) = Some u \<and>
      rv_ShapeID u = GlobalArray \<and> v_Shape u = shape \<and> type_enum u = type_enum v \<and>
      (\<exists>told. BlocksInfo R D u (unat ?t - 1) = Inr told \<and> map block_told told = blocks_put 0 ?t (GetFileIndex B W) rs) \<and>
      (\<forall>start cnt. length start = length cnt \<longrightarrow> selects shape (box_of start cnt) \<longrightarrow>
        (\<exists>infos. GetSubFileInfo R D (select start cnt (unat ?t) u) = Inr (sub_files (GetFileIndex B W) (unat ?t) infos) \<and>
          map (read_bytes F (m_Buffer (w_Data W'))) infos =
            map (portion_of R (d_IsRowMajor D) (type_size v) (box_of start cnt))
              (filter (\<lambda>b. overlap (box_of start cnt) (block_box b)) (map (\<lambda>(v, b, row). b) rs))))"
    if reader: "reader_of L v i D pos io" for D pos io s
  proof -
    have at: "holds_at (d_Metadata D) pos (index_entry L v (ix_MemberID i) blocks)"
      and small: "length (index_entry L v (ix_MemberID i) blocks) < 2 ^ 32"
      and D: "mf_IsLittleEndian D = IsLittleEndian L" "\<not> d_ReverseDimensions D" and none: "map_of (io_Variables io) (v_Name v) = None"
      using reader ok by (auto simp: reader_of_def index_ok_def)
    define P where "P = pos + 23 + length (v_Name v)"
    have body: "holds_at (d_Metadata D) P (concat blocks)"
      using at by (simp add: index_entry_def entry_header_def P_def add.assoc)
    have "length (concat blocks) < 2 ^ 32" using small by simp
    from stored_reads [OF stored body this rs(2) v(1,2)]
    obtain bos where reads: "list_all2 (block_reads L R (type_enum v) (d_Metadata D) ?t (GetFileIndex B W)) bos (zip (block_offsets P blocks) blocks)"
      and data: "list_all2 (in_data F (m_Buffer (w_Data W'))) rs bos" by blast
    have bos: "bos \<noteq> []" using data rs(1) by auto
    have fits: "F + length (m_Buffer (w_Data W')) < 2 ^ 64" using offset(2) len by simp
    have nonempty: "shape \<noteq> []" using rs by (cases rs) (auto simp: array_request_def array_block_def)
    have bo_shapes: "\<forall>bo \<in> set bos. bi_Shape (fst bo) = shape" and arrays: "\<forall>bo \<in> set bos. array_block R shape (fst bo)"
      using in_data_arrays [OF data rs(2)] by blast+
    have T: "type_enum v \<noteq> br_type_string R" using v(2) string_type by simp
    obtain h u where header: "ReadElementIndexHeader L (d_Metadata D) pos (IsLittleEndian L) = Inr (h, P)"
      and define': "DefineVariableInEngineIOPerStep L R D h (d_Metadata D) P s io =
        Inr (io\<lparr>io_Variables := AList.update (v_Name v) u (io_Variables io)\<rparr>)"
      and found: "found_blocks (v_Name v) (type_enum v) (sizeof (type_enum v)) shape (unat ?t) (block_offsets P blocks) u"
      using define_found [OF at small v(4) none P_def bos reads bo_shapes nonempty T D] by blast
    have "\<exists>infos. GetSubFileInfo R D (select start cnt (unat ?t) u) = Inr (sub_files (GetFileIndex B W) (unat ?t) infos) \<and>
          map (read_bytes F (m_Buffer (w_Data W'))) infos =
            map (portion_of R (d_IsRowMajor D) (type_size v) (box_of start cnt))
              (filter (\<lambda>b. overlap (box_of start cnt) (block_box b)) (map (\<lambda>(v, b, row). b) rs))"
      if sel: "length start = length cnt" "selects shape (box_of start cnt)" for start cnt
      unfolding v(3)
      by (rule exI, rule conjI [OF GetSubFileInfo_found [OF reads bos found time D arrays sel]
            portions_read [OF data rs(2) fits sel(2), unfolded v(3)]])
    with header define' found BlocksInfo_found [OF found time bos reads data arrays D] show ?thesis
      by (intro exI [of _ h] exI [of _ P] exI [of _ "io\<lparr>io_Variables := AList.update (v_Name v) u (io_Variables io)\<rparr>"] exI [of _ u])
        (simp add: update_conv' found_blocks_def)
  qed
  show ?thesis using put i read by blast
qed

end

section \<open>A reference instance\<close>

text \<open>The linear index in row-major order, on numbers; in column-major order it is that of the reversed lists.\<close>

fun row_index :: "size_t list \<Rightarrow> size_t list \<Rightarrow> size_t list \<Rightarrow> nat" where
  "row_index (l # lo) (h # hi) (p # ps) = unat (p - l) * box_size (lo, hi) + row_index lo hi ps"
| "row_index lo hi ps = 0"

lemma box_size_Cons [simp]: "box_size (l # lo, h # hi) = (unat (h - l) + 1) * box_size (lo, hi)" "box_size ([], []) = 1"
  by (simp_all add: box_size_def)

lemma box_size_rev: "length lo = length hi \<Longrightarrow> box_size (rev lo, rev hi) = box_size (lo, hi)"
  by (simp add: box_size_def zip_rev prod_list.rev flip: rev_map)

lemma unat_diff_mono: "l \<le> p \<Longrightarrow> p \<le> h \<Longrightarrow> unat (p - l) \<le> unat (h - l)" for l p h :: size_t
  by (simp add: unat_sub word_le_nat_alt order.trans diff_le_mono)

lemma row_index_less: "list_all2 (\<le>) lo ps \<Longrightarrow> list_all2 (\<le>) ps hi \<Longrightarrow> row_index lo hi ps < box_size (lo, hi)"
proof (induction lo hi ps rule: row_index.induct)
  case (1 l lo h hi p ps)
  have "row_index lo hi ps < box_size (lo, hi)" and "unat (p - l) \<le> unat (h - l)" using 1 unat_diff_mono by auto
  then have "unat (p - l) * box_size (lo, hi) + row_index lo hi ps < unat (h - l) * box_size (lo, hi) + box_size (lo, hi)"
    by (intro add_le_less_mono mult_le_mono1)
  then show ?case by (simp add: add.commute)
qed auto

lemma row_index_mono:
  "list_all2 (\<le>) lo ps \<Longrightarrow> list_all2 (\<le>) ps qs \<Longrightarrow> list_all2 (\<le>) qs hi \<Longrightarrow> row_index lo hi ps \<le> row_index lo hi qs"
proof (induction lo hi ps arbitrary: qs rule: row_index.induct)
  case (1 l lo h hi p ps)
  then obtain q qs' where qs: "qs = q # qs'" by (auto simp: list_all2_Cons1)
  have "unat (p - l) \<le> unat (q - l)" and "row_index lo hi ps \<le> row_index lo hi qs'" using 1 unat_diff_mono by (auto simp: qs)
  then show ?case by (simp add: qs add_le_mono mult_le_mono1)
qed auto

lemma row_index_corners:
  "list_all2 (\<le>) lo hi \<Longrightarrow> row_index lo hi lo = 0 \<and> row_index lo hi hi + 1 = box_size (lo, hi)"
  by (induction lo hi rule: list_all2_induct) simp_all

definition ref_index :: "Box \<Rightarrow> size_t list \<Rightarrow> bool \<Rightarrow> nat" where
  "ref_index box p row = (if row then row_index (fst box) (snd box) p else row_index (rev (fst box)) (rev (snd box)) (rev p))"

lemma ref_index_less:
  assumes "is_box box" and "in_box box p"
  shows "ref_index box p row < box_size box"
proof -
  have box: "box_size (rev (fst box), rev (snd box)) = box_size box" "box_size (fst box, snd box) = box_size box"
    using box_size_rev [of "fst box" "snd box"] is_box_length [OF assms(1)] by simp_all
  show ?thesis
    using row_index_less [of "fst box" p "snd box"] row_index_less [of "rev (fst box)" "rev p" "rev (snd box)"] assms(2) box
    by (simp add: in_box_def ref_index_def)
qed

lemma ref_index_nat:
  assumes "is_box box" and "box_size box < 2 ^ 64" and "in_box box p"
  shows "unat (of_nat (ref_index box p row) :: size_t) = ref_index box p row"
proof -
  have "ref_index box p row < 2 ^ 64" using ref_index_less [OF assms(1,3)] assms(2) by (rule less_trans)
  then show ?thesis by (simp only: unat_of_nat) simp
qed

text \<open>The characteristics as \<open>ref_serial\<close> lays them out; the payload offset is the last of them where there is no operation.\<close>

fun read_words :: "bool \<Rightarrow> nat \<Rightarrow> bytes \<Rightarrow> size_t list" where
  "read_words little 0 bs = []"
| "read_words little (Suc n) bs = of_nat (num_of little (take 8 bs)) # read_words little n (drop 8 bs)"

lemma read_words_written: "read_words True (length xs) (concat (map (\<lambda>x. num_bytes True 8 (unat x)) xs) @ rest) = xs"
  by (induction xs) simp_all

definition ref_body :: "bool \<Rightarrow> bytes \<Rightarrow> Characteristics" where
  "ref_body little body =
     (let n = unat (body ! 11); dims = read_words little (3 * n) (drop 14 body)
      in \<lparr>ch_Shape = take n (drop n dims), ch_Start = drop (2 * n) dims, ch_Count = take n dims,
          ch_EntryShapeID = (if n = 0 then GlobalValue else GlobalArray), ch_EntryLength = length body,
          ch_Step = of_nat (num_of little (chunk 1 4 body)), ch_FileIndex = of_nat (num_of little (chunk 6 4 body)),
          ch_PayloadOffset = of_nat (num_of little (drop (length body - 8) body)), ch_IsValue = False, ch_Value = [], ch_Values = [],
          ch_Min = [], ch_Max = [], ch_MinMaxs = [], ch_SubBlockInfo = \<lparr>sb_Div = [], sb_SubBlockSize = 0, sb_DivisionMethod = 0\<rparr>,
          ch_Op = \<lparr>op_IsActive = False, op_Type = [], op_PreShape = [], op_PreStart = [], op_PreCount = [], op_Metadata = []\<rparr>\<rparr>)"

definition ref_characteristics :: "byte \<Rightarrow> bytes \<Rightarrow> nat \<Rightarrow> byte \<Rightarrow> bool \<Rightarrow> failure + Characteristics \<times> nat" where
  "ref_characteristics T buf pos dataType little =
     bind_sum (mem_read buf (pos + 1) 4) (\<lambda>n.
     bind_sum (mem_read buf (pos + 5) (num_of little n)) (\<lambda>body. Inr (ref_body little body, pos + 5 + length body)))"

definition ref_variable :: "byte \<Rightarrow> string \<Rightarrow> size_t list \<Rightarrow> size_t list \<Rightarrow> size_t list \<Rightarrow> ReadVariable" where
  "ref_variable T name shape start cnt =
     \<lparr>v_Name = name, v_SingleValue = (shape = []), v_Shape = shape, v_Start = start, v_Count = cnt, type_enum = T, type_size = 4,
      rv_ShapeID = (if shape = [] then GlobalValue else GlobalArray), rv_Min = [], rv_Max = [], rv_Value = [], rv_Data = None,
      rv_StepsStart = 0, rv_StepsCount = 1, rv_AvailableStepsCount = 0, rv_AvailableStepBlockIndexOffsets = [],
      rv_AvailableShapes = [], rv_IndexStart = 0, rv_WriteBlock = False, rv_BlockID = 0\<rparr>"

definition ref_read :: bp_read where
  "ref_read =
     \<lparr>ReadElementIndexCharacteristics = ref_characteristics,
      LessThan = (\<lambda>_ a b. num_of True a < num_of True b), GreaterThan = (\<lambda>_ a b. num_of True a > num_of True b),
      StartEndBox = (\<lambda>start cnt reverse. let box = box_of start cnt in (reversed reverse (fst box), reversed reverse (snd box))),
      IntersectionBox = (\<lambda>x y. if overlap x y then common x y else ([], [])),
      LinearIndex = (\<lambda>box p row. of_nat (ref_index box p row)), DimsToString = (\<lambda>_. []),
      ClipVector = (\<lambda>b first second. chunk (unat first) (unat second - unat first) b),
      ClipContiguousMemory = (\<lambda>_ data _ _ memory _ _ _ _ _. Inr (map_option (\<lambda>_. memory) data)),
      InquireVariable = (\<lambda>T name io. case map_of (io_Variables io) name of Some v \<Rightarrow> if type_enum v = T then Some v else None | None \<Rightarrow> None),
      IO_DefineVariable = (\<lambda>T name shape start cnt io. case map_of (io_Variables io) name of
          None \<Rightarrow> Inr (ref_variable T name shape start cnt) | Some _ \<Rightarrow> Inl (Foreign_exn ''invalid_argument'')),
      IO_DefineAttribute = (\<lambda>T name single vs io. Inr (io\<lparr>io_Attributes := (name, T, single, vs) # io_Attributes io\<rparr>)),
      InquireVariableType = (\<lambda>name io. map_option type_enum (map_of (io_Variables io) name)),
      SetSelection = (\<lambda>v box. Inr (v\<lparr>v_Start := fst box, v_Count := snd box\<rparr>)),
      SetBlockInfo = (\<lambda>v data start cnt. \<lparr>bi_Shape = v_Shape v, bi_Start = v_Start v, bi_Count = v_Count v, bi_MemoryStart = [],
        bi_MemoryCount = [], bi_Data = data, bi_Operations = [], ri_StepsStart = start, ri_StepsCount = cnt, ri_BlockID = rv_BlockID v,
        ri_StepBlockSubStreamsInfo = [], ri_WriterID = 0, ri_IsReverseDims = False, ri_IsValue = False, ri_Value = [], ri_Min = [],
        ri_Max = [], ri_MinMaxs = [], ri_SubBlockInfo = \<lparr>sb_Div = [], sb_SubBlockSize = 0, sb_DivisionMethod = 0\<rparr>, ri_Step = 0\<rparr>),
      GetDataTypeName = (\<lambda>_. ''int32_t''), OperationMetadata = (\<lambda>_ _ info. Inr info), OperationData = (\<lambda>_ b _. Inr b),
      LocalValueDim = - 3, br_type_string = 9, br_type_string_array = 12\<rparr>"

lemma ref_serial_sel:
  "PutCharacteristicRecord_end ref_serial i x (buf, m) = (buf @ i # x, m + 1)"
  "PutDimensionsRecord_end ref_serial c s t buf = buf @ ref_dimension c s t"
  "characteristic_time_index ref_serial = 8" "characteristic_file_index ref_serial = 7" "characteristic_dimensions ref_serial = 4"
  "characteristic_offset ref_serial = 3" "characteristic_payload_offset ref_serial = 6"
  by (simp_all add: ref_serial_def)

lemma ref_block:
  assumes "bi_Operations b = []" and "PutVariableCharacteristics ref_bp ref_serial n v b stats [] None = Inr (block, span')"
  shows "\<exists>k bounds. (n = 0 \<longrightarrow> \<not> v_SingleValue v \<longrightarrow> bounds = []) \<and> block = characteristics_block ref_bp k (8 # host ref_bp 4 (unat (st_Step stats)) @ 7 # host ref_bp 4 (unat (st_FileIndex stats)) @
    4 # of_nat (length (bi_Count b)) # host ref_bp 2 (24 * unat (of_nat (length (bi_Count b)) :: byte)) @
    ref_dimension (bi_Count b) (bi_Shape b) (bi_Start b) @ bounds @
    3 # host ref_bp 8 (unat (st_Offset stats)) @ 6 # host ref_bp 8 (unat (st_PayloadOffset stats)))"
proof -
  let ?bounds = "\<lambda>bc. if bi_Data b \<noteq> None then PutBoundsRecord_end ref_bp ref_serial n (v_SingleValue v) stats bc else bc"
  have "\<exists>d k. \<forall>buf m. ?bounds (buf, m) = (buf @ d, m + k)"
    using ref_serial.appends_bounds [of "v_SingleValue v" n stats] unfolding ref_serial.appends_def
    by (cases "bi_Data b") (auto intro: exI [of _ "[]"] exI [of _ 0])
  then obtain d k where bounds: "\<And>buf m. ?bounds (buf, m) = (buf @ d, m + k)" by blast
  have none: "n = 0 \<longrightarrow> \<not> v_SingleValue v \<longrightarrow> d = []"
    using bounds [of "[]" 0] by (auto simp: PutBoundsRecord_end_def split: if_splits)
  define body where "body = 8 # host ref_bp 4 (unat (st_Step stats)) @ 7 # host ref_bp 4 (unat (st_FileIndex stats)) @
    4 # of_nat (length (bi_Count b)) # host ref_bp 2 (24 * unat (of_nat (length (bi_Count b)) :: byte)) @
    ref_dimension (bi_Count b) (bi_Shape b) (bi_Start b) @ d @
    3 # host ref_bp 8 (unat (st_Offset stats)) @ 6 # host ref_bp 8 (unat (st_PayloadOffset stats))"
  have "PutVariableCharacteristics ref_bp ref_serial n v b stats [] None =
      bind_sum (finish_characteristics ref_bp 0 (5 + k) (replicate 5 0 @ body)) (\<lambda>buffer. Inr (buffer, None))"
    using assms(1) bounds
    by (cases "bi_Data b") (simp_all add: PutVariableCharacteristics_def put_dimensions_def inserts_def body_def ref_serial_sel Let_def)
  then have "block = characteristics_block ref_bp (5 + k) body"
    using assms(2) ref_serial.finish_block [of "[]" "5 + k" body] by simp
  then show ?thesis using none unfolding body_def by blast
qed

lemma ref_body_written:
  fixes step fileIndex :: "32 word" and off payloadOffset :: size_t and n :: byte
  assumes body: "body = 8 # host ref_bp 4 (unat step) @ 7 # host ref_bp 4 (unat fileIndex) @ 4 # n # host ref_bp 2 (24 * unat n) @
      ref_dimension cnt shape start @ bounds @ 3 # host ref_bp 8 (unat off) @ 6 # host ref_bp 8 (unat payloadOffset)"
    and "unat n = length cnt" "length shape = length cnt" "length start = length cnt" "cnt \<noteq> []"
  shows "let c = ref_body True body in ch_Shape c = shape \<and> ch_Start c = start \<and> ch_Count c = cnt \<and> ch_EntryShapeID c = GlobalArray \<and>
    ch_EntryLength c = length body \<and> ch_Step c = step \<and> ch_FileIndex c = fileIndex \<and> ch_PayloadOffset c = payloadOffset"
proof -
  have host: "num_of True (host ref_bp w k) = k mod 256 ^ w" for w k using num_of_host [of ref_bp w k] by simp
  let ?pre = "8 # host ref_bp 4 (unat step) @ 7 # host ref_bp 4 (unat fileIndex) @ 4 # n # host ref_bp 2 (24 * unat n) @
    ref_dimension cnt shape start @ bounds @ 3 # host ref_bp 8 (unat off) @ [6]"
  have cut: "drop p (xs @ ys) = ys" "(xs @ ys) ! p = ys ! 0" "chunk p m (xs @ ys) = take m ys" if "length xs = p" for p m and xs ys :: bytes
    using that by (simp_all add: nth_append chunk_def)
  have pre: "body = ?pre @ host ref_bp 8 (unat payloadOffset)" by (simp add: body)
  have last: "drop (length body - 8) body = host ref_bp 8 (unat payloadOffset)"
    unfolding pre by (rule cut(1)) (simp only: length_append length_host add_diff_cancel_right')
  let ?xs = "8 # host ref_bp 4 (unat step)" and ?ys = "7 # host ref_bp 4 (unat fileIndex)" and ?zs = "4 # n # host ref_bp 2 (24 * unat n)"
  let ?rest = "ref_dimension cnt shape start @ bounds @ 3 # host ref_bp 8 (unat off) @ 6 # host ref_bp 8 (unat payloadOffset)"
  have "body = (?xs @ ?ys @ ?zs) @ ?rest" "body = (?xs @ ?ys @ [4]) @ n # host ref_bp 2 (24 * unat n) @ ?rest"
    "body = [8] @ host ref_bp 4 (unat step) @ ?ys @ ?zs @ ?rest" "body = (?xs @ [7]) @ host ref_bp 4 (unat fileIndex) @ ?zs @ ?rest"
    by (simp_all add: body)
  then have dims: "drop 14 body = ?rest" and at: "body ! 11 = n" "chunk (Suc 0) 4 body = host ref_bp 4 (unat step)"
      "chunk 6 4 body = host ref_bp 4 (unat fileIndex)"
    using cut(1) [of "?xs @ ?ys @ ?zs" 14 ?rest] cut(2) [of "?xs @ ?ys @ [4]" 11 "n # host ref_bp 2 (24 * unat n) @ ?rest"]
      cut(3) [of "[8]" "Suc 0" 4 "host ref_bp 4 (unat step) @ ?ys @ ?zs @ ?rest"]
      cut(3) [of "?xs @ [7]" 6 4 "host ref_bp 4 (unat fileIndex) @ ?zs @ ?rest"]
    by (simp_all only: length_append length_Cons length_host list.size nth_Cons_0 add_0_left add_0_right) simp_all
  have three: "3 * length cnt = length (cnt @ shape @ start)" using assms(3,4) by simp
  have words: "read_words True (3 * length cnt) (drop 14 body) = cnt @ shape @ start"
    unfolding dims ref_dimension_def three by (rule read_words_written)
  have mods: "unat x mod 256 ^ 4 = unat x" for x :: "32 word" using unsigned_less [of x, where 'a = nat] by simp
  show ?thesis
    using assms(3-5) by (simp add: ref_body_def Let_def last at words host mods assms(2))
qed

lemma ref_characteristics_block:
  assumes "holds_at buf pos (characteristics_block ref_bp k body)" and "length body < 2 ^ 32" and "body \<noteq> []"
  shows "ref_characteristics T buf pos T' True = Inr (ref_body True body, pos + 5 + length body)"
proof -
  have parts: "holds_at buf (pos + 1) (host ref_bp 4 (length body))" "holds_at buf (pos + 5) body"
    using assms(1) by (simp_all add: characteristics_block_def holds_at_Cons [of _ _ _ "host _ _ _ @ _"] add.commute)
  have n: "mem_read buf (pos + 1) 4 = Inr (host ref_bp 4 (length body))"
    using parts(1) holds_at_fits [OF parts(1)] length_host [of ref_bp 4 "length body"]
    by (auto simp: mem_read_def holds_at_def simp del: length_host)
  have bytes: "mem_read buf (pos + 5) (length body) = Inr body"
    using parts(2) holds_at_fits [OF parts(2) assms(3)] by (auto simp: mem_read_def holds_at_def)
  have "num_of True (host ref_bp 4 (length body)) = length body"
    using num_of_host [of ref_bp 4 "length body"] assms(2) by simp
  then show ?thesis by (simp add: ref_characteristics_def n [simplified] bytes)
qed

lemma ref_reads_block:
  assumes b: "array_block ref_read shape b"
    and run: "PutVariableCharacteristics ref_bp ref_serial n v b stats [] None = Inr (block, span')"
    and small: "length block < 2 ^ 32" and at: "holds_at buf pos block"
  shows "\<exists>c pos'. ref_characteristics T buf pos T' True = Inr (c, pos') \<and>
    describes (st_Step stats) (st_FileIndex stats) b (st_PayloadOffset stats) c \<and> ch_EntryLength c + 5 = length block"
proof -
  have "bi_Operations b = []" using b by (simp add: array_block_def)
  then obtain k bounds body where block: "block = characteristics_block ref_bp k body"
    and body: "body = 8 # host ref_bp 4 (unat (st_Step stats)) @ 7 # host ref_bp 4 (unat (st_FileIndex stats)) @
      4 # of_nat (length (bi_Count b)) # host ref_bp 2 (24 * unat (of_nat (length (bi_Count b)) :: byte)) @
      ref_dimension (bi_Count b) (bi_Shape b) (bi_Start b) @ bounds @
      3 # host ref_bp 8 (unat (st_Offset stats)) @ 6 # host ref_bp 8 (unat (st_PayloadOffset stats))"
    using ref_block [OF _ run] by blast
  have len: "unat (of_nat (length (bi_Count b)) :: byte) = length (bi_Count b)" "length (bi_Shape b) = length (bi_Count b)"
    "length (bi_Start b) = length (bi_Count b)" "bi_Count b \<noteq> []"
    using b by (auto simp: array_block_def unat_of_nat)
  have "length body < 2 ^ 32" and "body \<noteq> []" using small by (simp add: block characteristics_block_def) (simp add: body)
  then have "ref_characteristics T buf pos T' True = Inr (ref_body True body, pos + 5 + length body)"
    using ref_characteristics_block at unfolding block by blast
  moreover have "ch_EntryLength (ref_body True body) + 5 = length block"
    using ref_body_written [OF body len] by (simp add: block characteristics_block_def Let_def)
  moreover have "describes (st_Step stats) (st_FileIndex stats) b (st_PayloadOffset stats) (ref_body True body)"
    using ref_body_written [OF body len] unfolding Let_def describes_def by (simp add: ref_body_def Let_def)
  ultimately show ?thesis by blast
qed

interpretation ref_read: bp_read_library ref_bp ref_serial ref_data ref_payload ref_read "\<lambda>_. 4"
proof
  fix shape b v n stats block span' buf pos
  assume "array_block ref_read shape b"
    and "PutVariableCharacteristics ref_bp ref_serial n v b stats [] None = Inr (block, span')" "length block < 2 ^ 32" "holds_at buf pos block"
  then show "\<exists>c pos'. ReadElementIndexCharacteristics ref_read (type_enum v) buf pos (type_enum v) (IsLittleEndian ref_bp) = Inr (c, pos') \<and>
        describes (st_Step stats) (st_FileIndex stats) b (st_PayloadOffset stats) c \<and> ch_EntryLength c + 5 = length block"
    using ref_reads_block [of shape b n v stats block span' buf pos "type_enum v" "type_enum v"] by (simp add: ref_read_def)
next
  fix box :: Box and p q row
  assume box: "is_box box" "box_size box < 2 ^ 64"
  have same: "LinearIndex ref_read box p row = of_nat (ref_index box p row)" for p by (simp add: ref_read_def)
  have nat: "unat (LinearIndex ref_read box p row) = ref_index box p row" if "in_box box p" for p
    unfolding same by (rule ref_index_nat [OF box that])
  show "unat (LinearIndex ref_read box p row) < box_size box" if "in_box box p"
    using nat [OF that] ref_index_less [OF box(1) that] by simp
  show "LinearIndex ref_read box p row \<le> LinearIndex ref_read box q row" if "in_box box p" "in_box box q" "list_all2 (\<le>) p q"
    unfolding word_le_nat_alt nat [OF that(1)] nat [OF that(2)] ref_index_def
    using that by (simp add: row_index_mono in_box_def)
  have corners: "in_box box (fst box)" "in_box box (snd box)"
    using box(1) by (simp_all add: in_box_def is_box_def list_all2_refl)
  have rev: "box_size (rev (fst box), rev (snd box)) = box_size box"
    using box_size_rev [of "fst box" "snd box"] is_box_length [OF box(1)] by simp
  have "ref_index box (fst box) row = 0 \<and> ref_index box (snd box) row + 1 = box_size box"
    using row_index_corners [of "fst box" "snd box"] row_index_corners [of "rev (fst box)" "rev (snd box)"] box(1) rev
    by (simp add: ref_index_def is_box_def)
  then show "LinearIndex ref_read box (fst box) row = 0 \<and> unat (LinearIndex ref_read box (snd box) row) = box_size box - 1"
    using nat [OF corners(2)] unfolding same by auto
next
  fix cnt :: "size_t list"
  have "of_nat (prod_list (map unat cnt)) = prod_list cnt" by (induction cnt) simp_all
  then show "unat (GetTotalSize ref_bp cnt) = prod_list (map unat cnt)" if "prod_list (map unat cnt) < 2 ^ 64"
    using that unat_of_nat [of "prod_list (map unat cnt)", where 'a = 64] by (simp add: ref_bp_def)
qed (auto simp: ref_read_def ref_data_def ref_variable_def box_of_def reversed_def Let_def)

end
