(* ===== verification/Bp4_Agree.thy ===== *)
theory Bp4_Agree
  imports Bp4_Select
begin

text \<open>
  The two ways the reader finds the bytes of a selection, \<open>SetVariableBlockInfo\<close> and
  \<open>GetSubFileInfo\<close>, compared; and what \<open>InitVariableBlockInfo\<close> does with a selection of steps.
\<close>

section \<open>Maps\<close>

lemma map_of_put: "map_of (map_put k x m) = (map_of m)(k \<mapsto> x)"
  by (induction k x m rule: map_put.induct) (auto simp: fun_eq_iff)

lemma al_at_put [simp]: "al_at k d (map_put k' x m) = (if k = k' then x else al_at k d m)"
  by (simp add: al_at_def map_of_put)

lemma al_at_push [simp]: "al_at k [] (map_push k' x m) = (if k = k' then al_at k [] m @ [x] else al_at k [] m)"
  by (simp add: map_push_def)

section \<open>SetVariableBlockInfo and GetSubFileInfo\<close>

text \<open>What both say of a block: its box, the common box, and the places of the bytes.\<close>

definition sub_file_view :: "SubFileInfo \<Rightarrow> Box \<times> Box \<times> size_t \<times> size_t" where
  "sub_file_view info = (sf_BlockBox info, sf_IntersectionBox info, sf_Seeks info)"

definition sub_stream_view :: "SubStreamBoxInfo \<Rightarrow> Box \<times> Box \<times> size_t \<times> size_t" where
  "sub_stream_view info = (ss_BlockBox info, ss_IntersectionBox info, ss_Seeks info)"

definition same_places :: "SubFileInfoMap \<Rightarrow> ReadInfo \<Rightarrow> bool" where
  "same_places infoMap blockInfo \<longleftrightarrow>
     (\<forall>step. let streams = al_at step [] (ri_StepBlockSubStreamsInfo blockInfo)
       in (\<forall>info \<in> set streams. ss_OperationsInfo info = []) \<and>
          (\<forall>file_index. map sub_file_view (al_at step [] (al_at file_index [] infoMap)) =
             map sub_stream_view (filter (\<lambda>info. unat (ss_SubStreamID info) = file_index) streams)))"

definition only_streams :: "ReadInfo \<Rightarrow> ReadInfo \<Rightarrow> bool" where
  "only_streams b b' \<longleftrightarrow> (\<exists>streams. b' = b\<lparr>ri_StepBlockSubStreamsInfo := streams\<rparr>)"

text \<open>Both fail in the same way, or return the same places.\<close>

abbreviation agree :: "ReadInfo \<Rightarrow> failure + SubFileInfoMap \<Rightarrow> failure + ReadInfo \<Rightarrow> bool" where
  "agree b \<equiv> rel_sum (=) (\<lambda>infoMap b'. same_places infoMap b' \<and> only_streams b b')"

lemma only_streams_refl: "only_streams b b"
  unfolding only_streams_def by (rule exI [of _ "ri_StepBlockSubStreamsInfo b"]) simp

lemma only_streams_trans: "only_streams b b' \<Longrightarrow> only_streams b' b'' \<Longrightarrow> only_streams b b''"
  by (auto simp: only_streams_def)

lemma fold_sum_map: "fold_sum f (map g xs) m = fold_sum (\<lambda>m x. f m (g x)) xs m"
  by (induction xs arbitrary: m) (simp_all add: bind_sum_def split: sum.split)

lemma fold_agrees:
  assumes "\<And>m b x. x \<in> set xs \<Longrightarrow> same_places m b \<Longrightarrow> only_streams b0 b \<Longrightarrow> agree b (f m x) (g b x)"
    and "same_places m b" and "only_streams b0 b"
  shows "agree b (fold_sum f xs m) (fold_sum g xs b)"
  using assms
proof (induction xs arbitrary: m b)
  case Nil
  then show ?case by (simp add: only_streams_refl)
next
  case (Cons x xs)
  have "agree b (f m x) (g b x)" using Cons.prems by simp
  then show ?case
  proof cases
    case (2 m' b')
    then have "agree b' (fold_sum f xs m') (fold_sum g xs b')"
      using Cons.prems(1,3) only_streams_trans by (intro Cons.IH) auto
    then show ?thesis using 2 by (cases "fold_sum f xs m'"; cases "fold_sum g xs b'") (auto intro: only_streams_trans)
  qed simp
qed

text \<open>The blocks have no operations.\<close>

definition plain_blocks :: "bp_read \<Rightarrow> bp4_deserializer \<Rightarrow> byte \<Rightarrow> nat list \<Rightarrow> bool" where
  "plain_blocks R D T positions \<longleftrightarrow>
     (\<forall>position \<in> set positions. \<forall>c. block_characteristics R D T T position = Inr c \<longrightarrow> \<not> op_IsActive (ch_Op c))"

lemma block_agrees:
  assumes same: "same_places infoMap b" and plain: "plain_blocks R D (type_enum v) positions" and position: "position \<in> set positions"
  shows "agree b (sub_file_block R D v box step infoMap position) (global_block L R D v box step b position)"
proof (cases "block_characteristics R D (type_enum v) (type_enum v) position")
  case (Inr c)
  let ?meet = "IntersectionBox R box (StartEndBox R (ch_Start c) (ch_Count c) False)"
  have op: "\<not> op_IsActive (ch_Op c)" using plain position Inr by (simp add: plain_blocks_def)
  have index: "unat (ucast (ch_FileIndex c) :: size_t) = unat (ch_FileIndex c)"
    using unsigned_less [of "ch_FileIndex c", where 'a = nat] by (simp add: unsigned_ucast_eq take_bit_nat_eq_self)
  show ?thesis
  proof (cases "fst ?meet = [] \<or> snd ?meet = []")
    case True
    then show ?thesis using same by (auto simp: sub_file_block_def global_block_def Inr only_streams_refl Let_def)
  next
    case False
    then show ?thesis
      using same by (auto simp: sub_file_block_def global_block_def Inr op sub_stream_def push_sub_stream_def same_places_def index
          sub_file_view_def sub_stream_view_def only_streams_def algebra_simps Let_def)
  qed
qed (simp add: sub_file_block_def global_block_def)

text \<open>The selection lies in the shape of every step.\<close>

definition in_shapes :: "ReadVariable \<Rightarrow> ReadInfo \<Rightarrow> bool" where
  "in_shapes v b \<longleftrightarrow>
     (\<forall>step \<in> set (map fst (rv_AvailableStepBlockIndexOffsets v)). length (al_at step [] (rv_AvailableShapes v)) = length (bi_Shape b) \<and>
       check_bounds (bi_Start b) (bi_Count b) (al_at step [] (rv_AvailableShapes v)) = Inr ())"

lemma step_agrees:
  assumes same: "same_places infoMap b" and shape: "rv_ShapeID v = GlobalArray" "in_shapes v b"
    and step: "(step, positions) \<in> set (rv_AvailableStepBlockIndexOffsets v)" "distinct (map fst (rv_AvailableStepBlockIndexOffsets v))"
    and plain: "\<forall>(step, positions) \<in> set (rv_AvailableStepBlockIndexOffsets v). plain_blocks R D (type_enum v) positions"
  shows "agree b (sub_file_step R D v box infoMap step) (step_info L R D v box b (step, positions))"
proof -
  have "map_of (rv_AvailableStepBlockIndexOffsets v) step = Some positions" using step by simp
  moreover have "length (al_at step [] (rv_AvailableShapes v)) = length (bi_Shape b)"
    "check_bounds (bi_Start b) (bi_Count b) (al_at step [] (rv_AvailableShapes v)) = Inr ()"
    using shape(2) step(1) by (auto simp: in_shapes_def)
  moreover have "plain_blocks R D (type_enum v) positions" using plain step(1) by blast
  ultimately show ?thesis
    using shape(1) by (simp add: sub_file_step_def step_info_def Let_def) (rule fold_agrees [OF block_agrees same only_streams_refl])
qed

lemma SetVariableBlockInfo_agrees:
  assumes v: "rv_ShapeID v = GlobalArray" "map fst (rv_AvailableStepBlockIndexOffsets v) = [1..<Suc n]"
    and b: "bi_Start b = v_Start v" "bi_Count b = v_Count v" "ri_StepsStart b = rv_StepsStart v" "ri_StepsCount b = rv_StepsCount v"
      "ri_StepBlockSubStreamsInfo b = []" "rv_StepsStart v + rv_StepsCount v \<le> n" "in_shapes v b"
    and plain: "\<forall>(step, positions) \<in> set (rv_AvailableStepBlockIndexOffsets v). plain_blocks R D (type_enum v) positions"
  shows "agree b (GetSubFileInfo R D v) (SetVariableBlockInfo L R D v b)"
proof -
  let ?offsets = "rv_AvailableStepBlockIndexOffsets v" and ?box = "StartEndBox R (v_Start v) (v_Count v) (d_ReverseDimensions D)"
  let ?steps = "take (rv_StepsCount v) (drop (rv_StepsStart v) ?offsets)"
  have len: "length ?offsets = n" using arg_cong [OF v(2), of length] by simp
  have steps: "[rv_StepsStart v + 1..<rv_StepsStart v + 1 + rv_StepsCount v] = map fst ?steps"
    using b(6) by (simp add: take_map [symmetric] drop_map [symmetric] v(2) take_upt drop_upt del: upt_Suc)
  have empty: "same_places [] b" by (simp add: same_places_def b(5) al_at_def)
  have "agree b' (sub_file_step R D v ?box infoMap (fst sp)) (step_info L R D v ?box b' sp)"
    if sp: "sp \<in> set ?steps" "same_places infoMap b'" "only_streams b b'" for infoMap b' sp
  proof -
    have "in_shapes v b'" using sp(3) b(7) by (auto simp: only_streams_def in_shapes_def)
    moreover have "(fst sp, snd sp) \<in> set ?offsets" using sp(1) by (auto dest: in_set_takeD in_set_dropD)
    moreover have "distinct (map fst ?offsets)" unfolding v(2) by simp
    ultimately have "agree b' (sub_file_step R D v ?box infoMap (fst sp)) (step_info L R D v ?box b' (fst sp, snd sp))"
      using sp(2) v(1) plain by (intro step_agrees)
    then show ?thesis by simp
  qed
  from fold_agrees [OF this empty only_streams_refl] have "agree b (GetSubFileInfo R D v) (fold_sum (step_info L R D v ?box) ?steps b)"
    unfolding GetSubFileInfo_def Let_def steps fold_sum_map .
  moreover have "SetVariableBlockInfo L R D v b = fold_sum (step_info L R D v ?box) ?steps b"
    using b(6) len by (cases "fold_sum (step_info L R D v ?box) ?steps b") (simp_all add: SetVariableBlockInfo_def b(1-4) Let_def)
  ultimately show ?thesis by simp
qed

section \<open>Selections of steps\<close>

text \<open>Steps that are numbered from 1 on without a gap.\<close>

definition dense_steps :: "ReadVariable \<Rightarrow> bool" where
  "dense_steps v \<longleftrightarrow> (\<exists>n. map fst (rv_AvailableStepBlockIndexOffsets v) = [1..<Suc n])"

lemma dense_last:
  assumes "dense_steps v" and "rv_AvailableStepBlockIndexOffsets v \<noteq> []"
  shows "fst (last (rv_AvailableStepBlockIndexOffsets v)) = length (rv_AvailableStepBlockIndexOffsets v)"
proof -
  obtain n where n: "map fst (rv_AvailableStepBlockIndexOffsets v) = [1..<Suc n]" using assms(1) by (auto simp: dense_steps_def)
  then have "length (rv_AvailableStepBlockIndexOffsets v) = n" by (metis length_map length_upt diff_Suc_1)
  moreover have "fst (last (rv_AvailableStepBlockIndexOffsets v)) = last [1..<Suc n]" using n assms(2) by (metis last_map)
  moreover have "last [1..<Suc n] = n" using n assms(2) by (cases n) auto
  ultimately show ?thesis by simp
qed

lemma InitVariableBlockInfo_steps:
  assumes "\<not> rv_WriteBlock v" and "rv_AvailableStepBlockIndexOffsets v \<noteq> []"
  shows "InitVariableBlockInfo R D v data =
    (let offsets = rv_AvailableStepBlockIndexOffsets v; first = rv_StepsStart v
     in if first < fst (last offsets) then
          (if length offsets \<le> first then Inl (Crash Out_of_bounds)
           else if first + rv_StepsCount v \<le> length offsets then Inr (v, SetBlockInfo R v data first (rv_StepsCount v))
           else Inl (Foreign_exn ''invalid_argument''))
        else Inl (Foreign_exn ''invalid_argument''))"
  using assms by (simp add: InitVariableBlockInfo_def Let_def)

lemma sorted_le_last: "sorted xs \<Longrightarrow> x \<in> set xs \<Longrightarrow> x \<le> last xs"
  by (induction xs) auto

text \<open>Where a step is missing the last one has a number that is greater than their number.\<close>

lemma sparse_last:
  assumes "sorted_wrt (<) (map fst (rv_AvailableStepBlockIndexOffsets v))" and "0 \<notin> set (map fst (rv_AvailableStepBlockIndexOffsets v))"
    and "\<not> dense_steps v" and some: "rv_AvailableStepBlockIndexOffsets v \<noteq> []"
  shows "length (rv_AvailableStepBlockIndexOffsets v) < fst (last (rv_AvailableStepBlockIndexOffsets v))"
proof (rule ccontr)
  let ?xs = "map fst (rv_AvailableStepBlockIndexOffsets v)"
  have last: "last ?xs = fst (last (rv_AvailableStepBlockIndexOffsets v))" using some by (simp add: last_map)
  have sorted: "sorted ?xs" "distinct ?xs" using assms(1) by (simp_all add: strict_sorted_iff)
  assume "\<not> ?thesis"
  then have "last ?xs \<le> length ?xs" using last by simp
  then have "set ?xs \<subseteq> {1..length ?xs}" using sorted_le_last [OF sorted(1)] assms(2)
    by (intro subsetI) (metis One_nat_def Suc_leI atLeastAtMost_iff gr0I order.trans)
  moreover have "card (set ?xs) = card {1..length ?xs}" using distinct_card [OF sorted(2)] by simp
  ultimately have "set ?xs = {1..length ?xs}" by (intro card_subset_eq) simp_all
  then have "set ?xs = set [1..<Suc (length ?xs)]" by (simp only: set_upt atLeastLessThanSuc_atLeastAtMost)
  then have "?xs = [1..<Suc (length ?xs)]" 
    by (rule sorted_distinct_set_unique [OF sorted sorted_upt distinct_upt])
  then show False using assms(3) unfolding dense_steps_def by blast
qed

end
