(* ===== verification/Bp4_Properties.thy ===== *)
theory Bp4_Properties
  imports Bp4_Readback Bp4_Get Bp4_Agree
begin

text \<open>
  The properties of the BP4 writer and reader (src/src/serialize/bp4): the index file and the
  index of a variable, the data of a step, the collective metadata and its reading back, the
  records of variables and attributes, and the selections. Each is stated for any library that keeps
  the laws of its locale, and run on the reference instance.
\<close>

section \<open>The index file and the index of a variable\<close>


definition sample_reader :: bp4_reader where
  "sample_reader = \<lparr>mf_VersionTag = [], mf_IsLittleEndian = False, mf_HasSubFiles = False, mf_Version = 0,
     m_WriterIsActive = False, m_MetadataIndexTable = []\<rparr>"


text \<open>
  C26. \<open>ReadActiveFlag\<close> of an index file returns its flag; a buffer of less than 38 bytes is
  refused. A buffer of exactly 38 bytes is not: the flag is the byte 38, behind its end, and
  the read there decides what happens.
\<close>

theorem active_flag_bound:
  assumes lib: "bp_library L"
  shows "(holds_at buf 0 (header_image L fileType isActive) \<longrightarrow>
      ReadActiveFlag L R buf = Inr (R\<lparr>m_WriterIsActive := isActive\<rparr>, isActive)) \<and>
    (length buf < 38 \<longrightarrow> ReadActiveFlag L R buf =
      Inl (Foreign_exn ''BP4Deserializer::ReadActiveFlag() is called with a buffer smaller than required'')) \<and>
    (length buf = 38 \<longrightarrow> ReadValue L 1 buf 38 (mf_IsLittleEndian R) = Inl e \<longrightarrow> ReadActiveFlag L R buf = Inl e)"
  using bp_library.ReadActiveFlag_image [OF lib, of buf fileType isActive R]
  by (simp add: ReadActiveFlag_def header_positions)

theorem active_flag_bound_witness:
  "ReadActiveFlag ref_bp sample_reader (replicate 38 0) = Inl (Crash Out_of_bounds)"
proof -
  have "ReadValue ref_bp 1 (replicate 38 0) 38 (mf_IsLittleEndian sample_reader) = Inl (Crash Out_of_bounds)"
    by (simp add: ref_value_def mem_read_def)
  moreover have "length (replicate 38 (0 :: byte)) = 38" by simp
  ultimately show ?thesis
    using active_flag_bound [OF ref_bp.bp_library_axioms, of "replicate 38 0"] by blast
qed

text \<open>
  C27. The metadata of a variable: whatever blocks of one step are put, \<open>PutVariableMetadataInIndex\<close>
  appends one entry to the index. The header that \<open>ReadElementIndexHeader\<close> reads there has the
  name of the variable, the length of the entry and the number of the blocks, although both are
  patched in place with each further block.
\<close>

theorem index_entry_invariant:
  assumes lib: "bp_serial_library L Z" and "ps \<noteq> []"
    and "\<forall>(b, stats, span) \<in> set ps. st_Step stats = step \<and> st_MemberID stats = member"
    and "ix_CurrentStep index \<noteq> step" and "length (v_Name variable) < 2 ^ 16" "length ps < 2 ^ 64"
  shows "\<exists>index' entry. put_blocks L Z StatsLevel variable ps index = Inr index' \<and> ix_Buffer index' = ix_Buffer index @ entry \<and>
    ix_Count index' = of_nat (length ps) \<and>
    (length entry < 2 ^ 32 \<longrightarrow>
      (\<exists>h p. ReadElementIndexHeader L (ix_Buffer index') (length (ix_Buffer index)) (IsLittleEndian L) = Inr (h, p) \<and>
        eh_Name h = v_Name variable \<and> eh_Length h + 4 = length entry \<and> eh_CharacteristicsSetsCount h = length ps \<and>
        eh_DataType h = type_enum variable))"
proof -
  have bp: "bp_library L" using lib by (simp add: bp_serial_library_def)
  obtain blocks index' where put: "put_blocks L Z StatsLevel variable ps index = Inr index'" and len: "length blocks = length ps"
    and ok: "index_ok L variable member (ix_Buffer index) blocks index'"
    using bp_serial_library.put_blocks_entry [OF lib assms(2-4)] by blast
  have "holds_at (ix_Buffer index') (length (ix_Buffer index)) (index_entry L variable member blocks)"
    using ok holds_at_prefix [of _ _ "[]"] by (simp add: index_ok_def)
  from bp_serial_library.read_entry [OF lib this _ assms(5)] assms(6) len
  have rd: "length (index_entry L variable member blocks) < 2 ^ 32 \<longrightarrow>
      (\<exists>h p. ReadElementIndexHeader L (ix_Buffer index') (length (ix_Buffer index)) (IsLittleEndian L) = Inr (h, p) \<and>
        eh_Name h = v_Name variable \<and> eh_Length h + 4 = length (index_entry L variable member blocks) \<and>
        eh_CharacteristicsSetsCount h = length ps \<and> eh_DataType h = type_enum variable)" by metis
  have "ix_Buffer index' = ix_Buffer index @ index_entry L variable member blocks" "ix_Count index' = of_nat (length ps)"
    using ok len by (simp_all add: index_ok_def)
  with put rd show ?thesis by blast
qed

definition sample_variable :: Variable where
  "sample_variable = \<lparr>v_Name = ''v'', v_SingleValue = False, v_Shape = [4], v_Start = [0], v_Count = [4], type_enum = 2, type_size = 4\<rparr>"

definition sample_block :: "BPInfo \<times> Stats \<times> Span option" where
  "sample_block =
     (\<lparr>bi_Shape = [4], bi_Start = [0], bi_Count = [4], bi_MemoryStart = [], bi_MemoryCount = [], bi_Data = Some [], bi_Operations = []\<rparr>,
      \<lparr>st_Step = 1, st_FileIndex = 0, st_MemberID = 0, st_Offset = 0, st_PayloadOffset = 0, st_Value = [], st_Min = [1, 0, 0, 0],
        st_Max = [2, 0, 0, 0], st_MinMaxs = [], st_SubBlockInfo = \<lparr>sb_Div = [], sb_SubBlockSize = 0, sb_DivisionMethod = 0\<rparr>\<rparr>, None)"

definition empty_index :: SerialElementIndex where
  "empty_index = \<lparr>ix_Buffer = [], ix_MemberID = 0, ix_Count = 0, ix_CurrentStep = 0, ix_CurrentHeaderPosition = 0,
     ix_LastUpdatedPosition = 0, ix_Valid = False\<rparr>"

theorem index_entry_invariant_witness:
  "\<exists>index'. put_blocks ref_bp ref_serial 1 sample_variable [sample_block, sample_block] empty_index = Inr index' \<and> ix_Count index' = 2"
proof -
  have "\<forall>(b, stats, span) \<in> set [sample_block, sample_block]. st_Step stats = 1 \<and> st_MemberID stats = 0"
    and "ix_CurrentStep empty_index \<noteq> 1" and "length (v_Name sample_variable) < 2 ^ 16"
    by (simp_all add: sample_block_def sample_variable_def empty_index_def)
  from index_entry_invariant [OF ref_serial.bp_serial_library_axioms _ this, where StatsLevel = 1] show ?thesis by fastforce
qed

section \<open>The data of a step\<close>

text \<open>
  A process group: \<open>PutProcessGroupIndex\<close> opens it at the position of the data and appends
  its record to the metadata; \<open>CloseData\<close>, after any variables were put into it, leaves it
  framed: the tag \<open>[PGI\<close> and the length up to the end stand at its begin, the count of the
  variables and their length behind its header, the tag \<open>PGI]\<close> at its end.
\<close>

theorem group_framed:
  assumes lib: "bp_library L" and "\<not> w_IsClosed W"
    and "m_Position (w_Data W) + group_header_size L W ioName transports + 12 \<le> length (m_Buffer (w_Data W))"
  shows "\<exists>W1. PutProcessGroupIndex L W ioName lang transports = Inr W1 \<and> group_open W1 \<and>
    ms_PGIndex_Buffer (w_MetadataSet W1) = ms_PGIndex_Buffer (w_MetadataSet W) @
      pg_record L ioName (if IsRowMajor L lang then CHR ''n'' else CHR ''y'') (w_RankMPI W) (ms_TimeStep (w_MetadataSet W))
        (m_AbsolutePosition (w_Data W) + w_PreDataFileLength W) \<and>
    (\<forall>W2. group_filled W1 W2 \<longrightarrow>
      (\<exists>W3. CloseData L (\<lambda>_. 0) PA W2 = Inr (W3, m_Position (w_Data W3)) \<and> w_IsClosed W3 \<and>
        (let buf = m_Buffer (w_Data W3); start = m_Position (w_Data W); header = m_Position (w_Data W1); e = m_Position (w_Data W3)
         in e = m_Position (w_Data W2) + 16 \<and> e \<le> length buf \<and>
            holds_at buf start (str_bytes ''[PGI'' @ host L 8 (e - (start + 4))) \<and>
            holds_at buf (header - 12) (host L 4 (unat (ms_DataPGVarsCount (w_MetadataSet W2))) @
              host L 8 (m_Position (w_Data W2) - header)) \<and>
            holds_at buf (e - 4) (str_bytes ''PGI]''))))"
proof -
  obtain W1 where run: "PutProcessGroupIndex L W ioName lang transports = Inr W1" "group_open W1"
    and at: "holds_at (m_Buffer (w_Data W1)) (m_Position (w_Data W)) (str_bytes ''[PGI'')"
    and pos: "ms_DataPGLengthPosition (w_MetadataSet W1) = m_Position (w_Data W) + 4"
      "m_Position (w_Data W1) = ms_DataPGVarsCountPosition (w_MetadataSet W1) + 12"
    and rest: "ms_PGIndex_Buffer (w_MetadataSet W1) = ms_PGIndex_Buffer (w_MetadataSet W) @
        pg_record L ioName (if IsRowMajor L lang then CHR ''n'' else CHR ''y'') (w_RankMPI W) (ms_TimeStep (w_MetadataSet W))
          (m_AbsolutePosition (w_Data W) + w_PreDataFileLength W)" "\<not> w_IsClosed W1"
    using bp_library.PutProcessGroupIndex_opens [OF lib assms(3), of lang] assms(2) unfolding Let_def by metis
  have vp: "ms_DataPGVarsCountPosition (w_MetadataSet W1) = m_Position (w_Data W1) - 12"
    "m_Position (w_Data W1) - 12 + 12 = m_Position (w_Data W1)" using pos(2) by simp_all
  have frame: "\<exists>W3. CloseData L (\<lambda>_. 0) PA W2 = Inr (W3, m_Position (w_Data W3)) \<and> w_IsClosed W3 \<and>
        (let buf = m_Buffer (w_Data W3); start = m_Position (w_Data W); header = m_Position (w_Data W1); e = m_Position (w_Data W3)
         in e = m_Position (w_Data W2) + 16 \<and> e \<le> length buf \<and>
            holds_at buf start (str_bytes ''[PGI'' @ host L 8 (e - (start + 4))) \<and>
            holds_at buf (header - 12) (host L 4 (unat (ms_DataPGVarsCount (w_MetadataSet W2))) @
              host L 8 (m_Position (w_Data W2) - header)) \<and>
            holds_at buf (e - 4) (str_bytes ''PGI]''))" if "group_filled W1 W2" for W2
    using bp_library.CloseData_group [OF lib run(2) rest(2) at pos(1) that, of PA] unfolding Let_def vp
    by (rule ex_forward) (elim conjE, intro conjI; assumption)
  show ?thesis using run rest(1) frame by blast
qed

definition sample_writer :: bp4_writer where
  "sample_writer =
     \<lparr>w_Data = \<lparr>m_Buffer = replicate 200 0, m_Position = 0, m_AbsolutePosition = 0\<rparr>,
      w_MetadataSet = \<lparr>ms_PGIndex_Buffer = [], ms_PGIndex_LastUpdatedPosition = 0, ms_VarsIndices = [(''v'', empty_index\<lparr>ix_Buffer := [1, 2, 3]\<rparr>)],
        ms_AttributesIndices = [], ms_DataPGLengthPosition = 0, ms_DataPGVarsCount = 0, ms_DataPGVarsCountPosition = 0,
        ms_DataPGCount = 0, ms_DataPGIsOpen = False, ms_TimeStep = 1\<rparr>,
      w_RankMPI = 0, w_PreDataFileLength = 0, w_IsClosed = False, w_SerializedIndices = [], w_MetadataIndexTable = [],
      w_LastVarLengthPosInBuffer = 0\<rparr>"

theorem group_framed_witness:
  "\<exists>W1 W3. PutProcessGroupIndex ref_bp sample_writer ''io'' ''C++'' [] = Inr W1 \<and>
     CloseData ref_bp (\<lambda>_. 0) Inr W1 = Inr (W3, m_Position (w_Data W3)) \<and>
     holds_at (m_Buffer (w_Data W3)) 0 (str_bytes ''[PGI'' @ host ref_bp 8 (m_Position (w_Data W3) - 4))"
proof -
  have "m_Position (w_Data sample_writer) + group_header_size ref_bp sample_writer ''io'' [] + 12 \<le> length (m_Buffer (w_Data sample_writer))"
    and "\<not> w_IsClosed sample_writer" and "m_Position (w_Data sample_writer) = 0"
    by (simp_all add: group_header_size_def sample_writer_def ref_bp_def dec_nat.simps [of "Suc 0"])
  note framed = group_framed [OF ref_bp.bp_library_axioms this(2,1), where PA = Inr and lang = "''C++''", unfolded this(3)]
  obtain W1 where run: "PutProcessGroupIndex ref_bp sample_writer ''io'' ''C++'' [] = Inr W1" and opened: "group_open W1"
    and at: "\<And>W2. group_filled W1 W2 \<Longrightarrow> \<exists>W3. CloseData ref_bp (\<lambda>_. 0) Inr W2 = Inr (W3, m_Position (w_Data W3)) \<and>
      holds_at (m_Buffer (w_Data W3)) 0 (str_bytes ''[PGI'' @ host ref_bp 8 (m_Position (w_Data W3) - (0 + 4)))"
    using framed unfolding Let_def by metis
  have "group_filled W1 W1" using opened by (simp add: group_filled_def group_open_def Let_def)
  from at [OF this] run show ?thesis by simp
qed

text \<open>
  C28. The metadata behind the data: \<open>SerializeMetadataInData\<close> appends the count and the length
  of the process group index and of both indices of elements with their bytes, and the footer;
  it changes no byte of the data, ends at the end of the buffer, and advances the absolute
  position when it is told to.
\<close>

theorem metadata_in_data:
  assumes lib: "bp_library L" and "length (metadata_image L (w_MetadataSet W)) + MiniFooterSize L < 2 ^ 64"
    and "m_Position (w_Data W) \<le> length (m_Buffer (w_Data W))"
  shows "\<exists>W'. SerializeMetadataInData L update True W = Inr W' \<and>
    (let buf = m_Buffer (w_Data W'); n = length (metadata_image L (w_MetadataSet W)) + MiniFooterSize L
     in holds_at buf (m_Position (w_Data W)) (metadata_image L (w_MetadataSet W)) \<and>
        take (m_Position (w_Data W)) buf = take (m_Position (w_Data W)) (m_Buffer (w_Data W)) \<and>
        length buf = m_Position (w_Data W) + n \<and> m_Position (w_Data W') = length buf \<and>
        m_AbsolutePosition (w_Data W') = m_AbsolutePosition (w_Data W) + (if update then of_nat n else 0))"
  by (rule bp_library.SerializeMetadataInData_image [OF assms])

theorem metadata_in_data_witness:
  "\<exists>W'. SerializeMetadataInData ref_bp True True sample_writer = Inr W' \<and> length (m_Buffer (w_Data W')) = 67 \<and>
     m_AbsolutePosition (w_Data W') = 67"
proof -
  have n: "length (metadata_image ref_bp (w_MetadataSet sample_writer)) = 43" "MiniFooterSize ref_bp = 24"
    "m_Position (w_Data sample_writer) = 0" "m_AbsolutePosition (w_Data sample_writer) = 0"
    by (simp_all add: metadata_image_def sample_writer_def empty_index_def ref_bp_def)
  show ?thesis
    using metadata_in_data [OF ref_bp.bp_library_axioms, of sample_writer True] by (fastforce simp: n Let_def)
qed

lemma located_all: "located bs x bs \<Longrightarrow> x = (0, length bs)"
proof (cases x)
  case (Pair s l)
  assume loc: "located bs x bs"
  have "length bs = l" by (rule located_length) (use loc Pair in simp)
  moreover have "s + l \<le> length bs" using loc Pair by (simp only: located_def prod.case)
  ultimately show ?thesis using Pair by simp
qed

lemma located_whole: "list_all2 (located bs) xs (if c then [bs] else []) \<Longrightarrow> xs = (if c then [(0, length bs)] else [])"
  by (cases c; cases xs) (simp_all add: located_all)

section \<open>The collective metadata\<close>

text \<open>
  C31. The entry that \<open>PutVariableMetadataInIndex\<close> makes of the blocks of a step in an empty
  index is exactly what the search of the aggregation finds there: under the step and the name
  of the variable, at position 0, with the length of the whole index; nothing else is found.
\<close>

theorem written_entry_found:
  assumes lib: "bp_merge_library L Z X" and "ps \<noteq> []"
    and "\<forall>(b, stats, span) \<in> set ps. st_Step stats = step \<and> st_MemberID stats = member"
    and "ix_CurrentStep index \<noteq> step" and "ix_Buffer index = []" and "length (v_Name variable) < 2 ^ 16" "length ps < 2 ^ 64"
    and "is_std_type X (type_enum variable) \<or> type_enum variable = type_string_array X"
  shows "\<exists>index'. put_blocks L Z StatsLevel variable ps index = Inr index' \<and>
    (length (ix_Buffer index') < 2 ^ 32 \<longrightarrow>
      (\<exists>info. LocateVarIndices L X [] (ix_Buffer index') 0 (length (ix_Buffer index')) = Inr info \<and>
        (\<forall>t name. entries_at t name info =
          (if t = unat step \<and> name = v_Name variable then [(0, length (ix_Buffer index'))] else []))))"
proof -
  have serial: "bp_serial_library L Z" using lib by (simp add: bp_merge_library_def)
  obtain blocks index' n rest where put: "put_blocks L Z StatsLevel variable ps index = Inr index'" and len: "length blocks = length ps"
    and ok: "index_ok L variable member (ix_Buffer index) blocks index'" and hd: "hd blocks = characteristics_block L n (step_body L Z step rest)"
    using bp_serial_library.put_blocks_entry [OF serial assms(2-4)] by blast
  have buf: "ix_Buffer index' = index_entry L variable member blocks" using ok assms(5) by (simp add: index_ok_def)
  have "\<exists>info. LocateVarIndices L X [] (ix_Buffer index') 0 (length (ix_Buffer index')) = Inr info \<and>
      (\<forall>t name. entries_at t name info = (if t = unat step \<and> name = v_Name variable then [(0, length (ix_Buffer index'))] else []))"
    if small: "length (ix_Buffer index') < 2 ^ 32"
  proof -
    define e where "e = index_element L variable member step blocks"
    have "blocks \<noteq> []" using len assms(2) by auto
    then have "var_entry L Z X e"
      unfolding e_def using small len assms(6,7,8) hd by (intro index_element_var_entry) (simp_all add: buf)
    then have "\<forall>e' \<in> set [e]. element_entry L Z X e'" by (simp add: var_entry_def)
    moreover have bytes: "el_Bytes e = ix_Buffer index'" by (simp add: e_def index_element_def buf)
    moreover have "holds_at (ix_Buffer index') 0 (concat (map el_Bytes [e]))" "length (ix_Buffer index') = 0 + length (concat (map el_Bytes [e]))"
      by (simp_all add: bytes holds_at_def)
    ultimately have "\<exists>info. LocateVarIndices L X [] (ix_Buffer index') 0 (length (ix_Buffer index')) = Inr info \<and>
        stands_for (ix_Buffer index') info ([] @ [e])"
      by (intro bp_merge_library.LocateVarIndices_finds [OF lib]) simp_all
    then obtain info where info: "LocateVarIndices L X [] (ix_Buffer index') 0 (length (ix_Buffer index')) = Inr info"
      and st: "stands_for (ix_Buffer index') info [e]" by auto
    have key: "el_key e = (unat step, v_Name variable)" by (simp add: el_key_def e_def index_element_def entry_header_def)
    have els: "elements_of t name [e] = (if t = unat step \<and> name = v_Name variable then [ix_Buffer index'] else [])" for t name
      by (auto simp: elements_of_def key bytes)
    have "entries_at t name info = (if t = unat step \<and> name = v_Name variable then [(0, length (ix_Buffer index'))] else [])" for t name
      using st unfolding stands_for_def by (intro located_whole) (simp only: els [symmetric])
    with info show ?thesis by blast
  qed
  with put show ?thesis by blast
qed

theorem written_entry_found_witness:
  "\<exists>index'. put_blocks ref_bp ref_serial 1 sample_variable [sample_block] empty_index = Inr index' \<and>
     (length (ix_Buffer index') < 2 ^ 32 \<longrightarrow>
       (\<exists>info. LocateVarIndices ref_bp ref_merge [] (ix_Buffer index') 0 (length (ix_Buffer index')) = Inr info \<and>
         entries_at 1 ''v'' info = [(0, length (ix_Buffer index'))]))"
proof -
  have "\<forall>(b, stats, span) \<in> set [sample_block]. st_Step stats = 1 \<and> st_MemberID stats = 0"
    and "ix_CurrentStep empty_index \<noteq> 1" and "ix_Buffer empty_index = []" and "length (v_Name sample_variable) < 2 ^ 16"
    and "length [sample_block] < 2 ^ 64"
    and "is_std_type ref_merge (type_enum sample_variable) \<or> type_enum sample_variable = type_string_array ref_merge"
    by (simp_all add: sample_block_def sample_variable_def empty_index_def ref_merge_def)
  note found = written_entry_found [OF ref_merge.bp_merge_library_axioms _ this, where StatsLevel = 1]
  have "v_Name sample_variable = ''v''" "unat (1 :: 32 word) = 1" by (simp_all add: sample_variable_def)
  then show ?thesis using found by fastforce
qed

text \<open>A rank with one process group and one variable in step 1.\<close>

definition sample_element :: element where
  "sample_element = index_element ref_bp sample_variable 0 1 [characteristics_block ref_bp 5 (step_body ref_bp ref_serial 1 [])]"


lemma sample_element_ok: "var_entry ref_bp ref_serial ref_merge sample_element"
  unfolding sample_element_def
  by (rule index_element_var_entry [where n = 5 and rest = "[]"])
    (simp_all add: sample_variable_def characteristics_block_def step_body_def ref_merge_def)





text \<open>
  C33. The search for attributes ends at the first one that is known already: what stands
  behind it in the indices of the rank is not found, known or not. Every attribute of a step is
  found at most once.
\<close>

theorem attribute_search_stops:
  assumes lib: "bp_merge_library L Z X" and "\<forall>e \<in> set (new @ k # rest). element_entry L Z X e"
    and "stands_for serialized info known" "distinct (map el_key known)"
    and "new_attributes known new = new" "el_key k \<in> el_key ` set (known @ new)"
    and "holds_at serialized pos (concat (map el_Bytes (new @ k # rest)))"
  shows "\<exists>info'. LocateAttrIndices L X info serialized pos (pos + length (concat (map el_Bytes (new @ k # rest)))) = Inr info' \<and>
    (\<forall>t name. list_all2 (located serialized) (entries_at t name info') (elements_of t name (known @ new)) \<and>
      length (entries_at t name info') \<le> 1)"
proof -
  have "new_attributes known (new @ k # rest) = new"
    using assms(5,6) by (induction known new rule: new_attributes.induct) (auto split: if_splits)
  moreover have "distinct (map el_key (known @ new))" using new_attributes_distinct [OF assms(4), of new] assms(5) by simp
  ultimately obtain info' where run: "LocateAttrIndices L X info serialized pos (pos + length (concat (map el_Bytes (new @ k # rest)))) = Inr info'"
    and st: "stands_for serialized info' (known @ new)" and dist: "distinct (map el_key (known @ new))"
    using bp_merge_library.LocateAttrIndices_finds [OF lib assms(2,3,4,7) refl] by auto
  have "list_all2 (located serialized) (entries_at t name info') (elements_of t name (known @ new))" "length (entries_at t name info') \<le> 1"
    for t name
    using st stands_for_length [OF st dist, of t name] by (auto simp: stands_for_def)
  with run show ?thesis by blast
qed

text \<open>The second attribute of the second rank is lost.\<close>

definition other_element :: element where
  "other_element = index_element ref_bp (sample_variable\<lparr>v_Name := ''w''\<rparr>) 0 1 [characteristics_block ref_bp 5 (step_body ref_bp ref_serial 1 [])]"

theorem attribute_search_stops_witness:
  "\<exists>info. LocateAttrIndices ref_bp ref_merge [] (el_Bytes sample_element @ el_Bytes sample_element @ el_Bytes other_element) 0
       (length (el_Bytes sample_element @ el_Bytes sample_element @ el_Bytes other_element)) = Inr info \<and> entries_at 1 ''w'' info = []"
proof -
  have "var_entry ref_bp ref_serial ref_merge other_element"
    unfolding other_element_def by (rule index_element_var_entry [where n = 5 and rest = "[]"])
      (simp_all add: sample_variable_def characteristics_block_def step_body_def ref_merge_def)
  then have ok: "\<forall>e \<in> set ([sample_element] @ sample_element # [other_element]). element_entry ref_bp ref_serial ref_merge e"
    using sample_element_ok by (auto simp: var_entry_def)
  have "el_key sample_element \<noteq> (1, ''w'')"
    by (simp add: el_key_def sample_element_def index_element_def entry_header_def sample_variable_def)
  then have none: "elements_of 1 ''w'' ([] @ [sample_element]) = []" by (simp add: elements_of_def)
  define ser where "ser = el_Bytes sample_element @ el_Bytes sample_element @ el_Bytes other_element"
  have ser: "concat (map el_Bytes ([sample_element] @ sample_element # [other_element])) = ser" by (simp add: ser_def)
  have "holds_at ser 0 ser" by (simp add: holds_at_def)
  then obtain info where run: "LocateAttrIndices ref_bp ref_merge [] ser 0 (0 + length ser) = Inr info"
    and found: "list_all2 (located ser) (entries_at 1 ''w'' info) (elements_of 1 ''w'' ([] @ [sample_element]))"
    using attribute_search_stops [OF ref_merge.bp_merge_library_axioms ok stands_for_Nil, unfolded ser, of ser 0] by auto
  have "entries_at 1 ''w'' info = []" using found unfolding none by simp
  with run show ?thesis unfolding ser_def by auto
qed

text \<open>
  C34. Whatever bytes are searched: when the searches for variables and for attributes return,
  the maps are well formed, each step and each name of it stands once and has an entry, and
  every entry that was added starts in the searched range.
\<close>

theorem located_well_formed:
  assumes "info_ok info"
  shows "(LocateVarIndices L X info serialized pos endPosition = Inr vars \<longrightarrow> info_ok vars \<and> starts_in pos endPosition info vars) \<and>
    (LocateAttrIndices L X info serialized pos endPosition = Inr attrs \<longrightarrow> info_ok attrs \<and> starts_in pos endPosition info attrs)"
  using LocateVarIndices_well_formed [OF _ assms] LocateAttrIndices_well_formed [OF _ assms] by blast

theorem located_well_formed_witness:
  "\<exists>info. LocateVarIndices ref_bp ref_merge [] (el_Bytes sample_element) 0 (length (el_Bytes sample_element)) = Inr info \<and>
     info \<noteq> [] \<and> info_ok info"
proof -
  have "\<forall>e \<in> set [sample_element]. element_entry ref_bp ref_serial ref_merge e" using sample_element_ok by (simp add: var_entry_def)
  then obtain info where run: "LocateVarIndices ref_bp ref_merge [] (el_Bytes sample_element) 0 (length (el_Bytes sample_element)) = Inr info"
    and st: "stands_for (el_Bytes sample_element) info [sample_element]"
    using ref_merge.LocateVarIndices_finds [of "[sample_element]" "el_Bytes sample_element" "[]" "[]" 0] by (auto simp: holds_at_def)
  have "el_key sample_element = (1, ''v'')"
    by (simp add: el_key_def sample_element_def index_element_def entry_header_def sample_variable_def)
  then have "length (entries_at 1 ''v'' info) = 1" using stands_for_length [OF st] by simp
  then have "info \<noteq> []" by (auto simp: entries_at_def)
  with run located_well_formed [OF info_ok_Nil] show ?thesis by blast
qed














definition sample_parser :: "index_table \<Rightarrow> bp4_parser" where
  "sample_parser table = \<lparr>mf_VersionTag = [], mf_IsLittleEndian = True, mf_HasSubFiles = True, mf_Version = 4, m_WriterIsActive = False,
     m_MetadataIndexTable = table, d_DataPGCount = 0, d_StepsCount = 0, d_CurrentStep = 0, d_IsRowMajor = True, d_ReverseDimensions = False\<rparr>"


text \<open>
  C40. Parsing ends on any bytes, whatever the lengths and the positions in them are: if every
  read stays in the buffer, \<open>ParseMetadataIndex\<close> and \<open>ParseMetadata\<close> return, with a result or
  with an exception.
\<close>

theorem parsing_returns:
  assumes "bounded_reads L"
  shows "(\<exists>r. ParseMetadataIndex L R b absoluteStartPos hasHeader oneStepOnly = Some r) \<and>
    (\<exists>r. ParseMetadata L X DefineVariable DefineAttribute parameters engine hostLanguage buffer firstStep D io = Some r)"
  by (intro conjI ParseMetadataIndex_returns ParseMetadata_returns assms)

theorem parsing_returns_witness:
  "(\<exists>r. ParseMetadataIndex ref_bp sample_reader \<lparr>m_Buffer = [1, 2, 3], m_Position = 0, m_AbsolutePosition = 0\<rparr> 0 False False = Some r) \<and>
   (\<exists>r. ParseMetadata ref_bp ref_merge note_variable note_attribute (\<lambda>_. None) ''BP4'' ''C++'' [1, 2, 3] True
      (sample_parser [(0, [(1, [0, 0, 0, 0])])]) [] = Some r)"
  by (rule parsing_returns [OF bounded_reads_ref_bp])

section \<open>The variables and attributes in the data\<close>


definition four_ints :: BPInfo where
  "four_ints = (fst sample_block)\<lparr>bi_Data := Some [1, 0, 0, 0, 2, 0, 0, 0, 3, 0, 0, 0, 4, 0, 0, 0]\<rparr>"

definition sample_config :: bp4_config where
  "sample_config = \<lparr>cf_StatsLevel = 1, cf_StatsBlockSize = 0, cf_Threads = 1, cf_IsActive = False, cf_IsConsumer = False\<rparr>"




lemma sample_ready: "step_entry ref_bp sample_variable sample_writer []" "ms_TimeStep (w_MetadataSet sample_writer) \<noteq> 0"
  by (simp_all add: step_entry_def index_step_def sample_writer_def sample_variable_def empty_index_def)









definition sample_deserializer :: "bytes \<Rightarrow> bp4_deserializer" where
  "sample_deserializer metadata =
     bp4_parser.extend (sample_parser []) \<lparr>d_Metadata = metadata, d_TransformTypes = {}, d_DeferredVariablesMap = []\<rparr>"




text \<open>
  C29. An attribute in the data: with room for it and its values in memory, \<open>DoPutAttributeInData\<close>
  writes the record of the attribute behind the data, tags and a length of 4 bytes around the
  name, the type (of an array, for strings that are one) and the values; the payload offset of
  the statistics is the place of the values in the file. An array with fewer elements than the
  attribute says is read behind its end.
\<close>

theorem attribute_written:
  assumes lib: "bp_library L"
  shows "(\<forall>vs. attribute_values L B a = Inr vs \<longrightarrow> room_for (22 + length (at_Name a) + length (concat vs)) W \<longrightarrow>
      (\<exists>path. length path = 2 \<and> DoPutAttributeInData L B W a stats =
          Inr (put_data W (attribute_frame L (attribute_body L a (st_MemberID stats) path (attribute_type B a) (concat vs))),
            stats\<lparr>st_PayloadOffset := m_AbsolutePosition (w_Data W) + of_nat (18 + length (at_Name a)) + w_PreDataFileLength W\<rparr>) \<and>
        holds_at (attribute_frame L (attribute_body L a (st_MemberID stats) path (attribute_type B a) (concat vs)))
          (18 + length (at_Name a)) (concat vs))) \<and>
    (\<not> at_IsSingleValue a \<longrightarrow> length (at_DataArray a) < unat (at_Elements a) \<longrightarrow> attribute_values L B a = Inl (Crash Out_of_bounds))"
proof (intro conjI allI impI)
  fix vs assume "attribute_values L B a = Inr vs" and "room_for (22 + length (at_Name a) + length (concat vs)) W"
  from bp_library.PutAttributeInDataCommon_fits [OF lib this, of stats] obtain path where path: "length path = 2"
    and run: "PutAttributeInDataCommon L B W a stats =
      Inr (put_data W (attribute_frame L (attribute_body L a (st_MemberID stats) path (attribute_type B a) (concat vs))),
        stats\<lparr>st_PayloadOffset := m_AbsolutePosition (w_Data W) + of_nat (18 + length (at_Name a)) + w_PreDataFileLength W\<rparr>)" by blast
  define pre where "pre = str_bytes ''[AMD'' @ host L 4 (4 + length (attribute_body L a (st_MemberID stats) path (attribute_type B a) (concat vs))) @
    host L 4 (unat (st_MemberID stats)) @ name_record L (at_Name a) @ path @ [of_char CHR ''n''] @ [attribute_type B a]"
  have "attribute_frame L (attribute_body L a (st_MemberID stats) path (attribute_type B a) (concat vs)) = pre @ concat vs @ str_bytes ''AMD]''"
    by (simp add: attribute_frame_def pre_def attribute_body_def)
  moreover have "18 + length (at_Name a) = length pre" by (simp add: pre_def path)
  ultimately have "holds_at (attribute_frame L (attribute_body L a (st_MemberID stats) path (attribute_type B a) (concat vs)))
      (18 + length (at_Name a)) (concat vs)"
    by (simp only: holds_at_prefix)
  then show "\<exists>path. length path = 2 \<and> DoPutAttributeInData L B W a stats =
        Inr (put_data W (attribute_frame L (attribute_body L a (st_MemberID stats) path (attribute_type B a) (concat vs))),
          stats\<lparr>st_PayloadOffset := m_AbsolutePosition (w_Data W) + of_nat (18 + length (at_Name a)) + w_PreDataFileLength W\<rparr>) \<and>
      holds_at (attribute_frame L (attribute_body L a (st_MemberID stats) path (attribute_type B a) (concat vs))) (18 + length (at_Name a)) (concat vs)"
    using run path unfolding DoPutAttributeInData_def by blast
qed (simp add: attribute_values_def string_values_def plain_values_def array_elements_def)

definition sample_attribute :: Attribute where
  "sample_attribute = \<lparr>at_Name = ''units'', at_IsSingleValue = False, at_DataSingleValue = [], at_DataArray = [[109], [107, 103]],
     at_Elements = 2, at_type_enum = 9, at_type_size = 0\<rparr>"

theorem attribute_written_witness:
  "\<exists>W' stats'. DoPutAttributeInData ref_bp ref_data sample_writer sample_attribute (fst (snd sample_block)) = Inr (W', stats') \<and>
     m_Position (w_Data W') = 44 \<and> st_PayloadOffset stats' = 23"
proof -
  let ?vs = "[host ref_bp 4 2, host ref_bp 4 2, [109, 0], host ref_bp 4 3, [107, 103, 0]]"
  have h: "host ref_bp 4 (Suc (Suc 0)) = host ref_bp 4 2" "host ref_bp 4 (Suc (Suc (Suc 0))) = host ref_bp 4 3"
    by (simp_all only: numeral_2_eq_2 numeral_3_eq_3)
  have vs: "attribute_values ref_bp ref_data sample_attribute = Inr ?vs"
    by (simp add: attribute_values_def string_values_def array_elements_def sample_attribute_def ref_data_def h)
  moreover have "room_for (22 + length (at_Name sample_attribute) + length (concat ?vs)) sample_writer"
    by (simp add: room_for_def sample_writer_def sample_attribute_def)
  ultimately obtain path where path: "length path = 2"
    and run: "DoPutAttributeInData ref_bp ref_data sample_writer sample_attribute (fst (snd sample_block)) =
      Inr (put_data sample_writer (attribute_frame ref_bp (attribute_body ref_bp sample_attribute (st_MemberID (fst (snd sample_block))) path
          (attribute_type ref_data sample_attribute) (concat ?vs))),
        (fst (snd sample_block))\<lparr>st_PayloadOffset := m_AbsolutePosition (w_Data sample_writer) + of_nat (18 + length (at_Name sample_attribute)) +
          w_PreDataFileLength sample_writer\<rparr>)"
    using attribute_written [OF ref_bp.bp_library_axioms, of ref_data sample_attribute sample_writer "fst (snd sample_block)"] by blast
  show ?thesis
    using path by (intro exI conjI) (rule run, simp_all add: attribute_body_def sample_attribute_def sample_writer_def)
qed

text \<open>
  C30. The record of a span never gets its length: \<open>PutVariablePayload\<close> of a span returns before
  it writes the length, and \<open>PutVariableMetadata\<close> has stepped over its 8 bytes, so that they are
  whatever the buffer held there.
\<close>

theorem span_length_unwritten:
  assumes lib: "bp_data_library L Z B payload" and "type_enum v \<noteq> bd_type_string B" and "bi_Data b = None"
    and "dims_ok (v_Count v) (v_Shape v) (v_Start v)" and "room_for (35 + length (v_Name v) + 27 * length (v_Count v) + type_size v) W"
    and "PutVariableMetadata L Z B C W v b row (Some sp) = Inr (W1, Some sp1)" and "PutVariablePayload L B W1 v b row (Some sp1) = Inr W2"
  shows "holds_at (m_Buffer (w_Data W2)) (m_Position (w_Data W)) (str_bytes ''[VMD'') \<and>
    chunk (m_Position (w_Data W) + 4) 8 (m_Buffer (w_Data W2)) = chunk (m_Position (w_Data W) + 4) 8 (m_Buffer (w_Data W))"
  by (rule bp_data_library.span_length_kept [OF assms])

definition no_data :: BPInfo where
  "no_data = four_ints\<lparr>bi_Data := None\<rparr>"

definition zero_span :: Span where
  "zero_span = \<lparr>sp_Value = [0, 0, 0, 0], sp_PayloadPosition = 0, sp_MinMaxMetadataPositions = (0, 0)\<rparr>"

theorem span_length_unwritten_witness:
  "\<exists>W1 sp1 W2. PutVariableMetadata ref_bp ref_serial ref_data sample_config sample_writer sample_variable no_data True (Some zero_span) = Inr (W1, Some sp1) \<and>
     PutVariablePayload ref_bp ref_data W1 sample_variable no_data True (Some sp1) = Inr W2 \<and>
     chunk 4 8 (m_Buffer (w_Data W2)) = replicate 8 0"
proof -
  have v: "type_enum sample_variable \<noteq> bd_type_string ref_data" "bi_Data no_data = None"
    "dims_ok (v_Count sample_variable) (v_Shape sample_variable) (v_Start sample_variable)"
    by (simp_all add: sample_variable_def ref_data_def no_data_def dims_ok_def)
  have room: "room_for (35 + length (v_Name sample_variable) + 27 * length (v_Count sample_variable) + type_size sample_variable) sample_writer"
    by (simp add: room_for_def sample_writer_def sample_variable_def)
  have "\<exists>stats. GetBPStats ref_data sample_config 0 0 sample_variable no_data True = Inr stats"
    by (simp add: GetBPStats_def subblock_stats_def v(2) sample_config_def Let_def ref_data_def)
  then obtain W1 sp1 where meta: "PutVariableMetadata ref_bp ref_serial ref_data sample_config sample_writer sample_variable no_data True (Some zero_span) =
      Inr (W1, Some sp1)" and sp1: "sp_Value sp1 = sp_Value zero_span"
    using ref_data.PutVariableMetadata_span_returns [OF v room _ sample_ready] by blast
  have "is_default ref_data (type_enum sample_variable) (sp_Value sp1)" by (simp add: sp1 zero_span_def ref_data_def)
  then obtain W2 where pay: "PutVariablePayload ref_bp ref_data W1 sample_variable no_data True (Some sp1) = Inr W2"
    by (simp add: PutVariablePayload_def Let_def)
  from span_length_unwritten [OF ref_data.bp_data_library_axioms v room meta pay] have "chunk 4 8 (m_Buffer (w_Data W2)) = replicate 8 0"
    by (simp add: sample_writer_def chunk_def)
  with meta pay show ?thesis by blast
qed

section \<open>Reading selections\<close>

text \<open>
  C38. The two ways to find the bytes of a selection agree. For a global array without
  operations whose steps are numbered without a gap, and a selection within its shapes,
  \<open>SetVariableBlockInfo\<close> and \<open>GetSubFileInfo\<close> fail in the same way, or name for every file and
  step the same boxes, common boxes and places of bytes, in the same order; nothing else of the
  block is changed.
\<close>

theorem selections_agree:
  assumes v: "rv_ShapeID v = GlobalArray" "map fst (rv_AvailableStepBlockIndexOffsets v) = [1..<Suc n]"
    and b: "bi_Start b = v_Start v" "bi_Count b = v_Count v" "ri_StepsStart b = rv_StepsStart v" "ri_StepsCount b = rv_StepsCount v"
      "ri_StepBlockSubStreamsInfo b = []" "rv_StepsStart v + rv_StepsCount v \<le> n" "in_shapes v b"
    and plain: "\<forall>(step, positions) \<in> set (rv_AvailableStepBlockIndexOffsets v). plain_blocks R D (type_enum v) positions"
  shows "rel_sum (=) (\<lambda>infoMap b'. same_places infoMap b' \<and> only_streams b b') (GetSubFileInfo R D v) (SetVariableBlockInfo L R D v b)"
  by (rule SetVariableBlockInfo_agrees [OF assms])

text \<open>An array of four numbers in one step; its single block is all of the metadata.\<close>

definition sample_body :: bytes where
  "sample_body = 8 # host ref_bp 4 (unat (1 :: 32 word)) @ 7 # host ref_bp 4 (unat (0 :: 32 word)) @ 4 # 1 # host ref_bp 2 (24 * unat (1 :: byte)) @
     ref_dimension [4] [4] [0] @ [] @ 3 # host ref_bp 8 (unat (7 :: size_t)) @ 6 # host ref_bp 8 (unat (100 :: size_t))"

definition sample_array :: ReadVariable where
  "sample_array = (ref_variable 2 ''v'' [4] [1] [2])\<lparr>rv_AvailableStepBlockIndexOffsets := [(1, [0])], rv_AvailableShapes := [(1, [4])]\<rparr>"

lemma sample_block_read:
  "ref_characteristics 2 (characteristics_block ref_bp 5 sample_body) 0 2 True = Inr (ref_body True sample_body, 5 + length sample_body)"
  using ref_characteristics_block [of "characteristics_block ref_bp 5 sample_body" 0 5 sample_body 2 2]
  by (simp add: holds_at_def chunk_def) (simp add: sample_body_def ref_dimension_def)

theorem selections_agree_witness:
  "let D = sample_deserializer (characteristics_block ref_bp 5 sample_body); b = SetBlockInfo ref_read sample_array None 0 1
   in \<exists>info b'. GetSubFileInfo ref_read D sample_array = Inr [(0, [(1, [info])])] \<and> sf_Seeks info = (104, 112) \<and>
     SetVariableBlockInfo ref_bp ref_read D sample_array b = Inr b' \<and> same_places [(0, [(1, [info])])] b'"
proof -
  let ?D = "sample_deserializer (characteristics_block ref_bp 5 sample_body)"
  define b where "b = SetBlockInfo ref_read sample_array None 0 1"
  let ?c = "ref_body True sample_body"
  have c: "ch_Start ?c = [0]" "ch_Count ?c = [4]" "ch_FileIndex ?c = 0" "ch_PayloadOffset ?c = 100" "\<not> op_IsActive (ch_Op ?c)"
    using ref_body_written [OF sample_body_def] by (simp_all add: Let_def) (simp add: ref_body_def Let_def)
  have D: "d_Metadata ?D = characteristics_block ref_bp 5 sample_body" "mf_IsLittleEndian ?D" "\<not> d_ReverseDimensions ?D" "d_IsRowMajor ?D"
    by (simp_all add: sample_deserializer_def sample_parser_def bp4_parser.extend_def)
  have read: "block_characteristics ref_read ?D 2 2 0 = Inr ?c"
    using sample_block_read by (simp add: block_characteristics_def D) (simp add: ref_read_def)
  have a: "type_enum sample_array = 2" "type_size sample_array = 4" "rv_AvailableStepBlockIndexOffsets sample_array = [(1, [0])]"
    "rv_StepsStart sample_array = 0" "rv_StepsCount sample_array = 1" "v_Start sample_array = [1]" "v_Count sample_array = [2]"
    "rv_ShapeID sample_array = GlobalArray" "rv_AvailableShapes sample_array = [(1, [4])]" "v_Shape sample_array = [4]"
    by (simp_all add: sample_array_def ref_variable_def)
  have box: "StartEndBox ref_read s k False = box_of s k" "IntersectionBox ref_read x y = (if overlap x y then common x y else ([], []))"
    "LinearIndex ref_read x p row = of_nat (ref_index x p row)" for s k x y p row
    by (simp_all add: ref_read_def reversed_def Let_def)
  have "\<exists>info. GetSubFileInfo ref_read ?D sample_array = Inr [(0, [(1, [info])])] \<and> sf_Seeks info = (104, 112)"
    by (simp add: GetSubFileInfo_def a sub_file_step_def sub_file_block_def read c box D box_of_def overlap_def common_def
        ref_index_def map_push_def al_at_def Let_def)
  then obtain info where info: "GetSubFileInfo ref_read ?D sample_array = Inr [(0, [(1, [info])])]" "sf_Seeks info = (104, 112)" by blast
  have b: "bi_Start b = [1]" "bi_Count b = [2]" "bi_Shape b = [4]" "ri_StepsStart b = 0" "ri_StepsCount b = 1" "ri_StepBlockSubStreamsInfo b = []"
    by (simp_all add: b_def ref_read_def a)
  have "in_shapes sample_array b" "map fst (rv_AvailableStepBlockIndexOffsets sample_array) = [1..<Suc 1]"
    "rv_StepsStart sample_array + rv_StepsCount sample_array \<le> 1"
    "\<forall>(step, positions) \<in> set (rv_AvailableStepBlockIndexOffsets sample_array). plain_blocks ref_read ?D (type_enum sample_array) positions"
    by (simp_all add: in_shapes_def a b al_at_def plain_blocks_def read c)
  then have "rel_sum (=) (\<lambda>infoMap b'. same_places infoMap b' \<and> only_streams b b') (GetSubFileInfo ref_read ?D sample_array)
      (SetVariableBlockInfo ref_bp ref_read ?D sample_array b)"
    using a b by (intro selections_agree [of sample_array 1 b ref_read ?D ref_bp]) simp_all
  then show ?thesis using info unfolding Let_def b_def [symmetric] by (auto elim!: rel_sum.cases)
qed



end
