(* ===== verification/Spec2Isabelle.thy ===== *)
theory Spec2Isabelle
  imports Samples Legacy Tracing Emulation Bp4_Properties
begin

text \<open>
  pmemcpy stores values of a program in persistent memory, by key. This development models
  the library (src/include/pmemcpy) and the BP4 format that comes with it
  (src/src/serialize/bp4), and proves what its parts promise one another and what they do
  where they do not keep the promise.

  The parts of the program. \<open>PMEM\<close> (memcpy.h) is what a client calls: \<open>mmap\<close>, \<open>store\<close>,
  \<open>load\<close>, \<open>free\<close>, \<open>munmap\<close>, \<open>release\<close>. It has a \<open>Storage\<close> (storage/storage.h) and asks a
  factory for a \<open>Serializer\<close> (serialize/serializer.h) in every call. With \<open>use_mmap\<close> the
  storage allocates as many bytes as the serializer estimates and the serializer writes into
  them; a load finds the bytes where they lie. Without, the serializer makes a buffer of its
  own and the storage copies it. The storages are a directory of files (posix.h), the same
  with the files mapped by libpmem (pmdk_fs.h), and a hash table in a pool of libpmemobj
  (pmdk_hashtable.h). The serializers are two forms of Cap'n Proto messages (capnproto.h,
  capnproto_nocompress.h) and a plain copy (no_serializer.h). Buffers, the formatter and the
  errors are in util/. The BP4 writer puts blocks of variables into the process group of a step,
  indexes them, and on rank 0 merges the indices of all ranks into the metadata; the reader
  parses the metadata, defines the variables and finds the bytes of a selection in the data.

  The theories, in the order they build on each other, and what they model:

    \<^item> \<open>Prelude\<close>: bytes, the ways an operation fails (a thrown \<open>Error\<close>, a foreign exception, a
      fault that ends the process), sequencing, regions of bytes. \<open>Formatting\<close>, \<open>Errors\<close>,
      \<open>Buffers\<close>: util/serializeable.h, util/error.h, util/errors.h. \<open>Tracing\<close>: util/trace.h.
    \<^item> \<open>Serialization\<close>, \<open>Capnp\<close>, \<open>Legacy\<close>: the files of serialize/ but for bp4/, and
      util/vector_ptr.h. A value is its object representation; the overloads for one object and
      for an array are the cases of the type \<open>target\<close>.
    \<^item> \<open>Storage\<close>, \<open>Posix_Os\<close>, \<open>Posix\<close>, \<open>Pmdk_Fs\<close>, \<open>Pmdk_Hashtable\<close>: the files of storage/. An
      operation \<open>X_op\<close> is the method \<open>op\<close> of the class X; it takes the state (the heap, the
      files, the pool, and the members of the object) and gives the new state with a result or a
      failure.
    \<^item> \<open>Factories\<close>, \<open>Memcpy\<close>, \<open>Clients\<close>, \<open>Sessions\<close>, \<open>Emulation\<close>, \<open>Samples\<close>: the two factories,
      \<open>PMEM\<close>, its configurations, sequences of its calls as a step relation, the delays of
      a PMEMULATION build, and the states the examples run on.
    \<^item> \<open>Bp4_Bytes\<close>, \<open>Bp4_Base\<close>, \<open>Bp4_Header\<close>: the helpers, names, the index file.
      \<open>Bp4_Index\<close>, \<open>Bp4_Group\<close>, \<open>Bp4_Data\<close>, \<open>Bp4_Put\<close>: the writer, with its buffers and indices in
      the record \<open>bp4_writer\<close>. \<open>Bp4_Locate\<close>, \<open>Bp4_Merge\<close>: the metadata of all ranks.
    \<^item> \<open>Bp4_Parse\<close>, \<open>Bp4_Readback\<close>: reading the metadata. \<open>Bp4_Read\<close>, \<open>Bp4_Select\<close>, \<open>Bp4_Get\<close>,
      \<open>Bp4_Agree\<close>: the variables of the reader, selections, and what they read of what was
      put. \<open>Bp4_Properties\<close>: the properties of both.

  What is not in the repository is an argument of the definitions: a record of functions, with
  what their documentation promises as a locale, and an instance that shows it can be kept.

    \<^item> Cap'n Proto: \<open>capnp\<close>, \<open>capnp_library\<close>, \<open>ref_capnp\<close>; the archives of the unused serializers:
      \<open>archive\<close>, \<open>archive_library\<close>, \<open>ref_archive\<close>.
    \<^item> libpmemobj: \<open>pmemobj\<close>, \<open>pmemobj_library\<close>, \<open>ref_pmemobj\<close>; libpmem: \<open>libpmem\<close>,
      \<open>libpmem_library\<close>, \<open>ref_libpmem\<close>.
    \<^item> ADIOS2, which the BP4 files are taken from: \<open>bp_library\<close> (copying values and names),
      \<open>bp_serial_library\<close> (characteristics), \<open>bp_data_library\<close> (payloads and indices),
      \<open>bp_merge_library\<close> (headers, the order of maps), \<open>bp_read_library\<close> (blocks, boxes, the
      variables of an engine), each extending an earlier one, with \<open>ref_bp\<close>, \<open>ref_serial\<close>,
      \<open>ref_data\<close>, \<open>ref_merge\<close> and \<open>ref_read\<close>.

  The interfaces of the program itself are locales too: \<open>serializer_contract\<close>, which
  \<open>NoSerializer\<close> and both Cap'n Proto serializers meet, and \<open>storage_contract\<close>, which all three
  storages meet. The lemmas about \<open>PMEM\<close> are proved once for both contracts
  (\<open>pmem_client\<close>), and the properties are their instances.

  What the lemmas show. A storage is seen as a map from keys to bytes: every operation keeps an
  invariant of its state and does to the map what its name says, or fails in the cases that are
  listed; the sessions of \<open>PMEM\<close> refine a map from keys to values. The formatter is the
  replacement of its placeholders. Of the writer the lemmas give the bytes: the records of a group,
  the blocks of an index, their lengths and counts, the merged metadata; of the reader,
  that it stops, hands on what the writer has written, defines the variables with the
  places of their blocks, and selects the bytes that were put. Where the code
  does something else than it means to, the property says what it does.

  Loops. A loop over a list or a number is a \<open>fun\<close> or a \<open>function\<close> with its measure. The loops over
  the records of a buffer need not stop when a length is such that the position does not
  move; they are partial functions into \<open>option\<close>, and that they return is proved of them:
  parsing returns on any bytes, the search for entries on the indices that ranks have written. There is no fuel. Sizes are words of the width the code has. A position in a
  buffer of the BP4 code is a natural number, and a sum of one with a number that was read from
  the buffer is taken modulo 2 ^ 64 in the search for entries; elsewhere
  it is not reduced, and the properties bound the buffers.

  Not modelled:

    \<^item> Threads and the mutex of the reader: a call is done when the next begins. What a crash leaves
      in persistent memory between two steps of an operation.
    \<^item> What becomes of pointers into a file or a pool after it was unmapped: \<open>munmap\<close> changes no
      file, and later accesses through such a pointer are not faults of the model.
    \<^item> Permissions, symbolic links and relative components of paths; a \<open>write\<close> or \<open>read\<close> is one
      step of the file. Any call of the system can fail (\<open>os_faults\<close>).
    \<^item> The profiler calls of the BP4 code, code that is commented out, and the explicit
      instantiations of templates: the type of a variable is an argument.
    \<^item> The tests, the benchmarks (src/test) and the scripts.
\<close>

section \<open>The library as a whole\<close>








section \<open>Sequences of calls\<close>




text \<open>
  C5. \<open>PosixStorage\<close> implements the same map of values, for keys that are file names, as
  long as the system does not fail \<open>open\<close>, \<open>mmap\<close> or \<open>read\<close>.
\<close>

theorem posix_runs:
  assumes "capnp_library L \<or> z = NO_SERIALIZER" and "quiet_reads F"
    and s: "files_ok s" "\<And>key. file_contents s key = None"
    and adm: "\<forall>c \<in> set cs. admissible file_key
      (\<lambda>tgt v. fits_of L T z tgt v \<and> enc_of L T z tgt v \<noteq> [] \<and> length (enc_of L T z tgt v) < 2 ^ 63) c"
    and run: "pmem_run L (posix_pmem F z use_mmap) T s cs s'" and spec: "spec_commands (\<lambda>_. None) cs = Some m"
  shows "spec_results (\<lambda>_. None) cs \<and> files_ok s' \<and>
    (\<forall>key. file_key key \<longrightarrow> file_contents s' key = None \<longleftrightarrow> m key = None)"
proof -
  let ?pm = "posix_pmem F z use_mmap :: 'a file_storage_scheme PMEM"
  have pm': "pm_storage ?pm = PosixStorage F" "pm_serializer ?pm = z" by (simp_all add: posix_pmem_def)
  have L: "capnp_library L \<or> pm_serializer ?pm = NO_SERIALIZER" using assms(1) by (simp add: pm'(2))
  from pmem_client.run_from_empty [OF posix_client [OF L pm'(1)] assms(2) s, unfolded pm'(2), OF adm run spec]
  show ?thesis .
qed

theorem posix_runs_witness:
  "\<exists>x s'. pmem_run ref_capnp (posix_pmem no_faults NO_SERIALIZER True) UInt8 dir_state
     [Store ''k'' Single [7], Load ''k'' Single [0] x, Free ''k''] s' \<and> x = [7]"
proof -
  let ?pm = "posix_pmem no_faults NO_SERIALIZER True :: ref_pool pmem_state PMEM"
  let ?s1 = "fst (PMEM_store ref_capnp ?pm UInt8 dir_state ''k'' Single [7])"
  let ?l = "PMEM_load ref_capnp ?pm UInt8 ?s1 ''k'' Single [0]"
  note defs = posix_pmem_def PMEM_store_def PMEM_load_def PMEM_free_def Let_def Posix_alloc_def
    mmap_buffer_alloc_def mmap_buffer_load_def Posix_find_def Posix_free_def os_open_def os_ftruncate_def os_mmap_def os_close_def
    no_faults_def parent_exists_def dir_state_eq init_state_def key_path_def dirname_def
    NoSerializer_est_encoded_size_def payload_size_def os_mem_def os_set_mem_def file_bytes_def resized_def
    NoSerializer_serialize_into_def NoSerializer_deserialize_def mem_read_def mem_write_def leave_scope_def
  have st: "PMEM_store ref_capnp ?pm UInt8 dir_state ''k'' Single [7] = (?s1, Inr ())"
    by (rule prod_eqI) (simp_all add: defs)
  have "\<exists>x. snd ?l = Inr x" by (simp add: defs)
  then obtain x where ld: "?l = (fst ?l, Inr x)" by (metis prod.collapse)
  have fr: "PMEM_free ?pm (fst ?l) ''k'' = (fst (PMEM_free ?pm (fst ?l) ''k''), Inr ())"
    by (simp add: PMEM_free_def Posix_free_def posix_pmem_def)
  note run = run_Cons [OF step_store [OF st] run_Cons [OF step_load [OF ld] run_Cons [OF step_free [OF fr] run_Nil]]]
  have "spec_results (\<lambda>_. None) [Store ''k'' Single [7], Load ''k'' Single [0] x, Free ''k'']"
    using posix_runs [OF _ quiet_no_faults files_ok_dir_state _ _ run]
    by (fastforce simp: file_key_def NoSerializer_fits_def payload_size_def)
  then show ?thesis using run by auto
qed

section \<open>The hash table\<close>









text \<open>
  C12. \<open>find\<close>, \<open>load\<close> and \<open>free\<close> of a key that is not in the table throw
  \<open>PMDK_CANT_FIND_KEY\<close> with the key in the message and change nothing.
\<close>

theorem hashtable_missing:
  assumes "pmemobj_library P po_ok" and "hash_ok P po_ok s" and "hash_key key" and "hash_contents hash P s key = None"
  shows "PMDKHashtable_find hash P s key = (s, Inl (throw_error PMDK_CANT_FIND_KEY [Arg_str key])) \<and>
    PMDKHashtable_load hash P s key = (s, Inl (throw_error PMDK_CANT_FIND_KEY [Arg_str key])) \<and>
    PMDKHashtable_free hash P s key = (s, Inl (throw_error PMDK_CANT_FIND_KEY [Arg_str key]))"
  using pmemobj_library.hash_find_missing [OF assms] by blast

theorem hashtable_missing_witness:
  "snd (PMDKHashtable_find (env_hash ref_env) ref_pmemobj pool_state ''k'') =
     Inl (throw_error PMDK_CANT_FIND_KEY [Arg_str ''k''])"
  using hashtable_missing [OF ref_pool.pmemobj_library_axioms pool_state_ok(1), of "''k''" "env_hash ref_env"]
  by (simp add: hash_key_def)




text \<open>
  C14. When libpmemobj cannot insert the entry, \<open>alloc\<close> does not report it: it returns a buffer
  over the object it allocated, although \<open>find\<close> of the key throws that there is no such key.
\<close>

theorem hashtable_alloc_lost:
  assumes "hash_ok P po_ok s" and "hash_key key" and "hash_contents hash P s key = None"
    and "po_alloc P n Inr (pmem s) = (p1, Inr (Some d))"
    and "po_insert P (bucket_of hash s key)
      (PMDKHashtable_add \<lparr>la_id_len = of_nat (length key), la_id = key, la_len = n, la_data = d\<rparr>) p1 = (p2, Inr None)"
    and "pv_buckets (po_view P p2) = pv_buckets (po_view P (pmem s))"
    and "pv_entries (po_view P p2) = pv_entries (po_view P (pmem s))"
    and "length (po_errormsg P p2) \<le> 7000"
  shows "PMDKHashtable_alloc hash P s key n = (s\<lparr>pmem := p2\<rparr>, Inr (Pmem_buffer (Object d) n)) \<and>
    snd (PMDKHashtable_find hash P (s\<lparr>pmem := p2\<rparr>) key) = Inl (throw_error PMDK_CANT_FIND_KEY [Arg_str key])"
proof
  note s = assms(1) [unfolded hash_ok_def]
  have "length key + length (po_errormsg P p2) \<le> 8000" using assms(2,8) by (simp add: hash_key_def)
  then show "PMDKHashtable_alloc hash P s key n = (s\<lparr>pmem := p2\<rparr>, Inr (Pmem_buffer (Object d) n))"
    using s by (intro alloc_unnoticed [OF _ _ assms(4,5)]) simp_all
  have "lookup_object (po_view P (pmem s)) (bucket_of hash s key) (key_bytes key) = None"
    using assms(2,3) s by (simp add: hash_contents_def lookup_eq_None)
  then have "find_entry (po_view P (pmem s)) key (pv_buckets (po_view P (pmem s)) (bucket_of hash s key)) = Inr None"
    using s assms(2) table_okD(3) by (subst find_entry_spec) (auto simp: lookup_object_def)
  then have "find_entry (po_view P p2) key (pv_buckets (po_view P p2) (bucket_of hash s key)) = Inr None"
    using find_entry_cong [OF assms(7)] by (simp add: assms(6))
  then show "snd (PMDKHashtable_find hash P (s\<lparr>pmem := p2\<rparr>) key) = Inl (throw_error PMDK_CANT_FIND_KEY [Arg_str key])"
    using s by (simp add: PMDKHashtable_find_def PMDKHashtable_find_entry_def hashfun_def bucket_of_def)
qed

theorem hashtable_alloc_lost_witness:
  "snd (PMDKHashtable_alloc (env_hash ref_env) (ref_pmemobj\<lparr>po_insert := \<lambda>i c p. (p, Inr None)\<rparr>) pool_state ''k'' 5) =
     Inr (Pmem_buffer (Object 0) 5)"
proof -
  let ?P = "ref_pmemobj\<lparr>po_insert := \<lambda>i c p. (p, Inr None)\<rparr>"
  let ?p1 = "fst (po_alloc ?P 5 Inr (pmem pool_state))"
  have view: "po_view ?P = po_view ref_pmemobj" by (simp add: ref_pmemobj_def)
  have "hash_contents (env_hash ref_env) ?P = hash_contents (env_hash ref_env) ref_pmemobj"
    by (simp add: hash_contents_def fun_eq_iff view)
  then have s: "hash_ok ?P ref_pool_ok pool_state" "hash_contents (env_hash ref_env) ?P pool_state ''k'' = None"
    using pool_state_ok(1) by (simp_all add: hash_ok_def view)
  have "rp_next (pmem pool_state) = 0"
    by (simp add: pool_state_def PMDKHashtable_mmap_def PMDKHashtable_create_def init_state_def ref_pmemobj_def min_pool_size_def)
  then have al: "po_alloc ?P 5 Inr (pmem pool_state) = (?p1, Inr (Some 0))"
    by (intro prod_eqI) (simp_all add: ref_pmemobj_def ref_alloc_def)
  have ins: "po_insert ?P i c ?p1 = (?p1, Inr None)" for i c by simp
  have v: "pv_buckets (po_view ?P ?p1) = pv_buckets (po_view ?P (pmem pool_state))"
    "pv_entries (po_view ?P ?p1) = pv_entries (po_view ?P (pmem pool_state))" "length (po_errormsg ?P ?p1) \<le> 7000"
    by (simp_all add: ref_pmemobj_def ref_alloc_def)
  have "hash_key ''k''" by (simp add: hash_key_def)
  from hashtable_alloc_lost [OF s(1) this s(2) al ins v] show ?thesis by simp
qed

text \<open>
  A pool too small for the table is not refused: the error is formatted and dropped, and
  \<open>mmap\<close> of a new path goes on to create the pool and the table.
\<close>

theorem hashtable_small_pool_accepted:
  assumes "n < min_pool_size P nb" and "po_create P path n (pmem s) = (p, True)" and "po_table P nb p = (p', True)"
  shows "PMDKHashtable_create P s path n nb = (s\<lparr>pmem := p', ppool := True, nbuckets := nb\<rparr>, Inr ())"
  using assms by (simp add: PMDKHashtable_create_def dropped_size_error)

theorem hashtable_small_pool_accepted_witness:
  "snd (PMDKHashtable_create ref_pmemobj init_state ''pool'' 100 1000) = Inr ()"
proof -
  have "(100 :: size_t) < min_pool_size ref_pmemobj 1000" by (simp add: min_pool_size_def ref_pmemobj_def)
  from hashtable_small_pool_accepted [OF this, of "''pool''" init_state] show ?thesis
    by (simp add: ref_pmemobj_def)
qed

section \<open>The file storages\<close>

text \<open>
  \<open>store\<close> of \<open>PosixStorage\<close> does not truncate: it leaves the bytes written followed by
  what the file held beyond them. For a new key that is the value, for a key that held a longer
  value it is not. Other keys keep their contents.
\<close>

theorem posix_store_overwrites:
  assumes "files_ok s" and "os_mem s src = Inr bs" and "unat (buffer_size src) = length bs" and "length bs < 2 ^ 63"
    and "Posix_store F s key src = (s', Inr ())"
  shows "files_ok s' \<and> file_contents s' = (file_contents s)(key \<mapsto>
    bs @ drop (length bs) (case file_contents s key of Some old \<Rightarrow> old | None \<Rightarrow> []))"
  using Posix_store_done [OF assms] by blast

theorem posix_store_overwrites_witness:
  "file_contents (fst (Posix_store no_faults
     (fst (Posix_store no_faults dir_state ''k'' (String_buffer [1, 2, 3]))) ''k'' (String_buffer [9]))) ''k'' = Some [9, 2, 3]"
proof -
  let ?b1 = "String_buffer [1, 2, 3]" and ?b2 = "String_buffer [9]"
  let ?r1 = "Posix_store no_faults dir_state ''k'' ?b1"
  let ?r2 = "Posix_store no_faults (fst ?r1) ''k'' ?b2"
  note defs = Posix_store_def os_open_def no_faults_def parent_exists_def dir_state_eq init_state_def key_path_def dirname_def
    os_mem_def buffer_bytes_def os_write_def Let_def os_close_def file_bytes_def
  have b: "os_mem s ?b1 = Inr [1, 2, 3]" "unat (buffer_size ?b1) = length [1 :: byte, 2, 3]" "length [1 :: byte, 2, 3] < 2 ^ 63"
    "os_mem s ?b2 = Inr [9]" "unat (buffer_size ?b2) = length [9 :: byte]" "length [9 :: byte] < 2 ^ 63"
    for s :: "ref_pool pmem_state"
    by (simp_all add: os_mem_def buffer_bytes_def)
  have r: "?r1 = (fst ?r1, Inr ())" "?r2 = (fst ?r2, Inr ())"
    by (rule prod_eqI; simp add: defs)+
  have 1: "files_ok (fst ?r1) \<and> file_contents (fst ?r1) = (file_contents dir_state)(''k'' \<mapsto> [1, 2, 3])"
    using posix_store_overwrites [OF files_ok_dir_state b(1-3) r(1)] by simp
  show ?thesis
    using posix_store_overwrites [OF conjunct1 [OF 1] b(4-6) r(2)] 1 by simp
qed

text \<open>
  C15. \<open>load\<close> of \<open>PosixStorage\<close>, exactly: it allocates two blocks and copies the file into both;
  the buffer returned owns the second, and no buffer owns the first, which stays allocated.
\<close>

theorem posix_load_leaks:
  assumes "files_ok s" and "file_contents s key = Some bs" and "quiet_reads F"
  shows "Posix_load F s key =
    (s\<lparr>h_blocks := (h_blocks s)(h_next s \<mapsto> bs, Suc (h_next s) \<mapsto> bs), h_next := Suc (Suc (h_next s))\<rparr>,
     Inr (Malloc_buffer (Blk (Suc (h_next s))) (of_nat (length bs))))"
  using assms by (intro Posix_load_eq) (simp_all add: quiet_reads_def)

theorem posix_load_leaks_witness:
  "let s = dir_state\<lparr>fs_names := (fs_names dir_state)(''d/k'' := Some (File 0)), fs_inodes := (\<lambda>_. None)(0 := Some [5]), fs_next := 1\<rparr>
   in h_blocks (fst (Posix_load no_faults s ''k'')) 0 = Some [5] \<and> snd (Posix_load no_faults s ''k'') = Inr (Malloc_buffer (Blk 1) 1)"
proof -
  let ?s = "dir_state\<lparr>fs_names := (fs_names dir_state)(''d/k'' := Some (File 0)), fs_inodes := (\<lambda>_. None)(0 := Some [5]), fs_next := 1\<rparr>"
  have 1: "files_ok ?s"
    by (simp add: dir_state_eq init_state_def files_ok_def os_ok_def heap_ok_def)
  have 2: "file_contents ?s ''k'' = Some [5]"
    by (simp add: dir_state_eq init_state_def file_contents_def key_path_def)
  have 3: "h_next ?s = 0" by (simp add: dir_state_eq init_state_def)
  show ?thesis using posix_load_leaks [OF 1 2 quiet_no_faults] 3 by (simp add: Let_def)
qed


text \<open>
  C16. A call of \<open>PosixStorage\<close> that returns has closed the file it opened: \<open>alloc\<close>, \<open>store\<close>,
  \<open>find\<close>, and \<open>load\<close> of a stored key leave the number of open descriptors as it was.
\<close>

theorem posix_descriptors_closed:
  "(\<forall>key n s' b. Posix_alloc F s key n = (s', Inr b) \<longrightarrow> open_fds s' = open_fds s) \<and>
   (\<forall>key src s'. Posix_store F s key src = (s', Inr ()) \<longrightarrow> open_fds s' = open_fds s) \<and>
   (\<forall>key s' b. Posix_find F s key = (s', Inr b) \<longrightarrow> open_fds s' = open_fds s) \<and>
   (\<forall>key bs s' b. files_ok s \<and> file_contents s key = Some bs \<and> Posix_load F s key = (s', Inr b) \<longrightarrow> open_fds s' = open_fds s)"
proof (intro conjI allI impI; (elim conjE)?)
  show "open_fds s' = open_fds s"
    if l: "files_ok s" "file_contents s key = Some bs" "Posix_load F s key = (s', Inr b)" for key bs s' b
    using Posix_load_eq [OF l(1,2) Posix_load_stored [OF l]] l(3) by auto
qed (rule Posix_alloc_fds Posix_store_fds Posix_find_fds; assumption)+

theorem posix_descriptors_closed_witness:
  "open_fds (fst (Posix_alloc no_faults dir_state ''k'' 4)) = 0"
proof -
  have "file_key ''k''" by (simp add: file_key_def)
  from Posix_alloc_returns [OF files_ok_dir_state this dir_state_empty(1), of 4]
  obtain s' b where al: "Posix_alloc no_faults dir_state ''k'' 4 = (s', Inr b)" by auto
  then have "open_fds s' = open_fds dir_state" using posix_descriptors_closed by blast
  then show ?thesis using al by (simp add: dir_state_eq init_state_def)
qed

text \<open>
  A call that throws may not have: \<open>alloc\<close> of a size that cannot be truncated to or mapped
  leaves the descriptor open and the new key behind, with an empty file.
\<close>

theorem posix_alloc_failure_leaks:
  assumes "files_ok s" and "file_key key" and "fs_names s (key_path s key) = None" and "n = 0 \<or> 2 ^ 63 \<le> unat n"
  shows "\<exists>s' e. Posix_alloc no_faults s key n = (s', Inl e) \<and> open_fds s' = Suc (open_fds s) \<and>
    file_contents s' = (file_contents s)(key \<mapsto> [])"
  by (rule Posix_alloc_unmappable [OF assms]) blast

theorem posix_alloc_failure_leaks_witness:
  "open_fds (fst (Posix_alloc no_faults dir_state ''k'' 0)) = 1"
proof -
  have "file_key ''k''" by (simp add: file_key_def)
  from posix_alloc_failure_leaks [OF files_ok_dir_state this dir_state_empty(1), of 0]
  show ?thesis by (auto simp: dir_state_eq init_state_def)
qed

text \<open>
  C17. \<open>load\<close> of a key that was never stored does not fail: it creates an empty file under the
  key and returns an empty buffer, while \<open>find\<close> of the same key throws \<open>POSIX_FIND_FAILED\<close>.
\<close>

theorem posix_missing_key:
  assumes "files_ok s" and "file_key key" and "fs_names s (key_path s key) = None"
  shows "(\<exists>s' b. Posix_load no_faults s key = (s', Inr b) \<and> buffer_size b = 0 \<and>
      file_contents s' = (file_contents s)(key \<mapsto> [])) \<and>
    snd (Posix_find F s key) = Inl (throw_error POSIX_FIND_FAILED
      [Arg_str (path_prefix s), Arg_str key, Arg_str (fs_errno (fst (Posix_find F s key)))])"
proof
  show "\<exists>s' b. Posix_load no_faults s key = (s', Inr b) \<and> buffer_size b = 0 \<and> file_contents s' = (file_contents s)(key \<mapsto> [])"
    by (rule Posix_load_missing [OF assms]) blast
  have "file_contents s key = None" using assms(1,3) by (simp add: file_contents_None)
  then show "snd (Posix_find F s key) = Inl (throw_error POSIX_FIND_FAILED
      [Arg_str (path_prefix s), Arg_str key, Arg_str (fs_errno (fst (Posix_find F s key)))])"
    by (rule Posix_find_missing(1) [OF assms(1) _ prod.collapse [symmetric], THEN arg_cong [where f = "\<lambda>x. x"]])
qed

theorem posix_missing_key_witness:
  "file_contents (fst (Posix_load no_faults dir_state ''k'')) ''k'' = Some []"
proof -
  have "file_key ''k''" by (simp add: file_key_def)
  from conjunct1 [OF posix_missing_key [OF files_ok_dir_state this dir_state_empty(1)]] show ?thesis by auto
qed

text \<open>
  C18. \<open>find\<close> does not check \<open>mmap\<close>: when the system refuses the mapping of a stored, non-empty
  key, \<open>find\<close> returns a buffer all the same, and reading through it is out of bounds.
\<close>

theorem posix_find_unmapped:
  assumes "files_ok s" and "file_contents s key = Some bs" and "bs \<noteq> []"
    and "flt_open F (key_path s key) = None" and "\<And>i n. flt_mmap F i n = Some m"
  shows "\<exists>s' b. Posix_find F s key = (s', Inr b) \<and> unat (buffer_size b) = length bs \<and>
    os_mem s' b = Inl (Crash Out_of_bounds)"
proof -
  obtain s1 r where o: "os_open F (key_path s key) False s = (s1, r)" by fastforce
  obtain ino where r: "r = Some ino" and s1: "s1 = s\<lparr>open_fds := Suc (open_fds s)\<rparr>"
    and ino: "fs_inodes s ino = Some bs" and len: "length bs < 2 ^ 63"
    using open_stored [OF assms(1,2) o] assms(4) by blast
  have fb: "file_bytes s1 ino = bs" by (simp add: s1 file_bytes_def ino)
  have "mmap_buffer_load F ino s1 = (fail_with m s1, Mmap_buffer Map_failed (of_nat (length bs)) (sint (fd_number F)))"
    using assms(3,5) by (simp add: mmap_buffer_load_def fb os_mmap_def)
  then have "Posix_find F s key =
      (os_close (fail_with m s1), Inr (Mmap_buffer Map_failed (of_nat (length bs)) (sint (fd_number F))))"
    by (simp add: Posix_find_def o r)
  moreover have n: "unat (of_nat (length bs) :: size_t) = length bs" using len by simp
  moreover have "of_nat (length bs) \<noteq> (0 :: size_t)" using n assms(3) by (metis length_0_conv unat_0)
  ultimately show ?thesis by (simp add: os_mem_def buffer_bytes_def peek_def block_at_def assms(3))
qed

theorem posix_find_unmapped_witness:
  "let s = dir_state\<lparr>fs_names := (fs_names dir_state)(''d/k'' := Some (File 0)), fs_inodes := (\<lambda>_. None)(0 := Some [5]), fs_next := 1\<rparr>;
       F = no_faults\<lparr>flt_mmap := \<lambda>_ _. Some ''no memory''\<rparr>
   in \<exists>s' b. Posix_find F s ''k'' = (s', Inr b) \<and> os_mem s' b = Inl (Crash Out_of_bounds)"
proof -
  let ?s = "dir_state\<lparr>fs_names := (fs_names dir_state)(''d/k'' := Some (File 0)), fs_inodes := (\<lambda>_. None)(0 := Some [5]), fs_next := 1\<rparr>"
    and ?F = "no_faults\<lparr>flt_mmap := \<lambda>_ _. Some ''no memory''\<rparr>"
  have 1: "files_ok ?s"
    by (simp add: dir_state_eq init_state_def files_ok_def os_ok_def heap_ok_def)
  have 2: "file_contents ?s ''k'' = Some [5]"
    by (simp add: dir_state_eq init_state_def file_contents_def key_path_def)
  have 3: "flt_open ?F (key_path ?s ''k'') = None" "\<And>i n. flt_mmap ?F i n = Some ''no memory''"
    by (simp_all add: no_faults_def)
  show ?thesis using posix_find_unmapped [OF 1 2 _ 3] by (auto simp: Let_def)
qed


text \<open>
  \<open>mmap\<close> of a file storage returns exactly when the path is a directory or can be made one;
  it then is the prefix of the keys' files. Otherwise it throws \<open>POSIX_PATH_NOT_DIRECTORY\<close>.
\<close>

theorem posix_mmap_directory:
  "Posix_mmap F s path n =
     (if fs_names s path = Some Dir then (s\<lparr>path_prefix := path\<rparr>, Inr ())
      else if fs_names s path = None \<and> flt_mkdir F path = None \<and> path \<noteq> [] \<and> parent_exists s path
      then (s\<lparr>fs_names := (fs_names s)(path := Some Dir), path_prefix := path\<rparr>, Inr ())
      else (if fs_names s path = None then fst (os_mkdir F path s) else s,
            Inl (throw_error POSIX_PATH_NOT_DIRECTORY [Arg_str path])))"
  by (auto simp: Posix_mmap_def os_mkdir_def fs_exists_def fs_is_directory_def Let_def split: option.splits)


section \<open>Buffers\<close>

text \<open>
  C20. Ownership of \<open>malloc_buffer\<close>: moving a buffer keeps its bytes and frees its block once,
  and leaves the heap as before the allocation; copying it makes the second destructor free the
  block again.
\<close>

theorem malloc_buffer_ownership:
  assumes "heap_ok h" and "malloc_buffer_copy_of bs h = Inr (h', b)"
  shows "(let (b1, b0) = malloc_buffer_move b
      in buffer_bytes h' b1 = buffer_bytes h' b \<and>
         bind_sum (malloc_buffer_destroy b1 h') (malloc_buffer_destroy b0) = Inr (h'\<lparr>h_blocks := h_blocks h\<rparr>)) \<and>
    bind_sum (malloc_buffer_destroy (malloc_buffer_copy b) h') (malloc_buffer_destroy b) = Inl (Crash Double_free)"
  using malloc_buffer_move_destroyed [OF assms(2) _ assms(1)] malloc_buffer_copy_destroyed_twice [OF assms(2)]
  by (simp split: prod.split)

theorem malloc_buffer_ownership_witness:
  "case malloc_buffer_copy_of [1, 2] init_state of
     Inr (h', b) \<Rightarrow> bind_sum (malloc_buffer_destroy (malloc_buffer_copy b) h') (malloc_buffer_destroy b) = Inl (Crash Double_free)
   | Inl _ \<Rightarrow> False"
proof -
  obtain h' b where m: "malloc_buffer_copy_of [1, 2] init_state = Inr (h', b)" by (simp add: malloc_buffer_copy_of_eq)
  have "heap_ok init_state" by (simp add: init_state_def heap_ok_def)
  from malloc_buffer_ownership [OF this m] show ?thesis by (simp add: m)
qed

text \<open>
  Making a \<open>string_buffer\<close> of a \<open>malloc_buffer\<close> reads it as a C string: the bytes after the
  first NUL are lost, and a block without a NUL is read beyond its end.
\<close>

theorem string_buffer_truncates:
  assumes "malloc_buffer_copy_of bs h = Inr (h', b)"
  shows "string_buffer_of_malloc b h' =
    (if 0 \<in> set bs then Inr (String_buffer (takeWhile (\<lambda>x. x \<noteq> 0) bs)) else Inl (Crash Out_of_bounds))"
  by (rule string_buffer_of_malloc_cut [OF assms])

theorem string_buffer_truncates_witness:
  "case malloc_buffer_copy_of [1, 0, 2] init_state of
     Inr (h', b) \<Rightarrow> string_buffer_of_malloc b h' = Inr (String_buffer [1])
   | Inl _ \<Rightarrow> False"
proof -
  obtain h' b where m: "malloc_buffer_copy_of [1, 0, 2] init_state = Inr (h', b)" by (simp add: malloc_buffer_copy_of_eq)
  from string_buffer_truncates [OF this] show ?thesis by (simp add: m)
qed

section \<open>Serializers\<close>

text \<open>
  Deserialization does not look at \<open>dims\<close>: \<open>NoSerializer\<close> writes as many bytes as the
  stored buffer has and Cap'n Proto as many elements as the stored message has. Whatever shape
  is asked for, a destination that is large enough gets the stored bytes at its start, and a
  smaller one is overrun.
\<close>

theorem deserialize_ignores_dims:
  assumes "unat n = length stored"
  shows "NoSerializer_deserialize T tgt dst n stored =
      (if length stored \<le> length dst then Inr (stored @ drop (length stored) dst) else Inl (Crash Out_of_bounds)) \<and>
    extract_message L T (Array d) dst (set_array T xs) =
      (if length (concat xs) \<le> length dst then Inr (concat xs @ drop (length (concat xs)) dst) else Inl (Crash Out_of_bounds))"
  using assms copy_elements_Inr [of 0 xs dst] copy_elements_overrun [of 0 dst xs]
  by (auto simp: NoSerializer_deserialize_cases extract_message_def)

theorem deserialize_ignores_dims_witness:
  "NoSerializer_deserialize UInt8 (Array (dims_of 1)) [0] 2 [7, 8] = Inl (Crash Out_of_bounds) \<and>
   extract_message ref_capnp UInt8 (Array (dims_of 1)) [0] (set_array UInt8 [[7], [8]]) = Inl (Crash Out_of_bounds)"
  using deserialize_ignores_dims [of 2 "[7, 8]" UInt8 "Array (dims_of 1)" "[0]" ref_capnp "dims_of 1" "[[7], [8]]"] by simp

text \<open>
  \<open>Dimensions\<close>: the number of elements is the product of the dimensions, each taken
  modulo 2^64 (a negative one wraps), modulo 2^64.
\<close>

theorem dimensions_count_product:
  "unat (Dimensions_count (Dimensions_new d ds)) =
     nat (prod_list (map (\<lambda>x. x mod 2 ^ 64) (d # ds)) mod 2 ^ 64) \<and>
   Dimensions_data (Dimensions_new d ds) = map word_of_int (d # ds)"
  using Dimensions_new_count [of d ds]
  by (simp add: Dimensions_count_def Dimensions_data_def) (simp add: Dimensions_new_def)

section \<open>Messages and errors\<close>

text \<open>
  C21. \<open>Formatter::format\<close> is, for every format and arguments, the replacement of the pairs of
  braces by the serialized arguments in order; it is undefined exactly when an argument is
  missing or a prefix of the result exceeds the 8192 bytes of its buffer.
\<close>

theorem formatter_replaces:
  "Formatter_format fmt args =
     (case format_spec fmt args of
        None \<Rightarrow> Inl (Crash Out_of_bounds)
      | Some s \<Rightarrow> if length s \<le> format_capacity then Inr s else Inl (Crash Out_of_bounds)) \<and>
   (format_spec fmt args = None \<longleftrightarrow> length args < placeholders fmt)"
  using format_spec_defined [of fmt args]
  by (auto simp: Formatter_format_spec within_capacity_def split: option.splits)

text \<open>
  C22. The handler macros: a thrown error of the table is printed and the process exits with the
  error's code, which tells it from every other error of the table. Only \<open>FILE_NOT_FOUND\<close>
  exits with 0, the status of success.
\<close>

theorem error_exit_codes:
  assumes "E \<in> set error_table" and "throw_error E args = Throw e"
  shows "error_handle (Inl (throw_error E args)) = Exited (err_msg e @ [CHR 0x0A]) (err_code E) \<and>
    (err_code E = 0 \<longleftrightarrow> E = FILE_NOT_FOUND) \<and>
    (\<forall>E' \<in> set error_table. err_code E' = err_code E \<longrightarrow> E' = E)"
proof (intro conjI ballI impI)
  show "error_handle (Inl (throw_error E args)) = Exited (err_msg e @ [CHR 0x0A]) (err_code E)"
    using assms(2) throw_error_Throw [OF assms(2)] error_table_status [OF assms(1)]
    by (simp add: get_code_def Error_print_def)
  have fnf: "FILE_NOT_FOUND \<in> set error_table" "err_code FILE_NOT_FOUND = 0"
    by (simp_all add: error_table_def FILE_NOT_FOUND_def Error_new_def)
  show "err_code E = 0 \<longleftrightarrow> E = FILE_NOT_FOUND"
    using error_table_inj [OF assms(1) fnf(1)] fnf(2) by auto
  show "E' = E" if "E' \<in> set error_table" "err_code E' = err_code E" for E'
    by (rule error_table_inj [OF that(1) assms(1) that(2)])
qed

theorem error_exit_codes_witness:
  "error_handle (Inl (throw_error FILE_NOT_FOUND [Arg_str ''f''])) = Exited (''File not found at f'' @ [CHR 0x0A]) 0"
proof -
  have e: "throw_error FILE_NOT_FOUND [Arg_str ''f''] =
      Throw \<lparr>err_code = 0, err_fmt = ''File not found at {}'', err_msg = ''File not found at f''\<rparr>"
    by (simp add: throw_error_def Error_format_def FILE_NOT_FOUND_def Error_new_def Formatter_format_spec within_capacity_def
        format_spec.simps(2) format_capacity_def)
  have "FILE_NOT_FOUND \<in> set error_table" by (simp add: error_table_def)
  from conjunct1 [OF error_exit_codes [OF this e]] show ?thesis
    by (simp only: list.simps select_convs append.simps) (simp add: FILE_NOT_FOUND_def Error_new_def)
qed

text \<open>
  The names of the storage and serializer types: converting a type to its name and back is
  the identity, and a string that is no such name throws an error that quotes it.
\<close>

theorem type_names_roundtrip:
  "StorageTypeConverter_convert (StorageTypeConverter_name t) = Inr t \<and>
   SerializerTypeConverter_convert (SerializerTypeConverter_name z) = Inr z \<and>
   (name \<notin> range StorageTypeConverter_name \<longrightarrow>
      StorageTypeConverter_convert name = Inl (throw_error INVALID_STORAGE_TYPE [Arg_str name])) \<and>
   (name \<notin> range SerializerTypeConverter_name \<longrightarrow>
      SerializerTypeConverter_convert name = Inl (throw_error INVALID_SERIALIZER_TYPE [Arg_str name]))"
proof (intro conjI impI)
  show "StorageTypeConverter_convert name = Inl (throw_error INVALID_STORAGE_TYPE [Arg_str name])"
    if "name \<notin> range StorageTypeConverter_name"
    using that by (metis StorageTypeConverter_convert_def StorageTypeConverter_name.simps rangeI)
  show "SerializerTypeConverter_convert name = Inl (throw_error INVALID_SERIALIZER_TYPE [Arg_str name])"
    if "name \<notin> range SerializerTypeConverter_name"
    using that by (metis SerializerTypeConverter_convert_def SerializerTypeConverter_name.simps rangeI)
qed (simp_all add: StorageTypeConverter_convert_Inr SerializerTypeConverter_convert_Inr)

theorem type_names_roundtrip_witness:
  "StorageTypeConverter_convert ''PMDK'' = Inl (throw_error INVALID_STORAGE_TYPE [Arg_str ''PMDK''])"
proof -
  have "''PMDK'' \<noteq> StorageTypeConverter_name t" for t by (cases t) simp_all
  then have "''PMDK'' \<notin> range StorageTypeConverter_name" by blast
  with type_names_roundtrip show ?thesis by blast
qed

section \<open>Tracing and emulation\<close>





end
